(* ===== verification/Prelude.thy ===== *)
theory Prelude
  imports Main "HOL-Library.AList" "HOL-Library.Sublist" "HOL-Library.List_Lexorder" "HOL-Library.Char_ord"
begin

text \<open>
  Types, collections of facts and generic lemmas that every component of the development
  shares.  Instants and durations are Go's: an instant is a number of nanoseconds since the
  Unix epoch (UTC), a \<open>time.Duration\<close> a signed number of nanoseconds.  Code that has an
  effect is a function of a world \<open>'w\<close> that returns its result and the next world.
\<close>

type_synonym time = int
type_synonym duration = int

text \<open>A Go method with effects on the world \<open>'w\<close> and a result of type \<open>'a\<close>.\<close>

type_synonym ('w, 'a) act = "'w \<Rightarrow> 'a \<times> 'w"

text \<open>
  A UUID is identified with its canonical text (\<open>uuid.UUID.String\<close> is injective and its
  layout is fixed by RFC 9562), so \<open>uuid_text\<close> is the \<open>String\<close> method.
\<close>

datatype uuid = UUID (uuid_text: string)

definition uuid_Nil :: uuid where
  "uuid_Nil = UUID ''00000000-0000-0000-0000-000000000000''"

text \<open>
  A Go \<open>map[string]string\<close> is an association list with distinct keys; \<open>map_of\<close> is its
  lookup and \<open>AList.update\<close> the assignment \<open>m[k] = v\<close>.
\<close>

type_synonym gomap = "(string \<times> string) list"

subsection \<open>Collections of facts\<close>

named_theorems go_text "rewrite rules of the standard library's text functions"
named_theorems port_simps "rewrite rules of the ports and their implementations"
named_theorems frame_simps "what an operation leaves unchanged"

subsection \<open>64-bit integers\<close>

text \<open>
  \<open>time.Duration\<close> is an \<open>int64\<close>.  \<open>i64\<close> is the wrap-around of a result that
  does not fit.
\<close>

definition i64 :: "int \<Rightarrow> int" where
  "i64 x = (x + 2 ^ 63) mod 2 ^ 64 - 2 ^ 63"

abbreviation max_i64 :: int where
  "max_i64 \<equiv> 2 ^ 63 - 1"

abbreviation in_i64 :: "int \<Rightarrow> bool" where
  "in_i64 x \<equiv> - (2 ^ 63) \<le> x \<and> x \<le> max_i64"

lemma i64_id [simp]: "in_i64 x \<Longrightarrow> i64 x = x"
  by (simp add: i64_def)

lemma in_i64_i64: "in_i64 (i64 x)"
proof -
  have "0 \<le> (x + 2 ^ 63) mod 2 ^ 64" "(x + 2 ^ 63) mod 2 ^ 64 < (2 ^ 64 :: int)"
    by simp_all
  then show ?thesis by (simp add: i64_def)
qed

text \<open>Go's integer division truncates towards zero.\<close>

definition quot :: "int \<Rightarrow> int \<Rightarrow> int" where
  "quot a b = sgn a * sgn b * (\<bar>a\<bar> div \<bar>b\<bar>)"

lemma quot_nonneg: "0 \<le> a \<Longrightarrow> 0 < b \<Longrightarrow> quot a b = a div b"
  by (cases "a = 0") (simp_all add: quot_def)

subsection \<open>Lists and association lists\<close>

text \<open>The first answer of a search, as a chain of early returns gives it.\<close>

fun first_some :: "('a \<Rightarrow> 'b option) \<Rightarrow> 'a list \<Rightarrow> 'b option" where
  "first_some f [] = None"
| "first_some f (x # xs) = (case f x of None \<Rightarrow> first_some f xs | Some y \<Rightarrow> Some y)"

lemma first_some_cong [fundef_cong]:
  "xs = ys \<Longrightarrow> (\<And>x. x \<in> set ys \<Longrightarrow> f x = g x) \<Longrightarrow> first_some f xs = first_some g ys"
  by (induction xs arbitrary: ys) (auto split: option.split)

lemma first_some_None_iff: "first_some f xs = None \<longleftrightarrow> (\<forall>x \<in> set xs. f x = None)"
  by (induction xs) (auto split: option.split)

lemma first_some_SomeD: "first_some f xs = Some y \<Longrightarrow> \<exists>x \<in> set xs. f x = Some y"
  by (induction xs) (auto split: option.splits)

lemma map_of_update [simp]: "map_of (AList.update k v m) = (map_of m)(k \<mapsto> v)"
  by (simp add: update_conv')

lemma distinct_fst_eq:
  "distinct (map f xs) \<Longrightarrow> x \<in> set xs \<Longrightarrow> y \<in> set xs \<Longrightarrow> f x = f y \<Longrightarrow> x = y"
  by (auto simp: distinct_map inj_on_def)

lemma disjoint_keys: "\<forall>u \<in> B. f u \<notin> f ` A \<Longrightarrow> f ` A \<inter> f ` B = {}"
  by (force simp: image_iff)

lemma filter_key_singleton:
  assumes "distinct (map f xs)" and "x \<in> set xs"
  shows "filter (\<lambda>y. f y = f x) xs = [x]"
  using assms
proof (induction xs)
  case (Cons a xs)
  show ?case
  proof (cases "a = x")
    case True
    with Cons.prems have "filter (\<lambda>y. f y = f x) xs = []"
      by (auto simp: filter_empty_conv) (metis image_eqI)
    with True show ?thesis by simp
  next
    case False
    with Cons.prems have "x \<in> set xs" "f a \<noteq> f x" by (auto simp: image_iff)
    with Cons show ?thesis by simp
  qed
qed simp

lemma filter_key_empty: "k \<notin> f ` set xs \<Longrightarrow> filter (\<lambda>y. f y = k) xs = []"
  by (auto simp: filter_empty_conv)

end
