(* ===== verification/GoErrors.thy ===== *)
theory GoErrors
  imports Prelude
begin

text \<open>
  Go's error values.  An error is a tree: \<open>errors.New\<close> gives a leaf, \<open>fmt.Errorf\<close> with
  \<open>%w\<close> verbs a node over the wrapped errors, \<open>errors.Join\<close> a node over its operands.
  Errors that other modules return are leaves too: a broker error of \<open>kerr\<close> (its code and
  its \<open>Retriable\<close> flag), a \<open>pgconn.PgError\<close> (SQLSTATE and constraint name), and any
  other foreign error with its text.  The texts of the repository's sentinels are distinct, so a
  sentinel is identified with its text.
\<close>

datatype gerr =
    New string
  | KafkaError int bool string
  | PgError string string string
  | Ext string
  | Errorf string "gerr list"
  | Joined "gerr list"

text \<open>The \<open>Error\<close> method. \<open>errors.Join\<close> separates the texts by newlines.\<close>

fun join_lines :: "string list \<Rightarrow> string" where
  "join_lines [] = []"
| "join_lines [x] = x"
| "join_lines (x # y # ys) = x @ CHR 0x0A # join_lines (y # ys)"

fun error_text :: "gerr \<Rightarrow> string" where
  "error_text (New t) = t"
| "error_text (KafkaError c r t) = t"
| "error_text (PgError c n t) = t"
| "error_text (Ext t) = t"
| "error_text (Errorf t es) = t"
| "error_text (Joined es) = join_lines (map error_text es)"

text \<open>\<open>errors.Is\<close>: the target occurs in the tree.\<close>

fun errors_Is :: "gerr \<Rightarrow> gerr \<Rightarrow> bool" where
  "errors_Is (Errorf t es) target = (Errorf t es = target \<or> (\<exists>e \<in> set es. errors_Is e target))"
| "errors_Is (Joined es) target = (Joined es = target \<or> (\<exists>e \<in> set es. errors_Is e target))"
| "errors_Is e target = (e = target)"

lemma errors_Is_refl [simp]: "errors_Is e e"
  by (cases e) auto

text \<open>\<open>errors.As\<close> into a \<open>*kerr.Error\<close> and into a \<open>*pgconn.PgError\<close>: the first one
  of a pre-order walk.\<close>

fun errors_As_kafka :: "gerr \<Rightarrow> (int \<times> bool) option" where
  "errors_As_kafka (KafkaError c r t) = Some (c, r)"
| "errors_As_kafka (Errorf t es) = first_some errors_As_kafka es"
| "errors_As_kafka (Joined es) = first_some errors_As_kafka es"
| "errors_As_kafka _ = None"

fun errors_As_pg :: "gerr \<Rightarrow> (string \<times> string) option" where
  "errors_As_pg (PgError c n t) = Some (c, n)"
| "errors_As_pg (Errorf t es) = first_some errors_As_pg es"
| "errors_As_pg (Joined es) = first_some errors_As_pg es"
| "errors_As_pg _ = None"

text \<open>\<open>fmt.Errorf("prefix: %w", err)\<close>, the shape of nearly every wrap in the code.\<close>

definition wrapf :: "string \<Rightarrow> gerr \<Rightarrow> gerr" where
  "wrapf p e = Errorf (p @ '': '' @ error_text e) [e]"

lemma errors_Is_wrapf [simp]:
  "errors_Is (wrapf p e) t \<longleftrightarrow> wrapf p e = t \<or> errors_Is e t"
  by (simp add: wrapf_def)

lemma errors_As_wrapf [simp]:
  "errors_As_kafka (wrapf p e) = errors_As_kafka e"
  "errors_As_pg (wrapf p e) = errors_As_pg e"
  by (simp_all add: wrapf_def split: option.split)

lemma wrapf_neq_New [simp]: "wrapf p e \<noteq> New t" "New t \<noteq> wrapf p e"
  by (simp_all add: wrapf_def)

text \<open>\<open>errors.Join\<close> of a slice of non-nil errors: nil when there is none.\<close>

definition errors_Join :: "gerr list \<Rightarrow> gerr option" where
  "errors_Join es = (if es = [] then None else Some (Joined es))"

lemma errors_Join_None_iff [simp]: "errors_Join es = None \<longleftrightarrow> es = []"
  by (simp add: errors_Join_def)

lemma errors_Join_Is:
  "errors_Join es = Some e \<Longrightarrow> x \<in> set es \<Longrightarrow> errors_Is x t \<Longrightarrow> errors_Is e t"
  by (auto simp: errors_Join_def split: if_splits)

end
