(* ===== verification/GoText.thy ===== *)
theory GoText
  imports Prelude
begin

text \<open>
  The pieces of Go's standard library that the code uses on text.  A Go string is a sequence of
  bytes, here a list of HOL's 8-bit characters, so \<open>len(s)\<close> is \<open>length s\<close>;
  \<open>utf8.RuneCountInString\<close> counts decoded runes and \<open>strings.TrimSpace\<close> removes the
  encodings of the Unicode white-space runes.
\<close>

abbreviation byte :: "char \<Rightarrow> nat" where
  "byte c \<equiv> of_char c"

definition ascii :: "char \<Rightarrow> bool" where
  "ascii c \<longleftrightarrow> byte c < 128"

lemma ascii_code [code]: "ascii (Char a b c d e f g h) = (\<not> h)"
  by (simp add: ascii_def of_char_Char)

subsection \<open>Runes\<close>

text \<open>
  The number of bytes of the first rune: 1 to 4 for a well-formed UTF-8 sequence (no overlong
  form, no surrogate, nothing above U+10FFFF), and 1 for a byte that starts none
  (\<open>utf8.RuneError\<close> of size 1).
\<close>

definition cont :: "nat \<Rightarrow> nat \<Rightarrow> char \<Rightarrow> bool" where
  "cont lo hi c \<longleftrightarrow> lo \<le> byte c \<and> byte c \<le> hi"

definition rune_size :: "string \<Rightarrow> nat" where
  "rune_size s = (case s of [] \<Rightarrow> 0 | c # cs \<Rightarrow>
     (let x = byte c;
          lo = (if x = 224 then 160 else if x = 240 then 144 else 128);
          hi = (if x = 237 then 159 else if x = 244 then 143 else 191)
      in if 194 \<le> x \<and> x \<le> 223 then
           (case cs of d # _ \<Rightarrow> if cont lo hi d then 2 else 1 | _ \<Rightarrow> 1)
         else if 224 \<le> x \<and> x \<le> 239 then
           (case cs of d # e # _ \<Rightarrow> if cont lo hi d \<and> cont 128 191 e then 3 else 1 | _ \<Rightarrow> 1)
         else if 240 \<le> x \<and> x \<le> 244 then
           (case cs of d # e # f # _ \<Rightarrow>
              if cont lo hi d \<and> cont 128 191 e \<and> cont 128 191 f then 4 else 1 | _ \<Rightarrow> 1)
         else 1))"

lemma rune_size_pos: "s \<noteq> [] \<Longrightarrow> 0 < rune_size s"
  by (auto simp: rune_size_def Let_def split: list.split)

function RuneCount :: "string \<Rightarrow> nat" where
  "RuneCount s = (if s = [] then 0 else Suc (RuneCount (drop (rune_size s) s)))"
  by pat_completeness auto
termination
  by (relation "measure length") (auto simp: rune_size_pos)

declare RuneCount.simps [simp del]

lemma RuneCount_Nil [go_text]: "RuneCount [] = 0"
  by (simp add: RuneCount.simps)

lemma rune_size_ascii: "ascii c \<Longrightarrow> rune_size (c # cs) = 1"
  by (simp add: rune_size_def ascii_def)

lemma RuneCount_ascii [go_text]: "ascii c \<Longrightarrow> RuneCount (c # cs) = Suc (RuneCount cs)"
  by (simp add: RuneCount.simps [of "c # cs"] rune_size_ascii)

lemma RuneCount_le_length: "RuneCount s \<le> length s"
proof (induction s rule: RuneCount.induct)
  case (1 s)
  show ?case
  proof (cases "s = []")
    case False
    with 1 have "RuneCount (drop (rune_size s) s) \<le> length s - rune_size s" by simp
    moreover have "0 < rune_size s" "0 < length s" using False rune_size_pos by auto
    moreover have "RuneCount s = Suc (RuneCount (drop (rune_size s) s))"
      using False by (simp add: RuneCount.simps [of s])
    ultimately show ?thesis by arith
  qed (simp add: RuneCount_Nil)
qed

subsection \<open>Trimming\<close>

text \<open>The UTF-8 encodings of the runes \<open>unicode.IsSpace\<close> accepts.\<close>

definition space_seqs :: "string list" where
  "space_seqs =
     [[CHR 0x09], [CHR 0x0A], [CHR 0x0B], [CHR 0x0C], [CHR 0x0D], [CHR 0x20],
      [CHR 0xC2, CHR 0x85], [CHR 0xC2, CHR 0xA0], [CHR 0xE1, CHR 0x9A, CHR 0x80],
      [CHR 0xE2, CHR 0x80, CHR 0x80], [CHR 0xE2, CHR 0x80, CHR 0x81],
      [CHR 0xE2, CHR 0x80, CHR 0x82], [CHR 0xE2, CHR 0x80, CHR 0x83],
      [CHR 0xE2, CHR 0x80, CHR 0x84], [CHR 0xE2, CHR 0x80, CHR 0x85],
      [CHR 0xE2, CHR 0x80, CHR 0x86], [CHR 0xE2, CHR 0x80, CHR 0x87],
      [CHR 0xE2, CHR 0x80, CHR 0x88], [CHR 0xE2, CHR 0x80, CHR 0x89],
      [CHR 0xE2, CHR 0x80, CHR 0x8A], [CHR 0xE2, CHR 0x80, CHR 0xA8],
      [CHR 0xE2, CHR 0x80, CHR 0xA9], [CHR 0xE2, CHR 0x80, CHR 0xAF],
      [CHR 0xE2, CHR 0x81, CHR 0x9F], [CHR 0xE3, CHR 0x80, CHR 0x80]]"

definition leading :: "string list \<Rightarrow> string \<Rightarrow> nat" where
  "leading seqs s = (case find (\<lambda>p. prefix p s) seqs of None \<Rightarrow> 0 | Some p \<Rightarrow> length p)"

function trim_with :: "string list \<Rightarrow> string \<Rightarrow> string" where
  "trim_with seqs s =
     (if leading seqs s = 0 \<or> s = [] then s else trim_with seqs (drop (leading seqs s) s))"
  by pat_completeness auto
termination
  by (relation "measure (\<lambda>(_, s). length s)") auto

declare trim_with.simps [simp del]

definition TrimSpace :: "string \<Rightarrow> string" where
  "TrimSpace s =
     rev (trim_with (map rev space_seqs) (rev (trim_with space_seqs s)))"

text \<open>\<open>trimmed\<close>: no white-space rune at either end.\<close>

definition trimmed :: "string \<Rightarrow> bool" where
  "trimmed s \<longleftrightarrow> (\<forall>p \<in> set space_seqs. \<not> prefix p s \<and> \<not> suffix p s)"

lemma leading_0_iff:
  "[] \<notin> set seqs \<Longrightarrow> leading seqs s = 0 \<longleftrightarrow> (\<forall>p \<in> set seqs. \<not> prefix p s)"
  by (auto simp: leading_def find_None_iff find_Some_iff split: option.splits) (metis nth_mem)

lemma trim_with_suffix: "suffix (trim_with seqs s) s"
proof (induction seqs s rule: trim_with.induct)
  case (1 seqs s)
  then show ?case
    by (subst trim_with.simps) (auto intro: suffix_order.trans suffix_drop)
qed

lemma trim_with_stops:
  assumes "[] \<notin> set seqs"
  shows "\<forall>p \<in> set seqs. \<not> prefix p (trim_with seqs s)"
  using assms
proof (induction seqs s rule: trim_with.induct)
  case (1 seqs s)
  show ?case
  proof (cases "leading seqs s = 0 \<or> s = []")
    case True
    have "\<forall>p \<in> set seqs. \<not> prefix p s"
    proof (cases "s = []")
      case False
      with True "1.prems" show ?thesis by (simp add: leading_0_iff)
    qed (use "1.prems" in auto)
    with True show ?thesis by (simp add: trim_with.simps [of seqs s])
  next
    case False
    with 1 show ?thesis by (simp add: trim_with.simps [of seqs s])
  qed
qed

lemma trim_with_id:
  "[] \<notin> set seqs \<Longrightarrow> \<forall>p \<in> set seqs. \<not> prefix p s \<Longrightarrow> trim_with seqs s = s"
  by (simp add: trim_with.simps [of seqs s] leading_0_iff)

lemma Nil_notin_space_seqs: "[] \<notin> set space_seqs" "[] \<notin> set (map rev space_seqs)"
  by (simp_all add: space_seqs_def)

lemma trimmed_TrimSpace: "trimmed (TrimSpace s)"
proof -
  let ?l = "trim_with space_seqs s" and ?r = "trim_with (map rev space_seqs) (rev (trim_with space_seqs s))"
  have l: "\<not> prefix p ?l" if "p \<in> set space_seqs" for p
    using trim_with_stops [OF Nil_notin_space_seqs(1)] that by blast
  have "\<forall>q \<in> set (map rev space_seqs). \<not> prefix q ?r"
    by (rule trim_with_stops [OF Nil_notin_space_seqs(2)])
  then have r: "\<not> prefix (rev p) ?r" if "p \<in> set space_seqs" for p
    using that by simp
  have "suffix ?r (rev ?l)" by (rule trim_with_suffix)
  then have "prefix (rev ?r) ?l" by (simp add: suffix_to_prefix)
  then have "\<not> prefix p (rev ?r)" if "p \<in> set space_seqs" for p
    using l [OF that] by (meson prefix_order.trans)
  with r show ?thesis
    by (simp add: trimmed_def TrimSpace_def suffix_to_prefix)
qed

lemma TrimSpace_trimmed [simp]: "trimmed s \<Longrightarrow> TrimSpace s = s"
proof -
  assume t: "trimmed s"
  then have "trim_with space_seqs s = s"
    by (intro trim_with_id Nil_notin_space_seqs) (simp add: trimmed_def)
  moreover have "trim_with (map rev space_seqs) (rev s) = rev s"
    using t by (intro trim_with_id Nil_notin_space_seqs) (simp add: trimmed_def suffix_to_prefix)
  ultimately show ?thesis by (simp add: TrimSpace_def)
qed

lemma TrimSpace_idem [simp]: "TrimSpace (TrimSpace s) = TrimSpace s"
  by (simp add: trimmed_TrimSpace)

lemma TrimSpace_sublist: "sublist (TrimSpace s) s"
proof -
  let ?l = "trim_with space_seqs s"
  have "suffix (trim_with (map rev space_seqs) (rev ?l)) (rev ?l)"
    by (rule trim_with_suffix)
  then have "prefix (TrimSpace s) ?l"
    by (simp add: suffix_to_prefix TrimSpace_def)
  then show ?thesis
    by (meson prefix_imp_sublist suffix_imp_sublist trim_with_suffix sublist_order.order_trans)
qed

text \<open>White space of one byte.\<close>

definition white :: "char \<Rightarrow> bool" where
  "white c \<longleftrightarrow> [c] \<in> set space_seqs"

lemma space_seqs_shape: "list_all (\<lambda>p. length p = 1 \<or> list_all (\<lambda>c. \<not> white c) p) space_seqs"
  by code_simp

lemma white_leads:
  assumes "white c" "p \<in> set space_seqs" "c \<in> set p"
  shows "p = [c]"
proof -
  have "length p = 1 \<or> (\<forall>d \<in> set p. \<not> white d)"
    using space_seqs_shape assms(2) by (auto simp: list_all_iff)
  with assms(1,3) have "length p = 1" by blast
  with assms(3) show ?thesis by (auto simp: length_Suc_conv)
qed

text \<open>One argument serves both ends: the sequences, or the sequences reversed.\<close>

lemma trim_with_white:
  assumes "set seqs = set space_seqs \<or> set seqs = rev ` set space_seqs" "list_all white pre"
  shows "trim_with seqs (pre @ s) = trim_with seqs s"
  using assms(2)
proof (induction pre)
  case (Cons c pre)
  then have c: "white c" by simp
  have only: "p = [c]" if "p \<in> set seqs" "prefix p (c # x)" for p x
  proof -
    from assms(1) that(1) have "p \<in> set space_seqs \<or> p \<in> rev ` set space_seqs" by metis
    then obtain q where q: "q \<in> set space_seqs" "p = q \<or> p = rev q" by blast
    have "q \<noteq> []" using q(1) Nil_notin_space_seqs(1) by auto
    with q that(2) have "c \<in> set q" by (cases p) (auto simp: prefix_Cons, metis list.set_intros(1) set_rev)
    from white_leads [OF c q(1) this] q(2) show ?thesis by auto
  qed
  have "[c] \<in> set seqs" using assms(1) c by (auto simp: white_def)
  then have "find (\<lambda>p. prefix p (c # pre @ s)) seqs \<noteq> None"
    unfolding find_None_iff by auto
  then obtain p where p: "find (\<lambda>p. prefix p (c # pre @ s)) seqs = Some p" by blast
  then have "p \<in> set seqs" "prefix p (c # pre @ s)" by (auto simp: find_Some_iff)
  with only p have "find (\<lambda>p. prefix p (c # pre @ s)) seqs = Some [c]" by simp
  then have "leading seqs (c # pre @ s) = 1" by (simp add: leading_def)
  with Cons show ?case by (simp add: trim_with.simps [of seqs "c # pre @ s"])
qed simp

lemma TrimSpace_padded:
  assumes "trimmed s" "list_all white pre" "list_all white post"
  shows "TrimSpace (pre @ s @ post) = s"
proof (cases "s = []")
  case True
  have "trim_with space_seqs (post @ []) = trim_with space_seqs []"
    by (rule trim_with_white) (use assms in simp_all)
  moreover have "trim_with seqs [] = []" for seqs by (simp add: trim_with.simps)
  ultimately show ?thesis using True trim_with_white [of space_seqs pre post] assms by (simp add: TrimSpace_def)
next
  case False
  have "\<not> prefix p (s @ post)" if p: "p \<in> set space_seqs" for p
  proof
    assume "prefix p (s @ post)"
    then consider "prefix p s" | us where "p = s @ us" "prefix us post" "us \<noteq> []"
      by (auto simp: prefix_append) metis
    then show False
    proof cases
      case (2 us)
      from 2(3) have "hd us \<in> set us" by simp
      moreover from set_mono_prefix [OF 2(2)] this assms(3) have "white (hd us)" by (auto simp: list_all_iff)
      ultimately obtain c where c: "c \<in> set us" "white c" by blast
      with white_leads [OF c(2) p] 2 False show False by (cases s) auto
    qed (use assms(1) p in \<open>simp add: trimmed_def\<close>)
  qed
  then have "trim_with space_seqs (s @ post) = s @ post" by (intro trim_with_id Nil_notin_space_seqs) simp
  moreover have "trim_with (map rev space_seqs) (rev post @ rev s) = trim_with (map rev space_seqs) (rev s)"
    by (rule trim_with_white) (use assms(3) in simp_all)
  moreover have "trim_with (map rev space_seqs) (rev s) = rev s"
    using assms(1) by (intro trim_with_id Nil_notin_space_seqs) (simp add: trimmed_def suffix_to_prefix)
  ultimately show ?thesis using trim_with_white [of space_seqs pre "s @ post"] assms(2) by (simp add: TrimSpace_def)
qed

subsection \<open>Case, cutting, splitting\<close>

definition lower_char :: "char \<Rightarrow> char" where
  "lower_char c = (if 65 \<le> byte c \<and> byte c \<le> 90 then char_of (byte c + 32) else c)"

text \<open>
  \<open>strings.ToLower\<close>: byte-wise on ASCII text, as its fast path does; on other text it maps
  runes through the Unicode case tables, which are the argument \<open>uni\<close>.
\<close>

definition ToLower :: "(string \<Rightarrow> string) \<Rightarrow> string \<Rightarrow> string" where
  "ToLower uni s = (if list_all ascii s then map lower_char s else uni s)"

text \<open>\<open>strings.Cut\<close>: what precedes and what follows the first separator.\<close>

fun Cut :: "string \<Rightarrow> char \<Rightarrow> (string \<times> string) option" where
  "Cut [] c = None"
| "Cut (x # xs) c = (if x = c then Some ([], xs) else map_option (apfst (Cons x)) (Cut xs c))"

lemma Cut_Some_iff: "Cut s c = Some (a, b) \<longleftrightarrow> s = a @ c # b \<and> c \<notin> set a"
  by (induction s arbitrary: a b) (auto simp: Cons_eq_append_conv)

text \<open>\<open>strings.Split\<close> on a one-byte separator; never empty.\<close>

fun Split :: "string \<Rightarrow> char \<Rightarrow> string list" where
  "Split [] c = [[]]"
| "Split (x # xs) c =
     (if x = c then [] # Split xs c
      else (case Split xs c of [] \<Rightarrow> [[x]] | p # ps \<Rightarrow> (x # p) # ps))"

lemma Split_no_sep: "p \<in> set (Split s c) \<Longrightarrow> c \<notin> set p"
  by (induction s arbitrary: p) (auto split: if_splits list.splits)

subsection \<open>Decimal numbers and quoting\<close>

fun dec_digits :: "nat \<Rightarrow> string" where
  "dec_digits n = (if n < 10 then [char_of (n + 48)]
     else dec_digits (n div 10) @ [char_of (n mod 10 + 48)])"

declare dec_digits.simps [simp del]

definition Itoa :: "int \<Rightarrow> string" where
  "Itoa i = (if i < 0 then CHR ''-'' # dec_digits (nat (- i)) else dec_digits (nat i))"

text \<open>For evaluation, the same digits computed on \<open>int\<close>.\<close>

function int_digits :: "int \<Rightarrow> string" where
  "int_digits i = (if i < 10 then [char_of (i + 48)] else int_digits (i div 10) @ [char_of (i mod 10 + 48)])"
  by pat_completeness auto
termination
  by (relation "measure nat") auto

declare int_digits.simps [simp del]

lemma char_of_int: "char_of (int k) = char_of k"
proof -
  have "int (of_char (char_of k :: char)) = int (k mod 256)" by (simp only: of_char_of)
  then have "of_char (char_of k) = int k mod 256" by (simp only: of_nat_of_char zmod_int of_nat_numeral)
  then show ?thesis by (metis char_of_mod_256 char_of_char)
qed

lemma dec_digits_int: "dec_digits n = int_digits (int n)"
proof (induction n rule: dec_digits.induct)
  case (1 n)
  have c: "char_of (int m + 48) = char_of (m + 48)" for m
    using char_of_int [of "m + 48"] by simp
  show ?case
    by (subst dec_digits.simps, subst int_digits.simps) (use 1 c [of "n mod 10"] c [of n] in \<open>simp add: zdiv_int zmod_int\<close>)
qed

lemma Itoa_code [code]: "Itoa i = (if i < 0 then CHR ''-'' # int_digits (- i) else int_digits i)"
  by (simp add: Itoa_def dec_digits_int)

definition hex_digit :: "nat \<Rightarrow> char" where
  "hex_digit n = (if n < 10 then char_of (n + 48) else char_of (n + 87))"

text \<open>
  \<open>strconv.Quote\<close>, the \<open>%q\<close> verb, on bytes: quotes and backslashes are escaped, control
  bytes get their short or \<open>\x\<close> form, other bytes are copied.  (The few unprintable runes
  beyond ASCII, which Go escapes as well, are copied here; only error texts contain them.)
\<close>

definition quote_char :: "char \<Rightarrow> string" where
  "quote_char c =
     (if c = CHR 0x22 then [CHR 0x5C, c] else if c = CHR 0x5C then [c, c]
      else if c = CHR 0x07 then [CHR 0x5C, CHR ''a''] else if c = CHR 0x08 then [CHR 0x5C, CHR ''b'']
      else if c = CHR 0x0C then [CHR 0x5C, CHR ''f''] else if c = CHR 0x0A then [CHR 0x5C, CHR ''n'']
      else if c = CHR 0x0D then [CHR 0x5C, CHR ''r''] else if c = CHR 0x09 then [CHR 0x5C, CHR ''t'']
      else if c = CHR 0x0B then [CHR 0x5C, CHR ''v'']
      else if byte c < 32 \<or> byte c = 127
        then [CHR 0x5C, CHR ''x'', hex_digit (byte c div 16), hex_digit (byte c mod 16)]
      else [c])"

definition fmt_q :: "string \<Rightarrow> string" where
  "fmt_q s = CHR 0x22 # concat (map quote_char s) @ [CHR 0x22]"

text \<open>A concrete trim and a concrete number, as sanity checks of the definitions.\<close>

lemma TrimSpace_example: "TrimSpace ''  Ada L '' = ''Ada L''"
  by code_simp

lemma Itoa_example: "Itoa (- 120) = ''-120''"
  by code_simp

end
