(* ===== verification/Domain.thy ===== *)
theory Domain
  imports GoErrors GoText
begin

text \<open>
  The accounts context's business model, package \<open>internal/accounts/domain\<close>: the value
  objects \<open>Email\<close> and \<open>DisplayName\<close>, the events, the event recorder every aggregate
  embeds, and the aggregate \<open>User\<close> with its one transition \<open>Register\<close>.

  Two pieces of the standard library are arguments: \<open>uni\<close>, \<open>strings.ToLower\<close> on text
  that is not ASCII, and \<open>parse\<close>, \<open>mail.ParseAddress\<close> reduced to what the code reads of it
  (the address on success, \<open>None\<close> on an error).  Every result holds for all \<open>uni\<close> and
  \<open>parse\<close>.
\<close>

subsection \<open>Errors\<close>

definition ErrInvalidEmail :: gerr where
  "ErrInvalidEmail = New ''accounts: email is not a valid address''"

definition ErrInvalidDisplayName :: gerr where
  "ErrInvalidDisplayName = New ''accounts: display name is empty or too long''"

definition ErrInvalidID :: gerr where
  "ErrInvalidID = New ''accounts: user id must not be the nil UUID''"

definition ErrEmailTaken :: gerr where
  "ErrEmailTaken = New ''accounts: email is already registered''"

lemmas domain_errors = ErrInvalidEmail_def ErrInvalidDisplayName_def ErrInvalidID_def
  ErrEmailTaken_def

subsection \<open>Email\<close>

definition maxEmailLength :: nat where
  "maxEmailLength = 320"

record Email =
  email_value :: string

definition NewEmail ::
    "(string \<Rightarrow> string) \<Rightarrow> (string \<Rightarrow> string option) \<Rightarrow> string \<Rightarrow> gerr + Email" where
  "NewEmail uni parse raw =
     (let s = ToLower uni (TrimSpace raw)
      in if s = [] \<or> length s > maxEmailLength then Inl ErrInvalidEmail
         else (case parse s of
             None \<Rightarrow> Inl ErrInvalidEmail
           | Some address \<Rightarrow>
               if address \<noteq> s then Inl ErrInvalidEmail
               else (case Cut s (CHR ''@'') of
                   None \<Rightarrow> Inl ErrInvalidEmail
                 | Some (_, domainPart) \<Rightarrow>
                     if CHR ''.'' \<notin> set domainPart then Inl ErrInvalidEmail
                     else Inr \<lparr>email_value = s\<rparr>)))"

definition Email_String :: "Email \<Rightarrow> string" where
  "Email_String e = email_value e"

subsection \<open>Display name\<close>

definition maxDisplayNameRunes :: nat where
  "maxDisplayNameRunes = 200"

record DisplayName =
  name_value :: string

definition NewDisplayName :: "string \<Rightarrow> gerr + DisplayName" where
  "NewDisplayName raw =
     (let s = TrimSpace raw
      in if s = [] \<or> RuneCount s > maxDisplayNameRunes then Inl ErrInvalidDisplayName
         else Inr \<lparr>name_value = s\<rparr>)"

definition DisplayName_String :: "DisplayName \<Rightarrow> string" where
  "DisplayName_String n = name_value n"

subsection \<open>Events\<close>

record UserRegistered =
  ur_UserID :: uuid
  ur_Email :: Email
  ur_DisplayName :: DisplayName
  ur_Version :: int
  ur_RegisteredAt :: time

text \<open>
  The interface \<open>Event\<close> is open: \<open>OtherEvent\<close> stands for an implementation other than
  \<open>UserRegistered\<close>, given by what its four methods return and its Go type name.
\<close>

datatype Event =
    UserRegisteredEvent UserRegistered
  | OtherEvent string string string time string

definition AggregateTypeUser :: string where
  "AggregateTypeUser = ''User''"

definition EventTypeUserRegistered :: string where
  "EventTypeUserRegistered = ''com.outboxexpress.accounts.user.registered''"

fun EventType :: "Event \<Rightarrow> string" where
  "EventType (UserRegisteredEvent e) = EventTypeUserRegistered"
| "EventType (OtherEvent et aty aid at gt) = et"

fun AggregateType :: "Event \<Rightarrow> string" where
  "AggregateType (UserRegisteredEvent e) = AggregateTypeUser"
| "AggregateType (OtherEvent et aty aid at gt) = aty"

fun AggregateID :: "Event \<Rightarrow> string" where
  "AggregateID (UserRegisteredEvent e) = uuid_text (ur_UserID e)"
| "AggregateID (OtherEvent et aty aid at gt) = aid"

fun OccurredAt :: "Event \<Rightarrow> time" where
  "OccurredAt (UserRegisteredEvent e) = ur_RegisteredAt e"
| "OccurredAt (OtherEvent et aty aid at gt) = at"

subsection \<open>The event recorder\<close>

record eventRecorder =
  events :: "Event list"

definition record_event ::
    "'a eventRecorder_scheme \<Rightarrow> Event \<Rightarrow> 'a eventRecorder_scheme" where
  "record_event r e = r\<lparr>events := events r @ [e]\<rparr>"

definition PullEvents ::
    "'a eventRecorder_scheme \<Rightarrow> Event list \<times> 'a eventRecorder_scheme" where
  "PullEvents r = (events r, r\<lparr>events := []\<rparr>)"

subsection \<open>The aggregate\<close>

text \<open>A record extension is Go's embedding: a \<open>User\<close> has the recorder's field and methods.\<close>

record User = eventRecorder +
  u_id :: uuid
  u_email :: Email
  u_displayName :: DisplayName
  u_version :: int
  u_createdAt :: time

definition Register ::
    "(string \<Rightarrow> string) \<Rightarrow> (string \<Rightarrow> string option) \<Rightarrow>
     uuid \<Rightarrow> string \<Rightarrow> string \<Rightarrow> time \<Rightarrow> gerr + User" where
  "Register uni parse i email displayName now =
     (if i = uuid_Nil then Inl ErrInvalidID
      else (case NewEmail uni parse email of
          Inl err \<Rightarrow> Inl err
        | Inr addr \<Rightarrow> (case NewDisplayName displayName of
            Inl err \<Rightarrow> Inl err
          | Inr name \<Rightarrow>
              (let u = \<lparr>events = [], u_id = i, u_email = addr, u_displayName = name,
                        u_version = 1, u_createdAt = now\<rparr>
               in Inr (record_event u (UserRegisteredEvent
                    \<lparr>ur_UserID = u_id u, ur_Email = u_email u, ur_DisplayName = u_displayName u,
                     ur_Version = u_version u, ur_RegisteredAt = u_createdAt u\<rparr>))))))"

subsection \<open>Facts about the value objects\<close>

lemma NewEmail_InrD:
  assumes "NewEmail uni parse raw = Inr e"
  shows "email_value e = ToLower uni (TrimSpace raw)" "email_value e \<noteq> []"
    "length (email_value e) \<le> 320" "parse (email_value e) = Some (email_value e)"
    "\<exists>a b. email_value e = a @ CHR ''@'' # b \<and> CHR ''@'' \<notin> set a \<and> CHR ''.'' \<in> set b"
  using assms
  by (fastforce simp: NewEmail_def Let_def maxEmailLength_def Cut_Some_iff
      split: if_splits option.splits prod.splits)+

lemma NewEmail_InlD: "NewEmail uni parse raw = Inl err \<Longrightarrow> err = ErrInvalidEmail"
  by (auto simp: NewEmail_def Let_def split: if_splits option.splits prod.splits)

lemma NewDisplayName_InrD:
  "NewDisplayName raw = Inr n \<Longrightarrow>
     name_value n = TrimSpace raw \<and> name_value n \<noteq> [] \<and> RuneCount (name_value n) \<le> 200"
  by (auto simp: NewDisplayName_def Let_def maxDisplayNameRunes_def split: if_splits)

lemma NewDisplayName_InlD: "NewDisplayName raw = Inl err \<Longrightarrow> err = ErrInvalidDisplayName"
  by (auto simp: NewDisplayName_def Let_def split: if_splits)

text \<open>A registration that succeeds, in full.\<close>

definition registered_event :: "User \<Rightarrow> Event" where
  "registered_event u = UserRegisteredEvent
     \<lparr>ur_UserID = u_id u, ur_Email = u_email u, ur_DisplayName = u_displayName u,
      ur_Version = u_version u, ur_RegisteredAt = u_createdAt u\<rparr>"

lemma Register_InrD:
  assumes "Register uni parse i email name now = Inr u"
  shows "i \<noteq> uuid_Nil" "u_id u = i" "u_version u = 1" "u_createdAt u = now"
    "NewEmail uni parse email = Inr (u_email u)" "NewDisplayName name = Inr (u_displayName u)"
    "events u = [registered_event u]"
  using assms
  by (auto simp: Register_def Let_def record_event_def registered_event_def
      split: if_splits sum.splits)

lemma Register_InlD:
  "Register uni parse i email name now = Inl err \<Longrightarrow>
     err \<in> {ErrInvalidID, ErrInvalidEmail, ErrInvalidDisplayName}"
  by (auto simp: Register_def Let_def split: if_splits sum.splits
      dest: NewEmail_InlD NewDisplayName_InlD)

text \<open>Lower-casing ASCII text commutes with trimming, so the order of the two does not matter.\<close>

lemma byte_inj: "byte c = byte d \<Longrightarrow> c = d"
  by simp

lemma byte_lower_char:
  "byte (lower_char c) = (if 65 \<le> byte c \<and> byte c \<le> 90 then byte c + 32 else byte c)"
  by (simp add: lower_char_def of_char_of)

definition letter :: "char \<Rightarrow> bool" where
  "letter c \<longleftrightarrow> 65 \<le> byte c \<and> byte c \<le> 90 \<or> 97 \<le> byte c \<and> byte c \<le> 122"

lemma lower_char_eq_iff: "\<not> letter x \<Longrightarrow> lower_char c = x \<longleftrightarrow> c = x"
proof
  assume x: "\<not> letter x"
  assume "lower_char c = x"
  then have "byte (lower_char c) = byte x" by simp
  with x have "byte c = byte x" by (auto simp: byte_lower_char letter_def split: if_splits)
  then show "c = x" by (rule byte_inj)
next
  assume "\<not> letter x" "c = x"
  then show "lower_char c = x" by (auto simp: lower_char_def letter_def)
qed

lemma lower_char_idem [simp]: "lower_char (lower_char c) = lower_char c"
  by (rule byte_inj) (auto simp: byte_lower_char)

lemma ascii_lower_char [simp]: "ascii (lower_char c) = ascii c"
  by (auto simp: ascii_def byte_lower_char)

lemma ToLower_ascii: "list_all ascii s \<Longrightarrow> ToLower uni s = map lower_char s"
  by (simp add: ToLower_def)

definition letterless :: "string \<Rightarrow> bool" where
  "letterless p \<longleftrightarrow> list_all (\<lambda>x. \<not> letter x) p"

lemma prefix_lower: "letterless p \<Longrightarrow> prefix p (map lower_char s) \<longleftrightarrow> prefix p s"
proof (induction p arbitrary: s)
  case (Cons x p)
  then have "\<not> letter x" "letterless p" by (simp_all add: letterless_def)
  with Cons.IH show ?case
    by (cases s) (auto simp: lower_char_eq_iff eq_commute [of x])
qed simp

lemma leading_lower:
  "list_all letterless seqs \<Longrightarrow> leading seqs (map lower_char s) = leading seqs s"
proof -
  assume l: "list_all letterless seqs"
  have "find (\<lambda>p. prefix p (map lower_char s)) seqs = find (\<lambda>p. prefix p s) seqs"
    by (rule find_cong) (use l in \<open>auto simp: prefix_lower list_all_iff\<close>)
  then show ?thesis by (simp add: leading_def)
qed

lemma trim_with_lower:
  "list_all letterless seqs \<Longrightarrow>
     trim_with seqs (map lower_char s) = map lower_char (trim_with seqs s)"
proof (induction seqs s rule: trim_with.induct)
  case (1 seqs s)
  then show ?case
    by (simp add: trim_with.simps [of seqs s] trim_with.simps [of seqs "map lower_char s"]
        leading_lower drop_map)
qed

lemma space_seqs_letterless:
  "list_all letterless space_seqs" "list_all letterless (map rev space_seqs)"
  by code_simp+

lemma TrimSpace_lower: "TrimSpace (map lower_char s) = map lower_char (TrimSpace s)"
  by (simp add: TrimSpace_def trim_with_lower space_seqs_letterless rev_map)

lemma list_all_ascii_TrimSpace: "list_all ascii s \<Longrightarrow> list_all ascii (TrimSpace s)"
  using TrimSpace_sublist [of s] by (auto simp: list_all_iff dest: set_mono_sublist)

lemma ToLower_TrimSpace_ascii:
  "list_all ascii s \<Longrightarrow> ToLower uni (TrimSpace s) = TrimSpace (map lower_char s)"
  by (simp add: ToLower_ascii list_all_ascii_TrimSpace TrimSpace_lower)

text \<open>
  The bare address form of RFC 5322 (\<open>dot-atom "@" dot-atom\<close>), a concrete parser for the
  examples: on such text \<open>mail.ParseAddress\<close> returns the text itself as the address.
\<close>

definition atext :: "char \<Rightarrow> bool" where
  "atext c \<longleftrightarrow> 33 \<le> byte c \<and> byte c \<le> 126 \<and> c \<notin> set ''()<>[]:;@,.'' \<and> c \<noteq> CHR 0x5C \<and> c \<noteq> CHR 0x22"

definition dot_atom :: "string \<Rightarrow> bool" where
  "dot_atom s \<longleftrightarrow> list_all (\<lambda>p. p \<noteq> [] \<and> list_all atext p) (Split s (CHR ''.''))"

definition parse_bare :: "string \<Rightarrow> string option" where
  "parse_bare s = (case Cut s (CHR ''@'') of
      Some (a, b) \<Rightarrow> if dot_atom a \<and> dot_atom b then Some s else None
    | None \<Rightarrow> None)"

subsection \<open>Spellings of an address\<close>

lemma NewEmail_cong:
  "ToLower uni (TrimSpace x) = ToLower uni (TrimSpace y) \<Longrightarrow> NewEmail uni parse x = NewEmail uni parse y"
  by (simp add: NewEmail_def)

text \<open>What is left of any spelling of a normal address is the address.\<close>

lemma normal_spelling:
  assumes "TrimSpace v = v" "list_all ascii v" "map lower_char s = v" "list_all white pre" "list_all white post"
  shows "ToLower uni (TrimSpace (pre @ s @ post)) = v"
proof -
  have "map lower_char (TrimSpace s) = map lower_char s"
    using assms(1,3) by (simp add: TrimSpace_lower [symmetric])
  then have len: "length (TrimSpace s) = length s" by (rule map_eq_imp_length_eq)
  obtain ps ss where sub: "s = ps @ TrimSpace s @ ss" using TrimSpace_sublist [of s] by (auto simp: sublist_def)
  from arg_cong [OF sub, of length] len have "ps = []" "ss = []" by simp_all
  with sub have "TrimSpace s = s" by (metis append_Nil append_Nil2)
  then have "trimmed s" using trimmed_TrimSpace [of s] by simp
  from TrimSpace_padded [OF this assms(4,5)] have "TrimSpace (pre @ s @ post) = s" .
  moreover have "list_all ascii s" using assms(2,3) by (auto simp: list_all_iff)
  ultimately show ?thesis using assms(3) by (simp add: ToLower_ascii)
qed

text \<open>
  C22: One spelling per address.  The value of an accepted ASCII address is a fixed point of the
  validation, and every other spelling of it, in any case of the letters and with any ASCII white space
  around it, is accepted as the same value; so the unique column compares accounts, not spellings.
\<close>

theorem address_has_one_spelling:
  assumes "NewEmail uni parse raw = Inr e" "list_all ascii raw"
  shows "NewEmail uni parse (Email_String e) = Inr e \<and>
    (\<forall>pre s post. list_all white pre \<and> list_all white post \<and> map lower_char s = Email_String e \<longrightarrow>
       NewEmail uni parse (pre @ s @ post) = Inr e)"
proof -
  let ?v = "email_value e"
  have ascii: "list_all ascii (TrimSpace raw)" by (rule list_all_ascii_TrimSpace [OF assms(2)])
  have v: "?v = map lower_char (TrimSpace raw)"
    using NewEmail_InrD(1) [OF assms(1)] ToLower_ascii [OF ascii] by simp
  then have normal: "TrimSpace ?v = ?v" "list_all ascii ?v" "map lower_char ?v = ?v"
    using ascii by (simp_all add: TrimSpace_lower list_all_iff comp_def)
  have same: "NewEmail uni parse (pre @ s @ post) = Inr e"
    if "list_all white pre" "list_all white post" "map lower_char s = ?v" for pre s post
  proof -
    have "ToLower uni (TrimSpace (pre @ s @ post)) = ToLower uni (TrimSpace raw)"
      using normal_spelling [OF normal(1,2) that(3,1,2)] NewEmail_InrD(1) [OF assms(1)] by simp
    from NewEmail_cong [OF this] assms(1) show ?thesis by simp
  qed
  from same [of "[]" "[]" ?v] normal(3) same show ?thesis by (simp add: Email_String_def)
qed

lemma address_has_one_spelling_witness:
  "NewEmail (\<lambda>s. s) parse_bare '' Ada@Example.com'' = Inr \<lparr>email_value = ''ada@example.com''\<rparr> \<and>
   NewEmail (\<lambda>s. s) parse_bare ([CHR 0x09] @ ''ADA@example.COM'' @ '' '') = Inr \<lparr>email_value = ''ada@example.com''\<rparr>"
proof -
  have e: "NewEmail (\<lambda>s. s) parse_bare '' Ada@Example.com'' = Inr \<lparr>email_value = ''ada@example.com''\<rparr>" by code_simp
  have "list_all ascii '' Ada@Example.com''" "list_all white [CHR 0x09]" "list_all white '' ''"
    "map lower_char ''ADA@example.COM'' = Email_String \<lparr>email_value = ''ada@example.com''\<rparr>" by code_simp+
  with address_has_one_spelling [OF e] e show ?thesis by blast
qed

end
