(* ===== verification/GoTime.thy ===== *)
theory GoTime
  imports GoText
begin

text \<open>
  \<open>Time.UTC().Format("2006-01-02T15:04:05.000Z07:00")\<close> of the standard library: RFC 3339 in
  UTC with exactly three fractional digits, truncated.  The calendar is the proleptic Gregorian
  one.
\<close>

definition civil_from_days :: "int \<Rightarrow> int \<times> int \<times> int" where
  "civil_from_days z0 =
     (let z = z0 + 719468;
          era = z div 146097;
          doe = z - era * 146097;
          yoe = (doe - doe div 1460 + doe div 36524 - doe div 146096) div 365;
          doy = doe - (365 * yoe + yoe div 4 - yoe div 100);
          mp = (5 * doy + 2) div 153;
          d = doy - (153 * mp + 2) div 5 + 1;
          m = (if mp < 10 then mp + 3 else mp - 9);
          y = yoe + era * 400 + (if m \<le> 2 then 1 else 0)
      in (y, m, d))"

text \<open>\<open>appendInt\<close>: a sign and at least \<open>w\<close> digits.\<close>

definition pad_int :: "nat \<Rightarrow> int \<Rightarrow> string" where
  "pad_int w i =
     (let ds = dec_digits (nat \<bar>i\<bar>); zs = replicate (w - length ds) (CHR ''0'')
      in (if i < 0 then [CHR ''-''] else []) @ zs @ ds)"

lemma pad_int_code [code]:
  "pad_int w i =
     (let ds = int_digits \<bar>i\<bar>; zs = replicate (w - length ds) (CHR ''0'')
      in (if i < 0 then [CHR ''-''] else []) @ zs @ ds)"
  by (simp add: pad_int_def dec_digits_int)

definition Format_ms :: "time \<Rightarrow> string" where
  "Format_ms t =
     (let secs = t div 10 ^ 9; ms = t mod 10 ^ 9 div 10 ^ 6;
          tod = secs mod 86400;
          (y, m, d) = civil_from_days (secs div 86400)
      in pad_int 4 y @ ''-'' @ pad_int 2 m @ ''-'' @ pad_int 2 d @ ''T'' @
         pad_int 2 (tod div 3600) @ '':'' @ pad_int 2 (tod mod 3600 div 60) @ '':'' @
         pad_int 2 (tod mod 60) @ ''.'' @ pad_int 3 ms @ ''Z'')"

lemma Format_ms_epoch: "Format_ms 0 = ''1970-01-01T00:00:00.000Z''"
  by code_simp

lemma Format_ms_example: "Format_ms 1787788799123456789 = ''2026-08-26T23:59:59.123Z''"
  by code_simp

end
