(* ===== verification/Messaging.thy ===== *)
theory Messaging
  imports GoErrors GoTime
begin

text \<open>
  The wire contract, package \<open>internal/platform/messaging\<close>: the header names, the transport
  \<open>Message\<close>, and the CloudEvents envelope with its JSON encoding.
\<close>

subsection \<open>message.go\<close>

definition HeaderEventID :: string where "HeaderEventID = ''ce_id''"
definition HeaderEventType :: string where "HeaderEventType = ''ce_type''"
definition HeaderSpecVersion :: string where "HeaderSpecVersion = ''ce_specversion''"
definition HeaderSchemaVersion :: string where "HeaderSchemaVersion = ''schema_version''"
definition HeaderContentType :: string where "HeaderContentType = ''content-type''"
definition HeaderCorrelationID :: string where "HeaderCorrelationID = ''correlation_id''"
definition HeaderTraceparent :: string where "HeaderTraceparent = ''traceparent''"

lemmas header_names = HeaderEventID_def HeaderEventType_def HeaderSpecVersion_def
  HeaderSchemaVersion_def HeaderContentType_def HeaderCorrelationID_def HeaderTraceparent_def

record Message =
  msg_EventID :: string
  msg_EventType :: string
  msg_SchemaVersion :: int
  msg_Key :: string
  msg_Payload :: string
  msg_Headers :: gomap
  msg_Topic :: string

subsection \<open>JSON\<close>

text \<open>
  What \<open>json.Marshal\<close> makes of the values the code hands it: strings, integers and structs
  (objects whose keys come in field order).  \<open>JRefused\<close> is a value it refuses, with the text
  of the error.
\<close>

datatype json =
    JStr string
  | JInt int
  | JObj "(string \<times> json) list"
  | JRefused string

text \<open>
  A JSON string literal: quotes, backslashes and control bytes are escaped, so are the three HTML
  bytes, the separators U+2028 and U+2029 and bytes that are not UTF-8; everything else is copied.
\<close>

definition u_escape :: "nat \<Rightarrow> string" where
  "u_escape n = [CHR 0x5C, CHR ''u'', hex_digit (n div 4096 mod 16), hex_digit (n div 256 mod 16),
     hex_digit (n div 16 mod 16), hex_digit (n mod 16)]"

definition json_ascii :: "char \<Rightarrow> string" where
  "json_ascii c =
     (if c = CHR 0x22 \<or> c = CHR 0x5C then [CHR 0x5C, c]
      else if c = CHR 0x08 then [CHR 0x5C, CHR ''b''] else if c = CHR 0x0C then [CHR 0x5C, CHR ''f'']
      else if c = CHR 0x0A then [CHR 0x5C, CHR ''n''] else if c = CHR 0x0D then [CHR 0x5C, CHR ''r'']
      else if c = CHR 0x09 then [CHR 0x5C, CHR ''t'']
      else if byte c < 32 \<or> c \<in> set ''<>&'' then u_escape (byte c)
      else [c])"

lemma byte_control: "byte c < 32 \<longleftrightarrow> \<not> (digit5 c \<or> digit6 c \<or> digit7 c)"
  by (cases c) (simp add: of_char_Char)

lemma json_ascii_code [code]:
  "json_ascii c =
     (if digit5 c \<or> digit6 c \<or> digit7 c then
        (if c = CHR 0x22 \<or> c = CHR 0x5C then [CHR 0x5C, c] else if c \<in> set ''<>&'' then u_escape (byte c) else [c])
      else if c = CHR 0x08 then [CHR 0x5C, CHR ''b''] else if c = CHR 0x0C then [CHR 0x5C, CHR ''f'']
      else if c = CHR 0x0A then [CHR 0x5C, CHR ''n''] else if c = CHR 0x0D then [CHR 0x5C, CHR ''r'']
      else if c = CHR 0x09 then [CHR 0x5C, CHR ''t'']
      else u_escape (byte c))"
  by (auto simp: json_ascii_def byte_control)

function json_chars :: "string \<Rightarrow> string" where
  "json_chars s =
     (case s of
        [] \<Rightarrow> []
      | c # cs \<Rightarrow>
          if ascii c then json_ascii c @ json_chars cs
          else if rune_size s \<le> 1 then u_escape 65533 @ json_chars cs
          else if prefix [CHR 0xE2, CHR 0x80, CHR 0xA8] s then u_escape 8232 @ json_chars (drop 3 s)
          else if prefix [CHR 0xE2, CHR 0x80, CHR 0xA9] s then u_escape 8233 @ json_chars (drop 3 s)
          else take (rune_size s) s @ json_chars (drop (rune_size s) s))"
  by pat_completeness auto
termination
  by (relation "measure length") auto

declare json_chars.simps [simp del]

definition json_string :: "string \<Rightarrow> string" where
  "json_string s = CHR 0x22 # json_chars s @ [CHR 0x22]"

fun commas :: "string list \<Rightarrow> string" where
  "commas [] = []"
| "commas [x] = x"
| "commas (x # y # ys) = x @ CHR '','' # commas (y # ys)"

fun json_text :: "json \<Rightarrow> string" where
  "json_text (JStr s) = json_string s"
| "json_text (JInt i) = Itoa i"
| "json_text (JObj kvs) =
     CHR ''{'' # commas (map (\<lambda>(k, v). json_string k @ CHR '':'' # json_text v) kvs) @ ''}''"
| "json_text (JRefused e) = ''null''"

fun json_error :: "json \<Rightarrow> string option" where
  "json_error (JRefused e) = Some e"
| "json_error (JObj kvs) = first_some (\<lambda>(k, v). json_error v) kvs"
| "json_error _ = None"

definition json_Marshal :: "json \<Rightarrow> gerr + string" where
  "json_Marshal j = (case json_error j of Some e \<Rightarrow> Inl (Ext e) | None \<Rightarrow> Inr (json_text j))"

subsection \<open>cloudevents.go\<close>

definition SpecVersion :: string where "SpecVersion = ''1.0''"
definition DataContentType :: string where "DataContentType = ''application/json''"

record Attributes =
  at_ID :: string
  at_Type :: string
  at_Source :: string
  at_Subject :: string
  at_Time :: time
  at_SchemaName :: string
  at_SchemaBase :: string
  at_Version :: int
  at_Traceparent :: string

record cloudEvent =
  ce_SpecVersion :: string
  ce_ID :: string
  ce_Type :: string
  ce_Source :: string
  ce_Subject :: string
  ce_Time :: string
  ce_DataSchema :: string
  ce_DataContentType :: string
  ce_Traceparent :: string
  ce_Data :: json

text \<open>The struct tags: the key of each field, in field order, \<open>omitempty\<close> on the last but one.\<close>

definition cloudEvent_json :: "cloudEvent \<Rightarrow> json" where
  "cloudEvent_json e = JObj
     ([(''specversion'', JStr (ce_SpecVersion e)), (''id'', JStr (ce_ID e)),
       (''type'', JStr (ce_Type e)), (''source'', JStr (ce_Source e)),
       (''subject'', JStr (ce_Subject e)), (''time'', JStr (ce_Time e)),
       (''dataschema'', JStr (ce_DataSchema e)),
       (''datacontenttype'', JStr (ce_DataContentType e))] @
      (if ce_Traceparent e = [] then [] else [(''traceparent'', JStr (ce_Traceparent e))]) @
      [(''data'', ce_Data e)])"

definition cloudEvent_of :: "Attributes \<Rightarrow> json \<Rightarrow> cloudEvent" where
  "cloudEvent_of attrs dat =
     \<lparr>ce_SpecVersion = SpecVersion, ce_ID = at_ID attrs, ce_Type = at_Type attrs,
      ce_Source = at_Source attrs, ce_Subject = at_Subject attrs,
      ce_Time = Format_ms (at_Time attrs),
      ce_DataSchema = at_SchemaBase attrs @ ''/'' @ at_SchemaName attrs @ ''/'' @
        Itoa (at_Version attrs) @ ''.json'',
      ce_DataContentType = DataContentType, ce_Traceparent = at_Traceparent attrs,
      ce_Data = dat\<rparr>"

definition EncodeCloudEvent :: "Attributes \<Rightarrow> json \<Rightarrow> gerr + string" where
  "EncodeCloudEvent attrs dat =
     (case json_Marshal (cloudEvent_json (cloudEvent_of attrs dat)) of
        Inl err \<Rightarrow> Inl (wrapf (''messaging: marshal '' @ at_Type attrs) err)
      | Inr payload \<Rightarrow> Inr payload)"

lemma json_error_cloudEvent: "json_error (cloudEvent_json e) = json_error (ce_Data e)"
  by (simp add: cloudEvent_json_def split: option.split)

lemma EncodeCloudEvent_Inr_iff:
  "EncodeCloudEvent attrs dat = Inr p \<longleftrightarrow>
     json_error dat = None \<and> p = json_text (cloudEvent_json (cloudEvent_of attrs dat))"
  by (auto simp: EncodeCloudEvent_def json_Marshal_def json_error_cloudEvent cloudEvent_of_def
      split: option.split)

end
