(* ===== verification/Envelope.thy ===== *)
theory Envelope
  imports Domain Messaging
begin

text \<open>
  The envelope factory, \<open>internal/accounts/application/envelope.go\<close>, with the ports of
  \<open>machine.go\<close> and the metadata of \<open>unit_of_work.go\<close>: domain events become the content of
  outbox rows.
\<close>

subsection \<open>Ports and data\<close>

text \<open>An interface with one method is the method's type.\<close>

type_synonym 'w Clock = "('w, time) act"
type_synonym 'w IDGen = "('w, gerr + uuid) act"

record Metadata =
  CorrelationID :: string
  Traceparent :: string

definition source :: string where "source = ''/services/accounts''"
definition schemaBase :: string where "schemaBase = ''https://schemas.outboxexpress.dev''"

definition ErrUnmappedEvent :: gerr where
  "ErrUnmappedEvent = New ''application: no message mapping for event type''"

record Envelope =
  env_EventID :: uuid
  env_AggregateType :: string
  env_AggregateID :: string
  env_EventType :: string
  env_SchemaVersion :: int
  env_Payload :: string
  env_Headers :: gomap
  env_OccurredAt :: time

record userRegisteredData =
  d_UserID :: string
  d_Email :: string
  d_DisplayName :: string
  d_Version :: int
  d_RegisteredAt :: string

definition userRegisteredData_json :: "userRegisteredData \<Rightarrow> json" where
  "userRegisteredData_json d = JObj
     [(''user_id'', JStr (d_UserID d)), (''email'', JStr (d_Email d)),
      (''display_name'', JStr (d_DisplayName d)), (''version'', JInt (d_Version d)),
      (''registered_at'', JStr (d_RegisteredAt d))]"

record messageSchema =
  schema_name :: string
  schema_version :: int

subsection \<open>The mapping\<close>

fun mapData :: "Event \<Rightarrow> gerr + json \<times> messageSchema" where
  "mapData (UserRegisteredEvent e) =
     Inr (userRegisteredData_json
            \<lparr>d_UserID = uuid_text (ur_UserID e), d_Email = Email_String (ur_Email e),
             d_DisplayName = DisplayName_String (ur_DisplayName e), d_Version = ur_Version e,
             d_RegisteredAt = Format_ms (ur_RegisteredAt e)\<rparr>,
          \<lparr>schema_name = ''accounts/user.registered'', schema_version = 1\<rparr>)"
| "mapData (OtherEvent et aty aid at gt) =
     Inl (Errorf (error_text ErrUnmappedEvent @ '': '' @ et @ '' ('' @ gt @ '')'') [ErrUnmappedEvent])"

definition headers :: "Metadata \<Rightarrow> gomap" where
  "headers meta =
     (let h = [];
          h = (if CorrelationID meta \<noteq> [] then AList.update HeaderCorrelationID (CorrelationID meta) h
               else h)
      in if Traceparent meta \<noteq> [] then AList.update HeaderTraceparent (Traceparent meta) h else h)"

definition attributes_of :: "Metadata \<Rightarrow> Event \<Rightarrow> uuid \<Rightarrow> messageSchema \<Rightarrow> Attributes" where
  "attributes_of meta event eventID schema =
     \<lparr>at_ID = uuid_text eventID, at_Type = EventType event, at_Source = source,
      at_Subject = AggregateID event, at_Time = OccurredAt event,
      at_SchemaName = schema_name schema, at_SchemaBase = schemaBase,
      at_Version = schema_version schema, at_Traceparent = Traceparent meta\<rparr>"

fun From_loop ::
    "'w IDGen \<Rightarrow> gomap \<Rightarrow> Metadata \<Rightarrow> Event list \<Rightarrow> ('w, gerr + Envelope list) act" where
  "From_loop ids h meta [] w = (Inr [], w)"
| "From_loop ids h meta (event # es) w =
     (case mapData event of
        Inl err \<Rightarrow> (Inl err, w)
      | Inr (dat, schema) \<Rightarrow>
          (case ids w of
             (Inl err, w') \<Rightarrow> (Inl (wrapf ''application: event id'' err), w')
           | (Inr eventID, w') \<Rightarrow>
               (case EncodeCloudEvent (attributes_of meta event eventID schema) dat of
                  Inl err \<Rightarrow> (Inl err, w')
                | Inr payload \<Rightarrow>
                    (case From_loop ids h meta es w' of
                       (Inl err, w'') \<Rightarrow> (Inl err, w'')
                     | (Inr envelopes, w'') \<Rightarrow>
                         (Inr (\<lparr>env_EventID = eventID, env_AggregateType = AggregateType event,
                                env_AggregateID = AggregateID event, env_EventType = EventType event,
                                env_SchemaVersion = schema_version schema, env_Payload = payload,
                                env_Headers = h, env_OccurredAt = OccurredAt event\<rparr> # envelopes),
                          w'')))))"

definition CloudEventFactory_From ::
    "'w IDGen \<Rightarrow> Event list \<Rightarrow> Metadata \<Rightarrow> ('w, gerr + Envelope list) act" where
  "CloudEventFactory_From ids es meta w =
     (if es = [] then (Inr [], w) else From_loop ids (headers meta) meta es w)"

subsection \<open>What an envelope says\<close>

text \<open>
  \<open>envelope_of meta e env\<close>: the envelope carries the event's routing fields and time, the
  command's headers, and a payload that is the CloudEvents encoding of the event under the
  envelope's own id.
\<close>

definition envelope_of :: "Metadata \<Rightarrow> Event \<Rightarrow> Envelope \<Rightarrow> bool" where
  "envelope_of meta e env \<longleftrightarrow>
     env_AggregateType env = AggregateType e \<and> env_AggregateID env = AggregateID e \<and>
     env_EventType env = EventType e \<and> env_OccurredAt env = OccurredAt e \<and>
     env_Headers env = headers meta \<and>
     (\<exists>dat schema. mapData e = Inr (dat, schema) \<and> env_SchemaVersion env = schema_version schema \<and>
        EncodeCloudEvent (attributes_of meta e (env_EventID env) schema) dat
          = Inr (env_Payload env))"

lemma mapData_encodes:
  "mapData e = Inr (dat, schema) \<Longrightarrow> \<exists>p. EncodeCloudEvent attrs dat = Inr p"
  by (cases e) (auto simp: EncodeCloudEvent_Inr_iff userRegisteredData_json_def)

text \<open>A successful pass over a non-empty list of events, taken apart.\<close>

lemma From_loop_ConsE:
  assumes "From_loop ids h meta (e # es) w = (Inr envs, w')"
  obtains dat schema i w1 payload rest where
    "mapData e = Inr (dat, schema)" "ids w = (Inr i, w1)"
    "EncodeCloudEvent (attributes_of meta e i schema) dat = Inr payload"
    "From_loop ids h meta es w1 = (Inr rest, w')"
    "envs = \<lparr>env_EventID = i, env_AggregateType = AggregateType e, env_AggregateID = AggregateID e,
       env_EventType = EventType e, env_SchemaVersion = schema_version schema,
       env_Payload = payload, env_Headers = h, env_OccurredAt = OccurredAt e\<rparr> # rest"
  using assms by (auto split: sum.splits prod.splits)

lemma From_loop_Inr:
  "From_loop ids (headers meta) meta es w = (Inr envs, w') \<Longrightarrow> list_all2 (envelope_of meta) es envs"
proof (induction es arbitrary: w envs)
  case (Cons e es)
  from Cons.prems show ?case
    by (rule From_loop_ConsE) (auto simp: envelope_of_def [of meta e] dest: Cons.IH)
qed simp

lemma CloudEventFactory_From_Inr:
  "CloudEventFactory_From ids es meta w = (Inr envs, w') \<Longrightarrow> list_all2 (envelope_of meta) es envs"
  by (auto simp: CloudEventFactory_From_def From_loop_Inr split: if_splits)

text \<open>Each id is minted once per event, in event order.\<close>

fun mint_many :: "'w IDGen \<Rightarrow> nat \<Rightarrow> 'w \<Rightarrow> (uuid list \<times> 'w) option" where
  "mint_many ids 0 w = Some ([], w)"
| "mint_many ids (Suc n) w =
     (case ids w of
        (Inl err, w') \<Rightarrow> None
      | (Inr i, w') \<Rightarrow> map_option (apfst (Cons i)) (mint_many ids n w'))"

lemma From_loop_mints:
  "From_loop ids h meta es w = (Inr envs, w') \<Longrightarrow>
     mint_many ids (length es) w = Some (map env_EventID envs, w')"
proof (induction es arbitrary: w envs)
  case (Cons e es)
  from Cons.prems show ?case
    by (rule From_loop_ConsE) (auto dest: Cons.IH)
qed simp

lemma map_of_headers:
  "map_of (headers meta) k =
     (if k = HeaderTraceparent \<and> Traceparent meta \<noteq> [] then Some (Traceparent meta)
      else if k = HeaderCorrelationID \<and> CorrelationID meta \<noteq> [] then Some (CorrelationID meta)
      else None)"
  by (simp add: headers_def Let_def header_names)

lemma distinct_headers: "distinct (map fst (headers meta))"
  by (simp add: headers_def Let_def distinct_update)

end
