(* ===== verification/Outbox.thy ===== *)
theory Outbox
  imports Envelope
begin

text \<open>
  The relay's ports and value objects: \<open>outbox.go\<close>, \<open>publishing.go\<close> and
  \<open>topics.go\<close> of \<open>internal/accounts/application\<close>.  A port with several methods is a record
  of functions on the world; the contract its documentation states is the locale
  \<open>relay_ports\<close> below, interpreted on the PostgreSQL and Kafka adapters.
\<close>

subsection \<open>outbox.go\<close>

text \<open>A struct that embeds \<open>Envelope\<close> is a record extension.\<close>

record PendingMessage = Envelope +
  pm_ID :: int
  pm_Attempts :: int

record OutboxStats =
  Backlog :: int
  OldestPendingAge :: duration
  FailedRows :: int
  StuckRows :: int

definition zero_stats :: OutboxStats where
  "zero_stats = \<lparr>Backlog = 0, OldestPendingAge = 0, FailedRows = 0, StuckRows = 0\<rparr>"

record 'w OutboxRepository =
  ClaimPending :: "int \<Rightarrow> ('w, gerr + PendingMessage list) act"
  MarkPublished :: "int \<Rightarrow> ('w, gerr option) act"
  Reschedule :: "int \<Rightarrow> time \<Rightarrow> string \<Rightarrow> ('w, gerr option) act"
  MarkFailed :: "int \<Rightarrow> string \<Rightarrow> ('w, gerr option) act"

text \<open>
  \<open>Do(ctx, fn)\<close>: the closure \<open>fn\<close> gets the repository of the transaction and returns an
  error or nil; the variables it captures by reference are threaded through as \<open>'r\<close>.
\<close>

type_synonym ('w, 'r) PublishUnitOfWork =
  "('w OutboxRepository \<Rightarrow> 'r \<Rightarrow> ('w, gerr option \<times> 'r) act) \<Rightarrow> 'r \<Rightarrow>
     ('w, gerr option \<times> 'r) act"

type_synonym 'w OutboxStatsReader = "int \<Rightarrow> ('w, gerr + OutboxStats) act"

subsection \<open>publishing.go\<close>

type_synonym 'w EventPublisher = "Message \<Rightarrow> ('w, gerr option) act"
type_synonym 'w Schedule = "int \<Rightarrow> ('w, duration) act"

definition ErrTransient :: gerr where
  "ErrTransient = New ''application: transient publish failure''"

definition ErrPermanent :: gerr where
  "ErrPermanent = New ''application: permanent publish failure''"

subsection \<open>topics.go\<close>

type_synonym Topics = "string \<rightharpoonup> string"

definition ErrUnmappedAggregateType :: gerr where
  "ErrUnmappedAggregateType = New ''application: no topic for aggregate type''"

lemmas relay_errors = ErrTransient_def ErrPermanent_def ErrUnmappedAggregateType_def

definition Topics_For :: "Topics \<Rightarrow> string \<Rightarrow> gerr + string" where
  "Topics_For t aggregateType =
     (let topic = (case t aggregateType of None \<Rightarrow> [] | Some s \<Rightarrow> s)
      in if topic \<noteq> [] then Inr topic
         else Inl (Errorf (error_text ErrPermanent @ '': '' @ error_text ErrUnmappedAggregateType @
                           '': '' @ fmt_q aggregateType)
                     [ErrPermanent, ErrUnmappedAggregateType]))"

lemma Topics_For_Inl:
  "Topics_For t a = Inl e \<Longrightarrow>
     errors_Is e ErrPermanent \<and> errors_Is e ErrUnmappedAggregateType \<and> \<not> errors_Is e ErrTransient"
  by (auto simp: Topics_For_def Let_def relay_errors split: if_splits)

lemma Topics_For_Inr_iff: "Topics_For t a = Inr topic \<longleftrightarrow> t a = Some topic \<and> topic \<noteq> []"
  by (auto simp: Topics_For_def Let_def split: option.splits)

subsection \<open>The contract of the ports\<close>

text \<open>
  A row's bookkeeping, the columns the relay owns.  The contract reads the world through two
  observers: \<open>book\<close>, the bookkeeping of every row as the pass's transaction sees it, and
  \<open>sent\<close>, what the broker durably has, in the order it accepted it; \<open>wire\<close> is the form a
  message has there.  \<open>stamp\<close> is the column type's rounding of an instant.
\<close>

datatype row_status = StatusPending | StatusPublished | StatusFailed

record booking =
  bk_status :: row_status
  bk_attempts :: int
  bk_available :: time
  bk_error :: "string option"

datatype row_outcome = Sent | Parked string | Retried time string

fun outcome_booking :: "(time \<Rightarrow> time) \<Rightarrow> row_outcome \<Rightarrow> booking \<Rightarrow> booking" where
  "outcome_booking stamp Sent b = b\<lparr>bk_status := StatusPublished, bk_error := None\<rparr>"
| "outcome_booking stamp (Parked r) b = b\<lparr>bk_status := StatusFailed, bk_error := Some r\<rparr>"
| "outcome_booking stamp (Retried t r) b =
     b\<lparr>bk_attempts := bk_attempts b + 1, bk_available := stamp t, bk_error := Some r\<rparr>"

fun settle ::
    "(time \<Rightarrow> time) \<Rightarrow> (int \<times> row_outcome) list \<Rightarrow> (int \<Rightarrow> booking option) \<Rightarrow> (int \<Rightarrow> booking option)"
    where
  "settle stamp [] bk = bk"
| "settle stamp ((i, out) # outs) bk =
     settle stamp outs (bk(i := map_option (outcome_booking stamp out) (bk i)))"

text \<open>
  The contract.  A mark that succeeds changes exactly its row, and the row exists; a produce that
  returns nil has appended the message; one that returns an error may still have appended it (the
  ack can get lost), and its error wraps exactly one of the two classes.
\<close>

locale relay_ports =
  fixes outbox :: "'w OutboxRepository"
    and pub :: "'w EventPublisher"
    and clock :: "'w Clock"
    and sched :: "'w Schedule"
    and book :: "'w \<Rightarrow> int \<Rightarrow> booking option"
    and sent :: "'w \<Rightarrow> 'r list"
    and wire :: "Message \<Rightarrow> 'r"
    and stamp :: "time \<Rightarrow> time"
  assumes clock_frame: "clock w = (t, w') \<Longrightarrow> book w' = book w \<and> sent w' = sent w"
    and sched_frame: "sched n w = (d, w') \<Longrightarrow> book w' = book w \<and> sent w' = sent w"
    and publish_frame: "pub m w = (x, w') \<Longrightarrow> book w' = book w"
    and publish_ok: "pub m w = (None, w') \<Longrightarrow> sent w' = sent w @ [wire m]"
    and publish_err: "pub m w = (Some e, w') \<Longrightarrow> sent w' = sent w \<or> sent w' = sent w @ [wire m]"
    and publish_class: "pub m w = (Some e, w') \<Longrightarrow> errors_Is e ErrTransient \<noteq> errors_Is e ErrPermanent"
    and mark_published: "MarkPublished outbox i w = (None, w') \<Longrightarrow>
          book w i \<noteq> None \<and> book w' = settle stamp [(i, Sent)] (book w)"
    and mark_failed: "MarkFailed outbox i r w = (None, w') \<Longrightarrow>
          book w i \<noteq> None \<and> book w' = settle stamp [(i, Parked r)] (book w)"
    and reschedule: "Reschedule outbox i t r w = (None, w') \<Longrightarrow>
          book w i \<noteq> None \<and> book w' = settle stamp [(i, Retried t r)] (book w)"
    and mark_published_sent: "MarkPublished outbox i w = (x, w') \<Longrightarrow> sent w' = sent w"
    and mark_failed_sent: "MarkFailed outbox i r w = (x, w') \<Longrightarrow> sent w' = sent w"
    and reschedule_sent: "Reschedule outbox i t r w = (x, w') \<Longrightarrow> sent w' = sent w"

subsection \<open>Facts about \<open>settle\<close>\<close>

lemma settle_append:
  "settle stamp (xs @ ys) bk = settle stamp ys (settle stamp xs bk)"
  by (induction xs arbitrary: bk) auto

lemma settle_other: "i \<notin> fst ` set outs \<Longrightarrow> settle stamp outs bk i = bk i"
  by (induction outs arbitrary: bk) auto

lemma settle_hit:
  "distinct (map fst outs) \<Longrightarrow> (i, out) \<in> set outs \<Longrightarrow>
     settle stamp outs bk i = map_option (outcome_booking stamp out) (bk i)"
proof (induction outs arbitrary: bk)
  case (Cons x outs)
  obtain j p where x: "x = (j, p)" by (cases x)
  show ?case
  proof (cases "(i, out) = x")
    case True
    with Cons.prems x have "i \<notin> fst ` set outs" by auto
    with True x show ?thesis by (simp add: settle_other)
  next
    case False
    with Cons.prems have "(i, out) \<in> set outs" by simp
    moreover from this Cons.prems x have "i \<noteq> j" by force
    ultimately show ?thesis using Cons.prems x by (simp add: Cons.IH)
  qed
qed simp

lemma settle_dom: "settle stamp outs bk i = None \<longleftrightarrow> bk i = None"
proof (induction outs arbitrary: bk)
  case (Cons x outs)
  show ?case by (cases x) (simp add: Cons.IH)
qed simp

end
