(* ===== verification/Logging.thy ===== *)
theory Logging
  imports GoErrors Complex_Main
begin

text \<open>
  Log lines as \<open>log/slog\<close> gets them: a level, a message and a list of attributes.  The handler
  (\<open>internal/platform/logging\<close>) only formats them.
\<close>

datatype level = LevelDebug | LevelInfo | LevelWarn | LevelError

datatype attr = AInt int | AStr string | AFloat rat | ADur duration | ABool bool | AErr gerr | AStrs "string list"

record log_line =
  ll_level :: level
  ll_msg :: string
  ll_attrs :: "(string \<times> attr) list"

definition line :: "level \<Rightarrow> string \<Rightarrow> (string \<times> attr) list \<Rightarrow> log_line" where
  "line l m as = \<lparr>ll_level = l, ll_msg = m, ll_attrs = as\<rparr>"

definition Milliseconds :: "duration \<Rightarrow> int" where
  "Milliseconds d = quot d 1000000"

end
