(* ===== verification/Database.thy ===== *)
theory Database
  imports Outbox Logging
begin

text \<open>
  The world the adapters work on, and PostgreSQL as far as the code relies on it: the two tables
  of \<open>migrations/accounts\<close>, one open transaction per process, statement failures that abort the
  transaction, commit and rollback, and \<open>WithTx\<close> of \<open>internal/platform/postgres/pool.go\<close>.

  What the outside decides is the environment \<open>env\<close>, a script indexed by the number of
  interactions so far: the server's reply to each statement, the broker's reply to each produce,
  minted ids, clock readings and random draws.  A theorem about a world holds for every script.
\<close>

subsection \<open>Rows\<close>

text \<open>The table \<open>accounts.users\<close>.\<close>

record user_row =
  usr_id :: uuid
  usr_email :: string
  usr_display_name :: string
  usr_version :: int
  usr_created_at :: time

text \<open>The table \<open>accounts.outbox\<close>: the relay's bookkeeping columns first.\<close>

record outbox_row = booking +
  row_id :: int
  row_event_id :: uuid
  row_aggregate_type :: string
  row_aggregate_id :: string
  row_event_type :: string
  row_schema_version :: int
  row_payload :: string
  row_headers :: gomap
  row_occurred_at :: time
  row_published_at :: "time option"

subsection \<open>The environment\<close>

text \<open>
  A server reply: \<open>PgLost\<close> is a statement (a commit, above all) that took effect although the
  client saw an error.  A produce reply: with \<open>AckLost\<close> the broker has the record although the
  client saw an error.  The errors of the Kafka client are the broker's (a code, its
  \<open>Retriable\<close> flag), the client's own, and wrappings of these.
\<close>

datatype pg_reply = PgOk | PgFail gerr | PgLost gerr

datatype client_error =
    BrokerError int bool string
  | ClientError string
  | Wrapping string client_error

fun client_gerr :: "client_error \<Rightarrow> gerr" where
  "client_gerr (BrokerError c r t) = KafkaError c r t"
| "client_gerr (ClientError t) = Ext t"
| "client_gerr (Wrapping p e) = wrapf p (client_gerr e)"

datatype produce_reply = Acked | Refused client_error | AckLost client_error

text \<open>
  \<open>env_jsonb\<close> is the text PostgreSQL gives back for a stored \<open>JSONB\<close> value,
  \<open>env_interval\<close> its \<open>make_interval(secs => x)\<close>, \<open>env_scan\<close> the driver's verdict
  on scanning a row into its Go struct, and \<open>env_ctx\<close> what \<open>ctx.Err()\<close> answers.
\<close>

record env =
  env_pg :: "nat \<Rightarrow> pg_reply"
  env_produce :: "nat \<Rightarrow> produce_reply"
  env_mint :: "nat \<Rightarrow> gerr + uuid"
  env_clock :: "nat \<Rightarrow> time"
  env_pg_clock :: "nat \<Rightarrow> time"
  env_random :: "nat \<Rightarrow> rat"
  env_scan :: "nat \<Rightarrow> int \<Rightarrow> gerr option"
  env_ctx :: "nat \<Rightarrow> gerr option"
  env_jsonb :: "string \<Rightarrow> string"
  env_interval :: "rat \<Rightarrow> duration"

subsection \<open>The world\<close>

text \<open>
  An open transaction: its start (which is what \<open>now()\<close> means in SQL), the rows it inserted,
  what it did to each outbox row, the row locks it holds, and whether a statement failed in it.
\<close>

record txn =
  tx_now :: time
  tx_users :: "user_row list"
  tx_rows :: "outbox_row list"
  tx_patch :: "int \<Rightarrow> outbox_row \<Rightarrow> outbox_row"
  tx_locks :: "int list"
  tx_aborted :: bool

record kafka_record =
  rec_Topic :: string
  rec_Key :: string
  rec_Value :: string
  rec_Headers :: gomap

text \<open>
  \<open>w_heap\<close>, \<open>w_heap_top\<close> and \<open>w_tracked\<close> are the process's Go heap of users and the
  tracker of the current unit of work; \<open>w_locked\<close> the outbox rows other sessions hold locks on;
  \<open>w_log\<close> is what the process has logged.
\<close>

record world =
  w_env :: env
  w_tick :: nat
  w_users :: "user_row list"
  w_outbox :: "outbox_row list"
  w_seq :: int
  w_locked :: "int list"
  w_tx :: "txn option"
  w_broker :: "kafka_record list"
  w_heap :: "nat \<Rightarrow> User"
  w_heap_top :: nat
  w_tracked :: "nat list"
  w_notified :: nat
  w_log :: "log_line list"

definition log_write :: "log_line \<Rightarrow> world \<Rightarrow> world" where
  "log_write l w = w\<lparr>w_log := w_log w @ [l]\<rparr>"

definition tick :: "world \<Rightarrow> world" where
  "tick w = w\<lparr>w_tick := Suc (w_tick w)\<rparr>"

text \<open>The ports on the machine: \<open>clock.System\<close>, \<open>ids.UUIDv7\<close> and \<open>rand.Float64\<close>.\<close>

definition System_Now :: "world Clock" where
  "System_Now w = (env_clock (w_env w) (w_tick w), tick w)"

definition UUIDv7_New :: "world IDGen" where
  "UUIDv7_New w = (env_mint (w_env w) (w_tick w), tick w)"

definition ctx_Err :: "(world, gerr option) act" where
  "ctx_Err w = (env_ctx (w_env w) (w_tick w), tick w)"

definition rand_Float64 :: "(world, rat) act" where
  "rand_Float64 w = (env_random (w_env w) (w_tick w), tick w)"

subsection \<open>Transactions\<close>

definition base_rows :: "world \<Rightarrow> txn \<Rightarrow> outbox_row list" where
  "base_rows w t = w_outbox w @ tx_rows t"

definition patched :: "txn \<Rightarrow> outbox_row \<Rightarrow> outbox_row" where
  "patched t r = tx_patch t (row_id r) r"

text \<open>The outbox as the transaction sees it.\<close>

definition tx_view :: "world \<Rightarrow> txn \<Rightarrow> outbox_row list" where
  "tx_view w t = map (patched t) (base_rows w t)"

definition fresh_txn :: "time \<Rightarrow> txn" where
  "fresh_txn now = \<lparr>tx_now = now, tx_users = [], tx_rows = [], tx_patch = (\<lambda>i r. r),
     tx_locks = [], tx_aborted = False\<rparr>"

definition ErrTxClosed :: gerr where
  "ErrTxClosed = Ext ''tx is closed''"

definition ErrTxCommitRollback :: gerr where
  "ErrTxCommitRollback = Ext ''commit unexpectedly resulted in rollback''"

definition in_failed_transaction :: gerr where
  "in_failed_transaction = PgError ''25P02'' [] ''current transaction is aborted''"

definition pg_begin :: "(world, gerr option) act" where
  "pg_begin w =
     (case env_pg (w_env w) (w_tick w) of
        PgOk \<Rightarrow> (None, (tick w)\<lparr>w_tx := Some (fresh_txn (env_pg_clock (w_env w) (w_tick w)))\<rparr>)
      | PgFail e \<Rightarrow> (Some e, tick w)
      | PgLost e \<Rightarrow> (Some e, tick w))"

definition pg_rollback :: "world \<Rightarrow> world" where
  "pg_rollback w = w\<lparr>w_tx := None\<rparr>"

definition apply_txn :: "txn \<Rightarrow> world \<Rightarrow> world" where
  "apply_txn t w = w\<lparr>w_users := w_users w @ tx_users t, w_outbox := tx_view w t, w_tx := None\<rparr>"

definition pg_commit :: "(world, gerr option) act" where
  "pg_commit w =
     (case w_tx w of
        None \<Rightarrow> (Some ErrTxClosed, w)
      | Some t \<Rightarrow>
          if tx_aborted t then (Some ErrTxCommitRollback, pg_rollback (tick w))
          else (case env_pg (w_env w) (w_tick w) of
              PgOk \<Rightarrow> (None, apply_txn t (tick w))
            | PgFail e \<Rightarrow> (Some e, pg_rollback (tick w))
            | PgLost e \<Rightarrow> (Some e, apply_txn t (tick w))))"

text \<open>
  A statement on the open transaction.  Its body gets the world and the transaction and returns an
  error or a result with the transaction's next state, and the next value of the id sequence,
  which no rollback takes back.  Every failure aborts the transaction.
\<close>

type_synonym 'a stmt = "world \<Rightarrow> txn \<Rightarrow> (gerr + 'a \<times> txn) \<times> int"

definition abort :: "txn \<Rightarrow> world \<Rightarrow> world" where
  "abort t w = w\<lparr>w_tx := Some (t\<lparr>tx_aborted := True\<rparr>)\<rparr>"

definition in_tx :: "'a stmt \<Rightarrow> (world, gerr + 'a) act" where
  "in_tx body w =
     (case w_tx w of
        None \<Rightarrow> (Inl ErrTxClosed, w)
      | Some t \<Rightarrow>
          if tx_aborted t then (Inl in_failed_transaction, tick w)
          else (case env_pg (w_env w) (w_tick w) of
              PgFail e \<Rightarrow> (Inl e, abort t (tick w))
            | PgLost e \<Rightarrow> (Inl e, abort t (tick w))
            | PgOk \<Rightarrow>
                (case body w t of
                   (Inl e, s) \<Rightarrow> (Inl e, abort t ((tick w)\<lparr>w_seq := s\<rparr>))
                 | (Inr (a, t'), s) \<Rightarrow> (Inr a, (tick w)\<lparr>w_seq := s, w_tx := Some t'\<rparr>))))"

text \<open>
  A statement on the pool is a transaction of its own, on another connection: its body works on
  the committed tables and returns a result with the next outbox.
\<close>

definition on_pool ::
    "(time \<Rightarrow> world \<Rightarrow> gerr + 'a \<times> outbox_row list) \<Rightarrow> (world, gerr + 'a) act" where
  "on_pool body w =
     (case env_pg (w_env w) (w_tick w) of
        PgFail e \<Rightarrow> (Inl e, tick w)
      | reply \<Rightarrow>
          (case body (env_pg_clock (w_env w) (w_tick w)) w of
             Inl e \<Rightarrow> (Inl e, tick w)
           | Inr (a, rows) \<Rightarrow>
               ((case reply of PgLost e \<Rightarrow> Inl e | _ \<Rightarrow> Inr a), (tick w)\<lparr>w_outbox := rows\<rparr>)))"

text \<open>\<open>WithTx\<close>: begin, run \<open>fn\<close>, commit; the deferred rollback runs on every way out.\<close>

definition WithTx ::
    "('r \<Rightarrow> (world, gerr option \<times> 'r) act) \<Rightarrow> 'r \<Rightarrow> (world, gerr option \<times> 'r) act" where
  "WithTx fn r w =
     (case pg_begin w of
        (Some err, w) \<Rightarrow> ((Some (wrapf ''postgres: begin'' err), r), w)
      | (None, w) \<Rightarrow>
          (case fn r w of
             ((Some err, r), w) \<Rightarrow> ((Some err, r), pg_rollback w)
           | ((None, r), w) \<Rightarrow>
               (case pg_commit w of
                  (Some err, w) \<Rightarrow> ((Some (wrapf ''postgres: commit'' err), r), pg_rollback w)
                | (None, w) \<Rightarrow> ((None, r), pg_rollback w))))"

subsection \<open>Frames\<close>

text \<open>
  \<open>same_db w w'\<close>: the committed tables are untouched (and the script is the same).  Whatever runs inside a transaction keeps
  them; only the commit changes them.
\<close>

definition same_db :: "world \<Rightarrow> world \<Rightarrow> bool" where
  "same_db w w' \<longleftrightarrow> w_users w' = w_users w \<and> w_outbox w' = w_outbox w \<and> w_env w' = w_env w"

lemma same_db_refl [simp]: "same_db w w"
  by (simp add: same_db_def)

lemma same_db_trans: "same_db w w' \<Longrightarrow> same_db w' w'' \<Longrightarrow> same_db w w''"
  by (simp add: same_db_def)

lemma tick_simps [simp]:
  "w_env (tick w) = w_env w" "w_users (tick w) = w_users w" "w_outbox (tick w) = w_outbox w"
  "w_seq (tick w) = w_seq w" "w_locked (tick w) = w_locked w" "w_tx (tick w) = w_tx w"
  "w_broker (tick w) = w_broker w" "w_heap (tick w) = w_heap w"
  "w_heap_top (tick w) = w_heap_top w" "w_tracked (tick w) = w_tracked w"
  "w_notified (tick w) = w_notified w" "w_tick (tick w) = Suc (w_tick w)"
  by (simp_all add: tick_def)

lemma pg_rollback_simps [simp]:
  "same_db w (pg_rollback v) = same_db w v" "w_broker (pg_rollback v) = w_broker v"
  "w_users (pg_rollback v) = w_users v" "w_outbox (pg_rollback v) = w_outbox v"
  by (simp_all add: pg_rollback_def same_db_def)

lemma pg_begin_None:
  "pg_begin w = (None, w') \<Longrightarrow>
     w' = (tick w)\<lparr>w_tx := Some (fresh_txn (env_pg_clock (w_env w) (w_tick w)))\<rparr>"
  by (auto simp: pg_begin_def split: pg_reply.splits)

lemma pg_begin_Some: "pg_begin w = (Some e, w') \<Longrightarrow> w' = tick w"
  by (auto simp: pg_begin_def split: pg_reply.splits)

lemma pg_commit_None:
  "pg_commit w = (None, w') \<Longrightarrow>
     \<exists>t. w_tx w = Some t \<and> \<not> tx_aborted t \<and> w' = apply_txn t (tick w)"
  by (auto simp: pg_commit_def split: option.splits if_splits pg_reply.splits)

lemma pg_commit_Some:
  "pg_commit w = (Some e, w') \<Longrightarrow> same_db w (pg_rollback w') \<and> w_broker w' = w_broker w
     \<or> (\<exists>t. w_tx w = Some t \<and> \<not> tx_aborted t \<and> w' = apply_txn t (tick w))"
  by (auto simp: pg_commit_def same_db_def pg_rollback_def
      split: option.splits if_splits pg_reply.splits)

text \<open>A statement that succeeded ran its body on the open transaction.\<close>

lemma in_tx_Inr:
  assumes "in_tx body w = (Inr a, w')"
  obtains t t' s where "w_tx w = Some t" "\<not> tx_aborted t" "env_pg (w_env w) (w_tick w) = PgOk"
    "body w t = (Inr (a, t'), s)" "w' = (tick w)\<lparr>w_seq := s, w_tx := Some t'\<rparr>"
  using assms
  by (auto simp: in_tx_def split: option.splits if_splits pg_reply.splits sum.splits prod.splits)

lemma in_tx_frame:
  assumes "in_tx body w = (x, w')"
  shows "same_db w w'" "w_broker w' = w_broker w" "w_env w' = w_env w" "w_heap w' = w_heap w"
    "w_heap_top w' = w_heap_top w" "w_tracked w' = w_tracked w" "w_locked w' = w_locked w"
    "w_notified w' = w_notified w"
  using assms
  by (auto simp: in_tx_def same_db_def abort_def
      split: option.splits if_splits pg_reply.splits sum.splits prod.splits)

text \<open>
  \<open>WithTx\<close> taken apart: nothing was changed and there is an error, or the function returned
  nil and its transaction was committed; the commit can have taken effect although it reported an
  error.
\<close>

lemma WithTx_cases:
  assumes "WithTx fn r w = ((err, r'), w')"
  obtains
    (no_begin) e where "err = Some e" "r' = r" "w' = tick w"
  | (failed) w1 w2 e where "pg_begin w = (None, w1)" "fn r w1 = ((Some e, r'), w2)" "err = Some e"
      "w' = pg_rollback w2"
  | (not_committed) w1 w2 w3 e where "pg_begin w = (None, w1)" "fn r w1 = ((None, r'), w2)"
      "pg_commit w2 = (Some e, w3)" "err = Some (wrapf ''postgres: commit'' e)"
      "same_db w2 (pg_rollback w3)" "w_broker w3 = w_broker w2" "w' = pg_rollback w3"
  | (committed) w1 w2 t where "pg_begin w = (None, w1)" "fn r w1 = ((None, r'), w2)"
      "w_tx w2 = Some t" "\<not> tx_aborted t" "w' = apply_txn t (tick w2)"
      "err = None \<or> (\<exists>e. err = Some (wrapf ''postgres: commit'' e))"
proof (cases "pg_begin w")
  case (Pair x w1)
  show thesis
  proof (cases x)
    case (Some e)
    with Pair assms show thesis
      by (auto simp: WithTx_def dest: pg_begin_Some intro: no_begin)
  next
    case None
    obtain y r2 w2 where f: "fn r w1 = ((y, r2), w2)" by (cases "fn r w1") auto
    show thesis
    proof (cases y)
      case (Some e)
      with None Pair f assms show thesis by (auto simp: WithTx_def intro: failed)
    next
      case y: None
      obtain z w3 where c: "pg_commit w2 = (z, w3)" by (cases "pg_commit w2")
      show thesis
      proof (cases z)
        case z: None
        from pg_commit_None c z obtain t where "w_tx w2 = Some t" "\<not> tx_aborted t"
          "w3 = apply_txn t (tick w2)" by blast
        moreover from this have "pg_rollback w3 = w3" by (simp add: pg_rollback_def apply_txn_def)
        ultimately show thesis
          using None y f Pair c z assms by (intro committed) (auto simp: WithTx_def)
      next
        case (Some e)
        from pg_commit_Some c Some
        consider "same_db w2 (pg_rollback w3)" "w_broker w3 = w_broker w2"
          | t where "w_tx w2 = Some t" "\<not> tx_aborted t" "w3 = apply_txn t (tick w2)" by blast
        then show thesis
        proof cases
          case 1
          with Some None y f Pair c assms show thesis
            by (intro not_committed [of w1 w2 e w3]) (auto simp: WithTx_def)
        next
          case (2 t)
          moreover from this have "pg_rollback w3 = w3" by (simp add: pg_rollback_def apply_txn_def)
          ultimately show thesis
            using Some None y f Pair c assms by (intro committed) (auto simp: WithTx_def)
        qed
      qed
    qed
  qed
qed

end
