(* ===== verification/PublishBatch.thy ===== *)
theory PublishBatch
  imports Outbox
begin

text \<open>
  The relay pass, \<open>publish_pending_batch.go\<close>: claim, publish in order, mark after the ack,
  break the batch on a transient error.  The use case is a record of its ports; the loop over the
  claimed rows is recursion on the list.  The section on the abstract pass states what a pass does
  to the bookkeeping as a list of row outcomes, and the lemmas in the context of the ports'
  contract show that the code implements it.
\<close>

subsection \<open>State and results\<close>

record 'w PublishPolicy =
  BatchSize :: int
  policy_Schedule :: "'w Schedule"
  MaxAttempts :: int

record Failure =
  OutboxID :: int
  fail_EventID :: uuid
  Reason :: string

record PublishResult =
  res_Claimed :: int
  res_Published :: int
  res_Transient :: "Failure list"
  res_Permanent :: "Failure list"
  res_Duration :: duration
  res_Stats :: OutboxStats
  res_StatsErr :: "gerr option"
  res_BatchSize :: int

definition empty_result :: PublishResult where
  "empty_result = \<lparr>res_Claimed = 0, res_Published = 0, res_Transient = [], res_Permanent = [],
     res_Duration = 0, res_Stats = zero_stats, res_StatsErr = None, res_BatchSize = 0\<rparr>"

record 'w PublishPendingBatch =
  uow :: "('w, PublishResult) PublishUnitOfWork"
  publisher :: "'w EventPublisher"
  stats :: "'w OutboxStatsReader"
  topics :: Topics
  clock :: "'w Clock"
  policy :: "'w PublishPolicy"

definition NewPublishPendingBatch ::
    "('w, PublishResult) PublishUnitOfWork \<Rightarrow> 'w EventPublisher \<Rightarrow> 'w OutboxStatsReader \<Rightarrow>
     Topics \<Rightarrow> 'w Clock \<Rightarrow> 'w PublishPolicy \<Rightarrow> 'w PublishPendingBatch" where
  "NewPublishPendingBatch u p st t clk po =
     \<lparr>uow = u, publisher = p, stats = st, topics = t, clock = clk, policy = po\<rparr>"

definition Full :: "PublishResult \<Rightarrow> bool" where
  "Full r \<longleftrightarrow> res_BatchSize r > 0 \<and> res_Claimed r \<ge> res_BatchSize r"

definition failureOf :: "PendingMessage \<Rightarrow> gerr \<Rightarrow> Failure" where
  "failureOf pending err =
     \<lparr>OutboxID = pm_ID pending, fail_EventID = env_EventID pending, Reason = error_text err\<rparr>"

subsection \<open>One message\<close>

text \<open>
  The range over the stored headers assigns every key once, so the copy is the map itself; the
  five contract headers are assigned after it.
\<close>

definition publishHeaders :: "PendingMessage \<Rightarrow> string \<Rightarrow> gomap" where
  "publishHeaders pending eventID =
     (let h = fold (\<lambda>(key, val) h. AList.update key val h) (env_Headers pending) [];
          h = AList.update HeaderEventID eventID h;
          h = AList.update HeaderEventType (env_EventType pending) h;
          h = AList.update HeaderSpecVersion SpecVersion h;
          h = AList.update HeaderSchemaVersion (Itoa (env_SchemaVersion pending)) h
      in AList.update HeaderContentType DataContentType h)"

definition message_of :: "PendingMessage \<Rightarrow> string \<Rightarrow> Message" where
  "message_of pending topic =
     (let eventID = uuid_text (env_EventID pending)
      in \<lparr>msg_EventID = eventID, msg_EventType = env_EventType pending,
          msg_SchemaVersion = env_SchemaVersion pending, msg_Key = env_AggregateID pending,
          msg_Payload = env_Payload pending, msg_Headers = publishHeaders pending eventID,
          msg_Topic = topic\<rparr>)"

definition publish :: "'w PublishPendingBatch \<Rightarrow> PendingMessage \<Rightarrow> ('w, gerr option) act" where
  "publish uc pending w =
     (case Topics_For (topics uc) (env_AggregateType pending) of
        Inl err \<Rightarrow> (Some err, w)
      | Inr topic \<Rightarrow> publisher uc (message_of pending topic) w)"

text \<open>The contract headers win over stored headers of the same name.\<close>

lemma distinct_fold_update:
  "distinct (map fst h) \<Longrightarrow> distinct (map fst (fold (\<lambda>(key, val) h. AList.update key val h) xs h))"
  by (induction xs arbitrary: h) (auto simp: distinct_update)

lemma distinct_publishHeaders: "distinct (map fst (publishHeaders pending eventID))"
  by (simp add: publishHeaders_def Let_def distinct_update distinct_fold_update)

lemma map_of_fold_update:
  "map_of (fold (\<lambda>(key, val) h. AList.update key val h) xs h) = map_of h ++ map_of (rev xs)"
  by (induction xs arbitrary: h) auto

lemma map_of_publishHeaders:
  "map_of (publishHeaders pending eventID) = (map_of (rev (env_Headers pending)))
     (HeaderEventID \<mapsto> eventID, HeaderEventType \<mapsto> env_EventType pending,
      HeaderSpecVersion \<mapsto> SpecVersion, HeaderSchemaVersion \<mapsto> Itoa (env_SchemaVersion pending),
      HeaderContentType \<mapsto> DataContentType)"
  by (simp add: publishHeaders_def Let_def map_of_fold_update)

subsection \<open>The batch\<close>

fun publishBatch ::
    "'w PublishPendingBatch \<Rightarrow> 'w OutboxRepository \<Rightarrow> PendingMessage list \<Rightarrow> PublishResult \<Rightarrow>
     ('w, gerr option \<times> PublishResult) act" where
  "publishBatch uc outbox [] res w = ((None, res), w)"
| "publishBatch uc outbox (pending # batch) res w =
     (case publish uc pending w of
        (None, w1) \<Rightarrow>
          (let res = res\<lparr>res_Published := res_Published res + 1\<rparr>
           in case MarkPublished outbox (pm_ID pending) w1 of
                (Some err, w2) \<Rightarrow> ((Some err, res), w2)
              | (None, w2) \<Rightarrow> publishBatch uc outbox batch res w2)
      | (Some err, w1) \<Rightarrow>
          (if errors_Is err ErrPermanent then
             (let failure = failureOf pending err
              in case MarkFailed outbox (pm_ID pending) (Reason failure) w1 of
                   (Some err', w2) \<Rightarrow> ((Some err', res), w2)
                 | (None, w2) \<Rightarrow>
                     publishBatch uc outbox batch
                       (res\<lparr>res_Permanent := res_Permanent res @ [failure]\<rparr>) w2)
           else if errors_Is err ErrTransient then
             (let failure = failureOf pending err;
                  (now, w2) = clock uc w1;
                  (delay, w3) = policy_Schedule (policy uc) (pm_Attempts pending) w2;
                  availableAt = now + delay
              in case Reschedule outbox (pm_ID pending) availableAt (Reason failure) w3 of
                   (Some err', w4) \<Rightarrow> ((Some err', res), w4)
                 | (None, w4) \<Rightarrow>
                     ((None, res\<lparr>res_Transient := res_Transient res @ [failure]\<rparr>), w4))
           else ((Some err, res), w1)))"

subsection \<open>The pass\<close>

definition observe :: "'w PublishPendingBatch \<Rightarrow> PublishResult \<Rightarrow> ('w, PublishResult) act" where
  "observe uc res w =
     (case stats uc (MaxAttempts (policy uc)) w of
        (Inl err, w') \<Rightarrow> (res\<lparr>res_StatsErr := Some err\<rparr>, w')
      | (Inr st, w') \<Rightarrow> (res\<lparr>res_Stats := st\<rparr>, w'))"

text \<open>\<open>Time.Sub\<close> saturates at the bounds of \<open>Duration\<close>.\<close>

definition time_Sub :: "time \<Rightarrow> time \<Rightarrow> duration" where
  "time_Sub t u = max (- (2 ^ 63)) (min max_i64 (t - u))"

definition pass_body ::
    "'w PublishPendingBatch \<Rightarrow> 'w OutboxRepository \<Rightarrow> PublishResult \<Rightarrow>
     ('w, gerr option \<times> PublishResult) act" where
  "pass_body uc outbox res w =
     (case ClaimPending outbox (BatchSize (policy uc)) w of
        (Inl err, w') \<Rightarrow> ((Some err, res), w')
      | (Inr batch, w') \<Rightarrow>
          publishBatch uc outbox batch (res\<lparr>res_Claimed := int (length batch)\<rparr>) w')"

definition Execute ::
    "'w PublishPendingBatch \<Rightarrow> ('w, PublishResult \<times> gerr option) act" where
  "Execute uc w =
     (let (started, w) = clock uc w;
          res = empty_result\<lparr>res_BatchSize := BatchSize (policy uc)\<rparr>;
          ((err, res), w) = uow uc (pass_body uc) res w;
          (ended, w) = clock uc w;
          res = res\<lparr>res_Duration := time_Sub ended started\<rparr>
      in case err of
           Some e \<Rightarrow> ((res, Some e), w)
         | None \<Rightarrow> (let (res, w) = observe uc res w in ((res, None), w)))"

subsection \<open>The abstract pass\<close>

text \<open>
  \<open>follows batch outs\<close>: the outcomes belong to an initial part of the batch, in its order, one
  per row; only the last outcome can be a retry, and a batch is left unfinished only by a retry.
\<close>

fun follows :: "PendingMessage list \<Rightarrow> row_outcome list \<Rightarrow> bool" where
  "follows [] outs = (outs = [])"
| "follows (m # ms) [] = False"
| "follows (m # ms) (Retried t r # outs) = (outs = [])"
| "follows (m # ms) (out # outs) = follows ms outs"

fun failure_of_outcome :: "PendingMessage \<times> row_outcome \<Rightarrow> Failure list" where
  "failure_of_outcome (m, Sent) = []"
| "failure_of_outcome (m, Parked r) = [\<lparr>OutboxID = pm_ID m, fail_EventID = env_EventID m, Reason = r\<rparr>]"
| "failure_of_outcome (m, Retried t r) =
     [\<lparr>OutboxID = pm_ID m, fail_EventID = env_EventID m, Reason = r\<rparr>]"

definition is_sent :: "row_outcome \<Rightarrow> bool" where "is_sent out \<longleftrightarrow> out = Sent"
definition is_parked :: "row_outcome \<Rightarrow> bool" where "is_parked out \<longleftrightarrow> (\<exists>r. out = Parked r)"
definition is_retried :: "row_outcome \<Rightarrow> bool" where "is_retried out \<longleftrightarrow> (\<exists>t r. out = Retried t r)"

lemma outcome_kinds [simp]:
  "is_sent Sent" "\<not> is_sent (Parked r)" "\<not> is_sent (Retried t r)"
  "\<not> is_parked Sent" "is_parked (Parked r)" "\<not> is_parked (Retried t r)"
  "\<not> is_retried Sent" "\<not> is_retried (Parked r)" "is_retried (Retried t r)"
  by (auto simp: is_sent_def is_parked_def is_retried_def)

text \<open>The counters and failure lists of the result, read off the outcomes.\<close>

definition tally :: "PendingMessage list \<Rightarrow> row_outcome list \<Rightarrow> PublishResult \<Rightarrow> PublishResult" where
  "tally batch outs res = res
     \<lparr>res_Published := res_Published res + int (length (filter is_sent outs)),
      res_Permanent := res_Permanent res @
        concat (map failure_of_outcome (filter (is_parked \<circ> snd) (zip batch outs))),
      res_Transient := res_Transient res @
        concat (map failure_of_outcome (filter (is_retried \<circ> snd) (zip batch outs)))\<rparr>"

text \<open>The messages of the rows that have a topic, in the order of the batch, as the broker has them.\<close>

definition routed :: "(Message \<Rightarrow> 'r) \<Rightarrow> Topics \<Rightarrow> PendingMessage \<Rightarrow> 'r list" where
  "routed wire t m = (case Topics_For t (env_AggregateType m) of
      Inl _ \<Rightarrow> [] | Inr topic \<Rightarrow> [wire (message_of m topic)])"

definition sent_messages ::
    "(Message \<Rightarrow> 'r) \<Rightarrow> Topics \<Rightarrow> PendingMessage list \<Rightarrow> row_outcome list \<Rightarrow> 'r list" where
  "sent_messages wire t batch outs =
     concat (map (routed wire t \<circ> fst) (filter (is_sent \<circ> snd) (zip batch outs)))"

lemma follows_length: "follows batch outs \<Longrightarrow> length outs \<le> length batch"
  by (induction batch outs rule: follows.induct) auto

lemma follows_Cons: "\<not> is_retried out \<Longrightarrow> follows (m # ms) (out # outs) = follows ms outs"
  by (cases out) auto

lemma tally_Nil [simp]: "tally batch [] res = res"
  by (simp add: tally_def)

lemma tally_Cons:
  "tally (m # batch) (out # outs) res =
     tally batch outs (tally [m] [out] res)"
  by (cases out) (simp_all add: tally_def)

subsection \<open>The three ways a row can be settled\<close>

lemma tally_one:
  "tally [m] [Sent] res = res\<lparr>res_Published := res_Published res + 1\<rparr>"
  "tally [m] [Parked (error_text e)] res = res\<lparr>res_Permanent := res_Permanent res @ [failureOf m e]\<rparr>"
  "tally [m] [Retried t (error_text e)] res =
     res\<lparr>res_Transient := res_Transient res @ [failureOf m e]\<rparr>"
  by (simp_all add: tally_def failureOf_def)

lemma publishBatch_Cons_None:
  assumes "publishBatch uc outbox (m # batch) res w = ((None, res'), w')"
  obtains
    (sent) w1 w2 where "publish uc m w = (None, w1)"
      "MarkPublished outbox (pm_ID m) w1 = (None, w2)"
      "publishBatch uc outbox batch (tally [m] [Sent] res) w2 = ((None, res'), w')"
  | (parked) e w1 w2 where "publish uc m w = (Some e, w1)" "errors_Is e ErrPermanent"
      "MarkFailed outbox (pm_ID m) (error_text e) w1 = (None, w2)"
      "publishBatch uc outbox batch (tally [m] [Parked (error_text e)] res) w2 = ((None, res'), w')"
  | (retried) e w1 now w2 delay w3 where "publish uc m w = (Some e, w1)"
      "\<not> errors_Is e ErrPermanent" "errors_Is e ErrTransient" "clock uc w1 = (now, w2)"
      "policy_Schedule (policy uc) (pm_Attempts m) w2 = (delay, w3)"
      "Reschedule outbox (pm_ID m) (now + delay) (error_text e) w3 = (None, w')"
      "res' = tally [m] [Retried (now + delay) (error_text e)] res"
proof (cases "publish uc m w")
  case (Pair r w1)
  show thesis
  proof (cases r)
    case None
    with Pair assms show thesis
      by (auto simp: tally_one Let_def split: prod.splits option.splits intro: sent)
  next
    case (Some e)
    show thesis
    proof (cases "errors_Is e ErrPermanent")
      case True
      with Some Pair assms show thesis
        by (auto simp: tally_one Let_def failureOf_def [of m e] split: prod.splits option.splits
            intro: parked)
    next
      case False
      with Some Pair assms show thesis
        by (auto simp: tally_one Let_def failureOf_def [of m e]
            split: prod.splits option.splits if_splits intro: retried)
    qed
  qed
qed

text \<open>
  An invariant of a batch, whatever it ends in: the failed produce, the acknowledged produce with
  its mark, the two other marks, the clock and the schedule each keep it.
\<close>

lemma publishBatch_invariant:
  assumes run: "publishBatch uc outbox batch res w = (x, w')" and I: "I w"
    and refused: "\<And>m e v v'. m \<in> set batch \<Longrightarrow> I v \<Longrightarrow> publish uc m v = (Some e, v') \<Longrightarrow> I v'"
    and acked: "\<And>m y v v' v''. m \<in> set batch \<Longrightarrow> I v \<Longrightarrow> publish uc m v = (None, v') \<Longrightarrow>
           MarkPublished outbox (pm_ID m) v' = (y, v'') \<Longrightarrow> I v''"
    and parked: "\<And>m e y v v' v''. m \<in> set batch \<Longrightarrow> I v \<Longrightarrow> publish uc m v = (Some e, v') \<Longrightarrow>
           errors_Is e ErrPermanent \<Longrightarrow> MarkFailed outbox (pm_ID m) (error_text e) v' = (y, v'') \<Longrightarrow> I v''"
    and rescheduled: "\<And>m a r y v v'. m \<in> set batch \<Longrightarrow> I v \<Longrightarrow>
           Reschedule outbox (pm_ID m) a r v = (y, v') \<Longrightarrow> I v'"
    and clocked: "\<And>a v v'. I v \<Longrightarrow> clock uc v = (a, v') \<Longrightarrow> I v'"
    and scheduled: "\<And>n d v v'. I v \<Longrightarrow> policy_Schedule (policy uc) n v = (d, v') \<Longrightarrow> I v'"
  shows "I w'"
proof -
  have "publishBatch uc outbox ms res w = (x, w') \<Longrightarrow> I w \<Longrightarrow> set ms \<subseteq> set batch \<Longrightarrow> I w'" for ms
  proof (induction ms arbitrary: res w)
    case (Cons m ms)
    then have m: "m \<in> set batch" by simp
    obtain r w1 where p: "publish uc m w = (r, w1)" by (cases "publish uc m w")
    show ?case
    proof (cases r)
      case None
      obtain y w2 where mp: "MarkPublished outbox (pm_ID m) w1 = (y, w2)"
        by (cases "MarkPublished outbox (pm_ID m) w1")
      with acked [OF m Cons.prems(2)] p None have "I w2" by simp
      with Cons p None mp show ?thesis by (cases y) (auto simp: Let_def)
    next
      case (Some e)
      with refused [OF m Cons.prems(2)] p have I1: "I w1" by simp
      show ?thesis
      proof (cases "errors_Is e ErrPermanent")
        case True
        obtain y w2 where mf: "MarkFailed outbox (pm_ID m) (error_text e) w1 = (y, w2)"
          by (cases "MarkFailed outbox (pm_ID m) (error_text e) w1")
        with parked [OF m Cons.prems(2)] p Some True have "I w2" by simp
        with Cons p Some True mf show ?thesis
          by (cases y) (auto simp: Let_def failureOf_def)
      next
        case False
        obtain now w2 where c: "clock uc w1 = (now, w2)" by (cases "clock uc w1")
        obtain d w3 where s: "policy_Schedule (policy uc) (pm_Attempts m) w2 = (d, w3)"
          by (cases "policy_Schedule (policy uc) (pm_Attempts m) w2")
        obtain y w4 where r: "Reschedule outbox (pm_ID m) (now + d) (error_text e) w3 = (y, w4)"
          by (cases "Reschedule outbox (pm_ID m) (now + d) (error_text e) w3")
        have "I w4" by (rule rescheduled [OF m scheduled [OF clocked [OF I1 c] s] r])
        with Cons.prems(1) p Some False c s r I1 show ?thesis
          by (cases y) (auto simp: Let_def failureOf_def split: if_splits)
      qed
    qed
  qed simp
  with run I show ?thesis by simp
qed

subsection \<open>The pass implements the abstract pass\<close>

text \<open>The contract of the ports, for the ports of one use case.\<close>

locale relay_pass =
  relay_ports outbox "publisher uc" "clock uc" "policy_Schedule (policy uc)" book sent wire stamp
  for uc :: "'w PublishPendingBatch" and outbox and book and sent and wire and stamp
begin

lemma publish_None:
  assumes "publish uc m w = (None, w1)"
  obtains msg where "routed wire (topics uc) m = [msg]" "sent w1 = sent w @ [msg]" "book w1 = book w"
  using assms
  by (auto simp: publish_def routed_def split: sum.splits dest: publish_ok publish_frame)

lemma publish_Some:
  assumes "publish uc m w = (Some e, w1)"
  obtains ms where "sent w1 = sent w @ ms" "subseq ms (routed wire (topics uc) m)" "book w1 = book w"
    "errors_Is e ErrTransient \<noteq> errors_Is e ErrPermanent"
proof (cases "Topics_For (topics uc) (env_AggregateType m)")
  case (Inl err)
  with assms have "e = err" "w1 = w" by (simp_all add: publish_def)
  with Inl Topics_For_Inl [OF Inl] show thesis by (intro that [of "[]"]) auto
next
  case (Inr topic)
  with assms have p: "publisher uc (message_of m topic) w = (Some e, w1)"
    by (simp add: publish_def)
  from publish_err [OF p] show thesis
  proof
    assume "sent w1 = sent w"
    with publish_frame [OF p] publish_class [OF p] show thesis by (intro that [of "[]"]) auto
  next
    assume "sent w1 = sent w @ [wire (message_of m topic)]"
    with Inr publish_frame [OF p] publish_class [OF p] show thesis
      by (intro that [of "[wire (message_of m topic)]"]) (auto simp: routed_def)
  qed
qed

text \<open>
  \<open>step_to m out w w1\<close>: from \<open>w\<close> to \<open>w1\<close> the row of \<open>m\<close> was settled with
  outcome \<open>out\<close>, and the broker took the message of \<open>m\<close> if the outcome is \<open>Sent\<close>,
  and at most that message otherwise.
\<close>

definition step_to :: "PendingMessage \<Rightarrow> row_outcome \<Rightarrow> 'w \<Rightarrow> 'w \<Rightarrow> bool" where
  "step_to m out w w1 \<longleftrightarrow>
     book w (pm_ID m) \<noteq> None \<and> book w1 = settle stamp [(pm_ID m, out)] (book w) \<and>
     (\<exists>ms. sent w1 = sent w @ ms \<and> subseq ms (routed wire (topics uc) m) \<and>
        (out = Sent \<longrightarrow> ms = routed wire (topics uc) m))"

lemmas mark_laws = mark_published mark_published_sent mark_failed mark_failed_sent
  reschedule reschedule_sent

lemma sent_step:
  assumes "publish uc m w = (None, w1)" "MarkPublished outbox (pm_ID m) w1 = (None, w2)"
  shows "step_to m Sent w w2"
  using assms(1) mark_laws(1,2) [OF assms(2)]
  by (auto simp: step_to_def elim: publish_None)

lemma parked_step:
  assumes "publish uc m w = (Some e, w1)" "MarkFailed outbox (pm_ID m) r w1 = (None, w2)"
  shows "step_to m (Parked r) w w2"
  using assms(1) mark_laws(3,4) [OF assms(2)]
  by (auto simp: step_to_def elim: publish_Some)

lemma retried_step:
  assumes "publish uc m w = (Some e, w1)" "clock uc w1 = (now, w2)"
    "policy_Schedule (policy uc) n w2 = (d, w3)" "Reschedule outbox (pm_ID m) t r w3 = (None, w4)"
  shows "step_to m (Retried t r) w w4"
  using assms(1) mark_laws(5,6) [OF assms(4)] clock_frame [OF assms(2)] sched_frame [OF assms(3)]
  by (auto simp: step_to_def elim: publish_Some)

text \<open>
  The refinement: a batch that is worked off without an error is an abstract pass.  Its outcomes
  follow the batch, the bookkeeping is settled by exactly these outcomes, the result is their
  tally, and the broker's log grows by messages of the settled rows in batch order, among them
  every message of a row that is marked published.
\<close>

definition abstract_pass ::
    "PendingMessage list \<Rightarrow> row_outcome list \<Rightarrow> 'w \<Rightarrow> 'w \<Rightarrow> bool" where
  "abstract_pass batch outs w w' \<longleftrightarrow>
     follows batch outs \<and>
     (\<forall>m \<in> set (take (length outs) batch). book w (pm_ID m) \<noteq> None) \<and>
     book w' = settle stamp (zip (map pm_ID batch) outs) (book w) \<and>
     (\<exists>ms. sent w' = sent w @ ms \<and> subseq (sent_messages wire (topics uc) batch outs) ms \<and>
        subseq ms (concat (map (routed wire (topics uc)) (take (length outs) batch))))"

lemma abstract_pass_Cons:
  assumes step: "step_to m out w w1" and rest: "abstract_pass batch outs w1 w'"
    and out: "\<not> is_retried out"
  shows "abstract_pass (m # batch) (out # outs) w w'"
proof -
  from step obtain ms1 where 1: "book w (pm_ID m) \<noteq> None"
      "book w1 = settle stamp [(pm_ID m, out)] (book w)" "sent w1 = sent w @ ms1"
      "subseq ms1 (routed wire (topics uc) m)" "out = Sent \<longrightarrow> ms1 = routed wire (topics uc) m"
    by (auto simp: step_to_def)
  from rest obtain ms2 where 2: "follows batch outs"
      "\<forall>m \<in> set (take (length outs) batch). book w1 (pm_ID m) \<noteq> None"
      "book w' = settle stamp (zip (map pm_ID batch) outs) (book w1)"
      "sent w' = sent w1 @ ms2" "subseq (sent_messages wire (topics uc) batch outs) ms2"
      "subseq ms2 (concat (map (routed wire (topics uc)) (take (length outs) batch)))"
    by (auto simp: abstract_pass_def)
  have dom: "book w1 i \<noteq> None \<Longrightarrow> book w i \<noteq> None" for i
    by (metis 1(2) settle_dom)
  have "subseq (sent_messages wire (topics uc) (m # batch) (out # outs)) (ms1 @ ms2)"
  proof (cases "out = Sent")
    case True
    with 1 2 show ?thesis by (simp add: sent_messages_def subseq_append')
  next
    case False
    with 2 have "subseq (sent_messages wire (topics uc) (m # batch) (out # outs)) ([] @ ms2)"
      by (simp add: sent_messages_def is_sent_def)
    then show ?thesis by (simp add: subseq_drop_many)
  qed
  moreover have "subseq (ms1 @ ms2)
      (concat (map (routed wire (topics uc)) (take (length (out # outs)) (m # batch))))"
    using 1 2 by (simp add: list_emb_append_mono)
  moreover have "follows (m # batch) (out # outs)" using 2 out by (simp add: follows_Cons)
  moreover have "\<forall>x \<in> set (take (length (out # outs)) (m # batch)). book w (pm_ID x) \<noteq> None"
    using 1 2 dom by auto
  ultimately show ?thesis using 1 2 by (auto simp: abstract_pass_def)
qed

lemma publishBatch_refines:
  assumes "publishBatch uc outbox batch res w = ((None, res'), w')"
  shows "\<exists>outs. abstract_pass batch outs w w' \<and> res' = tally batch outs res"
  using assms
proof (induction batch arbitrary: res w)
  case Nil
  then show ?case by (intro exI [of _ "[]"]) (simp add: abstract_pass_def sent_messages_def)
next
  case (Cons m batch)
  from Cons.prems show ?case
  proof (cases rule: publishBatch_Cons_None)
    case (sent w1 w2)
    from Cons.IH [OF sent(3)] obtain outs where
      "abstract_pass batch outs w2 w'" "res' = tally batch outs (tally [m] [Sent] res)" by blast
    with sent_step [OF sent(1,2)] show ?thesis
      by (intro exI [of _ "Sent # outs"]) (simp add: abstract_pass_Cons flip: tally_Cons)
  next
    case (parked e w1 w2)
    from Cons.IH [OF parked(4)] obtain outs where "abstract_pass batch outs w2 w'"
      "res' = tally batch outs (tally [m] [Parked (error_text e)] res)" by blast
    with parked_step [OF parked(1,3)] show ?thesis
      by (intro exI [of _ "Parked (error_text e) # outs"])
        (simp add: abstract_pass_Cons flip: tally_Cons)
  next
    case (retried e w1 now w2 delay w3)
    let ?out = "Retried (now + delay) (error_text e)"
    from retried_step [OF retried(1,4,5,6)] have "abstract_pass (m # batch) [?out] w w'"
      by (auto simp: abstract_pass_def step_to_def sent_messages_def)
    with retried(7) show ?thesis
      by (intro exI [of _ "[?out]"]) (simp add: tally_Cons [of m batch ?out "[]"])
  qed
qed

text \<open>
  Whether or not the batch ends in an error: the broker's log grows by messages of the batch in
  batch order, each row contributing at most its own message, and \<open>Published\<close> counts acks,
  so it never exceeds what the broker took.
\<close>

definition logged :: "PendingMessage list \<Rightarrow> PublishResult \<Rightarrow> PublishResult \<Rightarrow> 'w \<Rightarrow> 'w \<Rightarrow> bool" where
  "logged batch res res' w w' \<longleftrightarrow>
     (\<exists>ms k. sent w' = sent w @ ms \<and> subseq ms (concat (map (routed wire (topics uc)) batch)) \<and>
        res_Published res' = res_Published res + int k \<and> k \<le> length ms)"

lemma logged_refl: "sent w' = sent w \<Longrightarrow> res_Published res' = res_Published res \<Longrightarrow> logged batch res res' w w'"
  by (auto simp: logged_def intro!: exI [of _ "[]"])

lemma logged_here:
  assumes "sent w' = sent w @ ms" "subseq ms (routed wire (topics uc) m)"
    "res_Published res' = res_Published res + int k" "k \<le> length ms"
  shows "logged (m # batch) res res' w w'"
proof -
  have "subseq (ms @ []) (routed wire (topics uc) m @ concat (map (routed wire (topics uc)) batch))"
    by (rule list_emb_append_mono) (simp_all add: assms)
  with assms show ?thesis unfolding logged_def by (intro exI [of _ ms] exI [of _ k]) simp
qed

lemma logged_Cons:
  assumes m: "sent w1 = sent w @ ms" "subseq ms (routed wire (topics uc) m)"
      "res_Published res1 = res_Published res + int k" "k \<le> length ms"
    and rest: "logged batch res1 res' w1 w'"
  shows "logged (m # batch) res res' w w'"
proof -
  from rest obtain ms2 k2 where "sent w' = sent w1 @ ms2"
      "subseq ms2 (concat (map (routed wire (topics uc)) batch))"
      "res_Published res' = res_Published res1 + int k2" "k2 \<le> length ms2"
    by (auto simp: logged_def)
  with m show ?thesis unfolding logged_def
    by (intro exI [of _ "ms @ ms2"] exI [of _ "k + k2"]) (auto simp: list_emb_append_mono)
qed

lemma publishBatch_logged:
  "publishBatch uc outbox batch res w = ((err, res'), w') \<Longrightarrow> logged batch res res' w w'"
proof (induction batch arbitrary: res w)
  case (Cons m batch)
  obtain r w1 where p: "publish uc m w = (r, w1)" by (cases "publish uc m w")
  show ?case
  proof (cases r)
    case None
    let ?res = "res\<lparr>res_Published := res_Published res + 1\<rparr>"
    from p None obtain msg where msg: "routed wire (topics uc) m = [msg]" "sent w1 = sent w @ [msg]"
      by (auto elim: publish_None)
    obtain x w2 where mp: "MarkPublished outbox (pm_ID m) w1 = (x, w2)"
      by (cases "MarkPublished outbox (pm_ID m) w1")
    with msg have s2: "sent w2 = sent w @ [msg]" by (simp add: mark_published_sent)
    show ?thesis
    proof (cases x)
      case None
      with Cons.prems p \<open>r = None\<close> mp
      have "publishBatch uc outbox batch ?res w2 = ((err, res'), w')" by (simp add: Let_def)
      from logged_Cons [OF s2 _ _ _ Cons.IH [OF this], of m res 1] msg show ?thesis by simp
    next
      case (Some e)
      with Cons.prems p \<open>r = None\<close> mp have "res' = ?res" "w' = w2" by (auto simp: Let_def)
      with logged_here [OF s2, of m res' res 1] msg show ?thesis by simp
    qed
  next
    case (Some e)
    from p Some obtain ms where ms: "sent w1 = sent w @ ms" "subseq ms (routed wire (topics uc) m)"
      by (auto elim: publish_Some)
    show ?thesis
    proof (cases "errors_Is e ErrPermanent")
      case True
      obtain x w2 where mf: "MarkFailed outbox (pm_ID m) (error_text e) w1 = (x, w2)"
        by (cases "MarkFailed outbox (pm_ID m) (error_text e) w1")
      with ms have s2: "sent w2 = sent w @ ms" by (simp add: mark_failed_sent)
      show ?thesis
      proof (cases x)
        case None
        with Cons.prems p Some mf True
        have "publishBatch uc outbox batch
            (res\<lparr>res_Permanent := res_Permanent res @ [failureOf m e]\<rparr>) w2 = ((err, res'), w')"
          by (simp add: Let_def failureOf_def)
        from logged_Cons [OF s2 ms(2) _ _ Cons.IH [OF this], of res 0] show ?thesis by simp
      next
        case (Some e')
        with Cons.prems p \<open>r = Some e\<close> mf True have "res' = res" "w' = w2"
          by (auto simp: Let_def failureOf_def)
        with logged_here [OF s2 ms(2), of res' res 0] show ?thesis by simp
      qed
    next
      case False
      with Cons.prems p Some ms have "sent w' = sent w @ ms" "res_Published res' = res_Published res"
        by (auto simp: Let_def split: if_splits prod.splits option.splits
            dest!: clock_frame sched_frame dest: reschedule_sent)
      with logged_here [OF _ ms(2), of w' w res' res 0] show ?thesis by simp
    qed
  qed
qed (simp add: logged_refl)

end

end
