(* ===== verification/Float64.thy ===== *)
theory Float64
  imports Prelude "HOL-Library.Log_Nat" Complex_Main
begin

text \<open>
  Go's \<open>float64\<close> arithmetic, as far as the code uses it: conversions from and to
  \<open>int64\<close>, addition, division and multiplication of finite values in the normal range.  A
  float is the rational number it denotes, an operation the exact result rounded to 53 bits, ties
  to even.  The values that occur (durations, seconds, factors around one) are far from the limits
  of the exponent.
\<close>

subsection \<open>Rounding\<close>

definition half_even :: "rat \<Rightarrow> int" where
  "half_even x =
     (let n = \<lfloor>x\<rfloor>; d = x - of_int n
      in if d < 1 / 2 then n else if d > 1 / 2 then n + 1 else if even n then n else n + 1)"

text \<open>Powers of two with an integer exponent, and the exponent of a positive rational.\<close>

definition pow2 :: "int \<Rightarrow> rat" where
  "pow2 e = (if e \<ge> 0 then 2 ^ nat e else 1 / 2 ^ nat (- e))"

definition exponent :: "rat \<Rightarrow> int" where
  "exponent x =
     (let (p, q) = quotient_of x; e = bitlen p - bitlen q
      in if pow2 e \<le> x then e else e - 1)"

definition ulp :: "rat \<Rightarrow> rat" where
  "ulp x = pow2 (exponent \<bar>x\<bar> - 52)"

definition rnd :: "rat \<Rightarrow> rat" where
  "rnd x = (if x = 0 then 0 else of_int (half_even (x / ulp x)) * ulp x)"

subsection \<open>Operations\<close>

definition f_of_int :: "int \<Rightarrow> rat" where
  "f_of_int n = rnd (of_int n)"

definition f_add :: "rat \<Rightarrow> rat \<Rightarrow> rat" where "f_add x y = rnd (x + y)"
definition f_mul :: "rat \<Rightarrow> rat \<Rightarrow> rat" where "f_mul x y = rnd (x * y)"
definition f_div :: "rat \<Rightarrow> rat \<Rightarrow> rat" where "f_div x y = rnd (x / y)"

text \<open>
  A conversion to \<open>int64\<close> drops the fraction.  Go leaves a value out of range to the machine;
  this is what amd64 does.
\<close>

definition f_to_i64 :: "rat \<Rightarrow> int" where
  "f_to_i64 x =
     (let n = (if x \<ge> 0 then \<lfloor>x\<rfloor> else \<lceil>x\<rceil>) in if in_i64 n then n else - (2 ^ 63))"

text \<open>\<open>Duration.Seconds\<close>.\<close>

definition Seconds :: "duration \<Rightarrow> rat" where
  "Seconds d = f_add (f_of_int (quot d 1000000000))
     (f_div (f_of_int (d - 1000000000 * quot d 1000000000)) 1000000000)"

subsection \<open>How far rounding moves a value\<close>

lemma pow2_pos [simp]: "0 < pow2 e"
  by (simp add: pow2_def)

lemma pow2_nat [simp]: "pow2 (int n) = 2 ^ n"
  by (simp add: pow2_def)

lemma pow2_Suc: "pow2 (e + 1) = 2 * pow2 e"
proof (cases "0 \<le> e")
  case True
  then have "nat (e + 1) = Suc (nat e)" by simp
  with True show ?thesis by (simp add: pow2_def)
next
  case False
  then have "nat (- e) = Suc (nat (- (e + 1)))" by simp
  with False show ?thesis by (auto simp: pow2_def)
qed

lemma pow2_add_nat: "pow2 (e + int n) = pow2 e * 2 ^ n"
proof (induction n)
  case (Suc n)
  have "pow2 (e + int (Suc n)) = pow2 ((e + int n) + 1)" by (simp add: algebra_simps)
  with Suc show ?case by (simp add: pow2_Suc)
qed simp

lemma pow2_mono: "a \<le> b \<Longrightarrow> pow2 a \<le> pow2 b"
proof -
  assume "a \<le> b"
  then have "b = a + int (nat (b - a))" by simp
  then have "pow2 b = pow2 a * 2 ^ nat (b - a)" by (metis pow2_add_nat)
  moreover have "pow2 a * 1 \<le> pow2 a * 2 ^ nat (b - a)"
    by (rule mult_left_mono) (simp_all add: less_imp_le)
  ultimately show ?thesis by simp
qed

lemma half_even_error: "\<bar>of_int (half_even x) - x\<bar> \<le> 1 / 2"
proof -
  have "of_int \<lfloor>x\<rfloor> \<le> x" "x < of_int \<lfloor>x\<rfloor> + 1" by linarith+
  then show ?thesis by (simp add: half_even_def Let_def abs_le_iff)
qed

lemma half_even_of_int [simp]: "half_even (of_int n) = n"
  by (simp add: half_even_def Let_def)

lemma bitlen_bounds_rat:
  assumes "0 < n"
  shows "pow2 (bitlen n - 1) \<le> of_int n" "of_int n < pow2 (bitlen n)"
proof -
  from assms have b: "2 ^ nat (bitlen n - 1) \<le> n" "n < 2 ^ nat (bitlen n)" "1 \<le> bitlen n"
    using bitlen_bounds [of n] bitlen_nonneg [of n] bitlen_eq_zero_iff [of n] by auto
  from b(1) have "of_int (2 ^ nat (bitlen n - 1)) \<le> (of_int n :: rat)"
    by (simp only: of_int_le_iff)
  with b(3) show "pow2 (bitlen n - 1) \<le> of_int n" by (simp add: pow2_def)
  from b(2) have "(of_int n :: rat) < of_int (2 ^ nat (bitlen n))"
    by (simp only: of_int_less_iff)
  with b(3) show "of_int n < pow2 (bitlen n)" by (simp add: pow2_def)
qed

lemma pow2_add: "pow2 (a + b) = pow2 a * pow2 b"
proof (cases "0 \<le> b")
  case True
  then show ?thesis using pow2_add_nat [of a "nat b"] by (simp add: pow2_def [of b])
next
  case False
  then have "pow2 a = pow2 (a + b) * 2 ^ nat (- b)" using pow2_add_nat [of "a + b" "nat (- b)"] by simp
  with False show ?thesis by (simp add: pow2_def [of b])
qed

lemma exponent_le:
  assumes "0 < x"
  shows "pow2 (exponent x) \<le> x"
proof -
  obtain p q where pq: "quotient_of x = (p, q)" by (cases "quotient_of x")
  then have q: "0 < q" and x: "x = of_int p / of_int q"
    by (simp_all add: quotient_of_denom_pos quotient_of_div)
  from assms q have p: "0 < p" by (simp add: x zero_less_divide_iff)
  have "pow2 (bitlen p - bitlen q - 1) * pow2 (bitlen q) = pow2 (bitlen p - 1)"
    by (simp flip: pow2_add)
  also have "\<dots> \<le> of_int p" by (rule bitlen_bounds_rat) (rule p)
  also have "of_int p = x * of_int q" using q by (simp add: x)
  also have "\<dots> \<le> x * pow2 (bitlen q)"
    using bitlen_bounds_rat(2) [OF q] assms by (intro mult_left_mono) simp_all
  finally have "pow2 (bitlen p - bitlen q - 1) \<le> x" by simp
  then show ?thesis by (simp add: exponent_def pq Let_def)
qed

lemma ulp_pos [simp]: "0 < ulp x"
  by (simp add: ulp_def)

lemma ulp_nonzero [simp]: "ulp x \<noteq> 0"
  using ulp_pos [of x] by linarith

lemma ulp_le: "x \<noteq> 0 \<Longrightarrow> ulp x * 2 ^ 52 \<le> \<bar>x\<bar>"
  using exponent_le [of "\<bar>x\<bar>"] pow2_add_nat [of "exponent \<bar>x\<bar> - 52" 52] by (simp add: ulp_def)

lemma rnd_error: "\<bar>rnd x - x\<bar> \<le> \<bar>x\<bar> / 2 ^ 53"
proof (cases "x = 0")
  case False
  have "rnd x - x = (of_int (half_even (x / ulp x)) - x / ulp x) * ulp x"
    using False by (simp add: rnd_def algebra_simps)
  then have "\<bar>rnd x - x\<bar> = \<bar>of_int (half_even (x / ulp x)) - x / ulp x\<bar> * ulp x"
    by (simp add: abs_mult abs_of_pos)
  also have "\<dots> \<le> 1 / 2 * ulp x"
    by (rule mult_right_mono [OF half_even_error]) (simp add: less_imp_le)
  finally have "\<bar>rnd x - x\<bar> \<le> 1 / 2 * ulp x" .
  with ulp_le [OF False] show ?thesis by simp
qed (simp add: rnd_def)

text \<open>
  Rounding does not cross a value with 52 fractional bits, as long as the argument is below two.
\<close>

lemma half_even_ge:
  assumes "of_int k \<le> x"
  shows "k \<le> half_even x"
proof -
  from assms have "k \<le> \<lfloor>x\<rfloor>" by (simp add: le_floor_iff)
  then show ?thesis by (auto simp: half_even_def Let_def)
qed

lemma half_even_le:
  assumes "x \<le> of_int k"
  shows "half_even x \<le> k"
proof (cases "x = of_int k")
  case False
  with assms have "\<lfloor>x\<rfloor> + 1 \<le> k" by (simp add: floor_less_iff flip: less_iff_succ_less_eq)
  then show ?thesis by (simp add: half_even_def Let_def)
qed simp

lemma rnd_grid:
  assumes "0 < x" "x < 2" and a: "a = of_int k / 2 ^ 52"
  shows "a \<le> x \<Longrightarrow> a \<le> rnd x" "x \<le> a \<Longrightarrow> rnd x \<le> a"
proof -
  have "exponent x < 1"
  proof (rule ccontr)
    assume "\<not> exponent x < 1"
    then have "pow2 1 \<le> pow2 (exponent x)" by (intro pow2_mono) simp
    also have "\<dots> \<le> x" by (rule exponent_le) (rule assms)
    finally show False using assms by (simp add: pow2_def)
  qed
  define m where "m = nat (52 - exponent x)"
  define l where "l = m - 52"
  from \<open>exponent x < 1\<close> have m: "exponent x - 52 + int m = 0" "m = 52 + l"
    by (simp_all add: m_def l_def)
  then have u: "ulp x * 2 ^ m = 1"
    using pow2_add_nat [of "exponent x - 52" m] assms by (simp add: ulp_def pow2_def)
  then have "2 ^ l * ulp x = 1 / 2 ^ 52" unfolding m(2) by (simp add: power_add field_simps)
  then have ak: "a = of_int (k * 2 ^ l) * ulp x" by (simp add: a mult.assoc)
  have r: "rnd x = of_int (half_even (x / ulp x)) * ulp x" using assms by (simp add: rnd_def)
  {
    assume "a \<le> x"
    then have "of_int (k * 2 ^ l) \<le> x / ulp x" unfolding ak by (simp only: pos_le_divide_eq ulp_pos)
    from half_even_ge [OF this] show "a \<le> rnd x"
      unfolding r ak by (intro mult_right_mono) (simp_all only: of_int_le_iff less_imp_le ulp_pos)
  next
    assume "x \<le> a"
    then have "x / ulp x \<le> of_int (k * 2 ^ l)" unfolding ak by (simp only: pos_divide_le_eq ulp_pos)
    from half_even_le [OF this] show "rnd x \<le> a"
      unfolding r ak by (intro mult_right_mono) (simp_all only: of_int_le_iff less_imp_le ulp_pos)
  }
qed

text \<open>An integer of at most 53 bits converts exactly.\<close>

lemma f_of_int_exact:
  assumes "\<bar>n\<bar> < 2 ^ 53"
  shows "f_of_int n = of_int n"
proof (cases "n = 0")
  case False
  let ?e = "exponent \<bar>of_int n\<bar>"
  have "pow2 ?e \<le> of_int \<bar>n\<bar>" using False exponent_le [of "of_int \<bar>n\<bar>"] by simp
  also have "\<dots> < of_int (2 ^ 53)" using assms by (simp only: of_int_less_iff)
  finally have lt: "pow2 ?e < pow2 53" by (simp add: pow2_def)
  have "?e < 53"
  proof (rule ccontr)
    assume "\<not> ?e < 53"
    with pow2_mono [of 53 ?e] lt show False by simp
  qed
  define k where "k = nat (52 - ?e)"
  with \<open>?e < 53\<close> have k: "?e - 52 + int k = 0" by simp
  then have "ulp (of_int n) * 2 ^ k = 1"
    using pow2_add_nat [of "?e - 52" k] by (simp add: ulp_def pow2_def)
  then have "of_int n / ulp (of_int n) = (of_int (n * 2 ^ k) :: rat)"
    by (simp add: field_simps)
  moreover from this have "of_int (n * 2 ^ k) * ulp (of_int n) = (of_int n :: rat)"
    by (metis nonzero_eq_divide_eq ulp_pos less_irrefl)
  ultimately show ?thesis using False by (simp add: f_of_int_def rnd_def del: of_int_mult)
qed (simp add: f_of_int_def rnd_def)

lemma f_to_i64_bounds:
  assumes "0 \<le> x" "x < 2 ^ 63"
  shows "of_int (f_to_i64 x) \<le> x" "x < of_int (f_to_i64 x) + 1" "0 \<le> f_to_i64 x"
proof -
  have "\<lfloor>x\<rfloor> < 2 ^ 63" using assms by (simp add: floor_less_iff)
  then have "f_to_i64 x = \<lfloor>x\<rfloor>" using assms by (simp add: f_to_i64_def Let_def)
  with assms show "of_int (f_to_i64 x) \<le> x" "x < of_int (f_to_i64 x) + 1" "0 \<le> f_to_i64 x"
    by (simp_all) linarith
qed

end
