(* ===== verification/RelayOutbox.thy ===== *)
theory RelayOutbox
  imports Database PublishBatch Float64
begin

text \<open>
  The relay's adapters to \<open>accounts.outbox\<close>, \<open>outbox_relay.go\<close> and \<open>publish_uow.go\<close>
  of \<open>internal/accounts/infrastructure/postgres\<close>: the claim and the three marks, bound to one
  transaction, the purge and the statistics on the pool, and the relay's unit of work.  Each SQL
  text is a function on the rows it reads; the interpretation in \<open>Relay\<close> shows that the adapter
  keeps the contract \<open>relay_ports\<close> of the application.
\<close>

subsection \<open>The claim\<close>

text \<open>
  The predicate of \<open>claimPending\<close>, as \<open>FOR UPDATE SKIP LOCKED\<close> evaluates it: pending, due
  at the transaction's start, and not locked by another session.
\<close>

definition due :: "time \<Rightarrow> int list \<Rightarrow> outbox_row \<Rightarrow> bool" where
  "due now locked r \<longleftrightarrow>
     bk_status r = StatusPending \<and> bk_available r \<le> now \<and> row_id r \<notin> set locked"

definition limit_error :: gerr where
  "limit_error = PgError ''2201W'' [] ''LIMIT must not be negative''"

definition claimPending :: "int \<Rightarrow> outbox_row list stmt" where
  "claimPending limit w t =
     (if limit < 0 then (Inl limit_error, w_seq w)
      else (let rows = take (nat limit)
                  (sort_key row_id (filter (due (tx_now t) (w_locked w)) (tx_view w t)))
            in (Inr (rows, t\<lparr>tx_locks := tx_locks t @ map row_id rows\<rparr>), w_seq w)))"

definition scan_row :: "outbox_row \<Rightarrow> PendingMessage" where
  "scan_row r =
     \<lparr>env_EventID = row_event_id r, env_AggregateType = row_aggregate_type r,
      env_AggregateID = row_aggregate_id r, env_EventType = row_event_type r,
      env_SchemaVersion = row_schema_version r, env_Payload = row_payload r,
      env_Headers = row_headers r, env_OccurredAt = row_occurred_at r,
      pm_ID = row_id r, pm_Attempts = bk_attempts r\<rparr>"

fun scan_rows :: "(int \<Rightarrow> gerr option) \<Rightarrow> outbox_row list \<Rightarrow> gerr + PendingMessage list" where
  "scan_rows verdict [] = Inr []"
| "scan_rows verdict (r # rs) =
     (case verdict (row_id r) of
        Some err \<Rightarrow> Inl (wrapf ''postgres: scan outbox row'' err)
      | None \<Rightarrow>
          (case scan_rows verdict rs of
             Inl err \<Rightarrow> Inl err
           | Inr batch \<Rightarrow> Inr (scan_row r # batch)))"

text \<open>\<open>rows.Err()\<close> reports a failure while the result was being read.\<close>

definition rows_Err :: "unit stmt" where
  "rows_Err w t = (Inr ((), t), w_seq w)"

definition RelayOutbox_ClaimPending :: "int \<Rightarrow> (world, gerr + PendingMessage list) act" where
  "RelayOutbox_ClaimPending limit w =
     (case in_tx (claimPending limit) w of
        (Inl err, w) \<Rightarrow> (Inl (wrapf ''postgres: claim outbox'' err), w)
      | (Inr rows, w) \<Rightarrow>
          (case scan_rows (env_scan (w_env w) (w_tick w)) rows of
             Inl err \<Rightarrow> (Inl err, w)
           | Inr batch \<Rightarrow>
               (case in_tx rows_Err w of
                  (Inl err, w) \<Rightarrow> (Inl (wrapf ''postgres: claim outbox'' err), w)
                | (Inr _, w) \<Rightarrow> (Inr batch, w))))"

subsection \<open>The marks\<close>

text \<open>
  An \<open>UPDATE ... WHERE id = $1\<close>: its result is the number of rows, its effect an update of
  each.  On a row another session has locked it waits, and as long as the lock is held the wait
  can only end in an error.
\<close>

definition lock_wait_error :: gerr where
  "lock_wait_error = PgError ''57014'' [] ''canceling statement''"

definition update_row ::
    "int \<Rightarrow> (txn \<Rightarrow> outbox_row \<Rightarrow> gerr + outbox_row) \<Rightarrow> nat stmt" where
  "update_row i f w t =
     (let hits = filter (\<lambda>r. row_id r = i) (base_rows w t)
      in if i \<in> set (w_locked w) then (Inl lock_wait_error, w_seq w)
         else (case first_some (\<lambda>r. case f t (patched t r) of Inl e \<Rightarrow> Some e | Inr _ \<Rightarrow> None) hits of
             Some e \<Rightarrow> (Inl e, w_seq w)
           | None \<Rightarrow>
               (Inr (length hits,
                     t\<lparr>tx_patch := (tx_patch t)
                         (i := (\<lambda>r. case f t (patched t r) of Inl _ \<Rightarrow> r | Inr r' \<Rightarrow> r')),
                       tx_locks := tx_locks t @ map row_id hits\<rparr>),
                w_seq w)))"

definition set_published :: "txn \<Rightarrow> outbox_row \<Rightarrow> gerr + outbox_row" where
  "set_published t r =
     Inr (r\<lparr>bk_status := StatusPublished, bk_error := None, row_published_at := Some (tx_now t)\<rparr>)"

definition integer_out_of_range :: gerr where
  "integer_out_of_range = PgError ''22003'' [] ''integer out of range''"

definition set_rescheduled :: "time \<Rightarrow> string \<Rightarrow> txn \<Rightarrow> outbox_row \<Rightarrow> gerr + outbox_row" where
  "set_rescheduled availableAt lastError t r =
     (if bk_attempts r + 1 > 2 ^ 31 - 1 then Inl integer_out_of_range
      else Inr (r\<lparr>bk_attempts := bk_attempts r + 1, bk_available := availableAt,
                   bk_error := Some lastError\<rparr>))"

definition set_failed :: "string \<Rightarrow> txn \<Rightarrow> outbox_row \<Rightarrow> gerr + outbox_row" where
  "set_failed lastError t r = Inr (r\<lparr>bk_status := StatusFailed, bk_error := Some lastError\<rparr>)"

definition mark_prefix :: "string \<Rightarrow> int \<Rightarrow> string" where
  "mark_prefix what i = ''postgres: '' @ what @ '' (outbox id '' @ Itoa i @ '')''"

definition markOne ::
    "string \<Rightarrow> int \<Rightarrow> (txn \<Rightarrow> outbox_row \<Rightarrow> gerr + outbox_row) \<Rightarrow> (world, gerr option) act" where
  "markOne what i f w =
     (case in_tx (update_row i f) w of
        (Inl err, w) \<Rightarrow> (Some (wrapf (mark_prefix what i) err), w)
      | (Inr affected, w) \<Rightarrow>
          if affected \<noteq> 1
          then (Some (Errorf (mark_prefix what i @ '': '' @ Itoa (int affected) @
                              '' rows affected, want 1'') []), w)
          else (None, w))"

definition RelayOutbox_MarkPublished :: "int \<Rightarrow> (world, gerr option) act" where
  "RelayOutbox_MarkPublished i = markOne ''mark published'' i set_published"

text \<open>\<open>stamp\<close> is the driver's rounding of a \<open>time.Time\<close> to \<open>TIMESTAMPTZ\<close>.\<close>

definition RelayOutbox_Reschedule ::
    "(time \<Rightarrow> time) \<Rightarrow> int \<Rightarrow> time \<Rightarrow> string \<Rightarrow> (world, gerr option) act" where
  "RelayOutbox_Reschedule stamp i availableAt lastError =
     markOne ''reschedule'' i (set_rescheduled (stamp availableAt) lastError)"

definition RelayOutbox_MarkFailed :: "int \<Rightarrow> string \<Rightarrow> (world, gerr option) act" where
  "RelayOutbox_MarkFailed i lastError = markOne ''mark failed'' i (set_failed lastError)"

definition NewRelayOutbox :: "(time \<Rightarrow> time) \<Rightarrow> world OutboxRepository" where
  "NewRelayOutbox stamp =
     \<lparr>ClaimPending = RelayOutbox_ClaimPending, MarkPublished = RelayOutbox_MarkPublished,
      Reschedule = RelayOutbox_Reschedule stamp, MarkFailed = RelayOutbox_MarkFailed\<rparr>"

subsection \<open>The unit of work\<close>

definition PublishUnitOfWork_Do :: "(time \<Rightarrow> time) \<Rightarrow> (world, 'r) PublishUnitOfWork" where
  "PublishUnitOfWork_Do stamp fn = WithTx (fn (NewRelayOutbox stamp))"

subsection \<open>The purge\<close>

definition purgeable :: "time \<Rightarrow> outbox_row \<Rightarrow> bool" where
  "purgeable before r \<longleftrightarrow>
     bk_status r = StatusPublished \<and>
     (case row_published_at r of None \<Rightarrow> False | Some p \<Rightarrow> p < before)"

definition purge_ids :: "time \<Rightarrow> int \<Rightarrow> outbox_row list \<Rightarrow> int list" where
  "purge_ids before limit rows = take (nat limit) (sort (map row_id (filter (purgeable before) rows)))"

definition purgePublished ::
    "rat \<Rightarrow> int \<Rightarrow> time \<Rightarrow> world \<Rightarrow> gerr + int \<times> outbox_row list" where
  "purgePublished secs limit now w =
     (if limit < 0 then Inl limit_error
      else (let ids = purge_ids (now - env_interval (w_env w) secs) limit (w_outbox w);
                rest = filter (\<lambda>r. row_id r \<notin> set ids) (w_outbox w)
            in Inr (int (length (w_outbox w)) - int (length rest), rest)))"

definition OutboxPurger_PurgePublished :: "duration \<Rightarrow> int \<Rightarrow> (world, gerr + int) act" where
  "OutboxPurger_PurgePublished retention limit w =
     (case on_pool (purgePublished (Seconds retention) limit) w of
        (Inl err, w) \<Rightarrow> (Inl (wrapf ''postgres: purge published outbox rows'' err), w)
      | (Inr deleted, w) \<Rightarrow> (Inr deleted, w))"

subsection \<open>The statistics\<close>

definition pending_row :: "outbox_row \<Rightarrow> bool" where
  "pending_row r \<longleftrightarrow> bk_status r = StatusPending"

text \<open>
  \<open>outboxStats\<close>: the counts, and the age of the oldest pending row in seconds as the driver
  hands the \<open>numeric\<close> value over, a float.
\<close>

definition oldest_age_s :: "time \<Rightarrow> outbox_row list \<Rightarrow> rat" where
  "oldest_age_s now rows =
     (case map row_occurred_at (filter pending_row rows) of
        [] \<Rightarrow> 0
      | t # ts \<Rightarrow> rnd (of_int (now - foldl min t ts) / 1000000000))"

definition count_rows :: "(outbox_row \<Rightarrow> bool) \<Rightarrow> outbox_row list \<Rightarrow> int" where
  "count_rows p rows = int (length (filter p rows))"

definition outboxStats ::
    "int \<Rightarrow> time \<Rightarrow> world \<Rightarrow> gerr + (int \<times> rat \<times> int \<times> int) \<times> outbox_row list" where
  "outboxStats maxAttempts now w =
     Inr ((count_rows pending_row (w_outbox w), oldest_age_s now (w_outbox w),
           count_rows (\<lambda>r. bk_status r = StatusFailed) (w_outbox w),
           count_rows (\<lambda>r. pending_row r \<and> bk_attempts r \<ge> maxAttempts) (w_outbox w)), w_outbox w)"

definition OutboxStatsReader_Read :: "world OutboxStatsReader" where
  "OutboxStatsReader_Read maxAttempts w =
     (case on_pool (outboxStats maxAttempts) w of
        (Inl err, w) \<Rightarrow> (Inl (wrapf ''postgres: outbox stats'' err), w)
      | (Inr (backlog, oldestPendingAgeS, failed, stuck), w) \<Rightarrow>
          (Inr \<lparr>Backlog = backlog, OldestPendingAge = f_to_i64 (f_mul oldestPendingAgeS 1000000000),
                FailedRows = failed, StuckRows = stuck\<rparr>, w))"

end
