(* ===== verification/KafkaPublisher.thy ===== *)
theory KafkaPublisher
  imports Database
begin

text \<open>
  The broker adapter, \<open>internal/accounts/infrastructure/kafka/publisher.go\<close>: a message becomes
  a record with sorted headers, and an error of the client becomes one of the application's two
  error classes.
\<close>

subsection \<open>Records\<close>

definition recordHeaders :: "gomap \<Rightarrow> gomap" where
  "recordHeaders h =
     map (\<lambda>key. (key, case map_of h key of None \<Rightarrow> [] | Some val \<Rightarrow> val)) (sort (map fst h))"

definition record_of :: "Message \<Rightarrow> kafka_record" where
  "record_of msg = \<lparr>rec_Topic = msg_Topic msg, rec_Key = msg_Key msg, rec_Value = msg_Payload msg,
     rec_Headers = recordHeaders (msg_Headers msg)\<rparr>"

subsection \<open>Error classes\<close>

text \<open>\<open>UNKNOWN_TOPIC_OR_PARTITION\<close> and \<open>UNKNOWN_TOPIC_ID\<close> of the Kafka protocol.\<close>

definition permanentCodes :: "int list" where
  "permanentCodes = [3, 100]"

text \<open>\<open>fmt.Errorf("%w: %w", class, err)\<close>.\<close>

definition in_class :: "gerr \<Rightarrow> gerr \<Rightarrow> gerr" where
  "in_class c err = Errorf (error_text c @ '': '' @ error_text err) [c, err]"

definition classify :: "gerr option \<Rightarrow> gerr option" where
  "classify e =
     (case e of
        None \<Rightarrow> None
      | Some err \<Rightarrow>
          (case errors_As_kafka err of
             None \<Rightarrow> Some (in_class ErrTransient err)
           | Some (code, retriable) \<Rightarrow>
               if code \<in> set permanentCodes \<or> \<not> retriable then Some (in_class ErrPermanent err)
               else Some (in_class ErrTransient err)))"

subsection \<open>Produce\<close>

text \<open>\<open>ProduceSync\<close> answers once the broker has, or the client has given up.\<close>

definition ProduceSync :: "kafka_record \<Rightarrow> (world, gerr option) act" where
  "ProduceSync r w =
     (case env_produce (w_env w) (w_tick w) of
        Acked \<Rightarrow> (None, (tick w)\<lparr>w_broker := w_broker w @ [r]\<rparr>)
      | Refused e \<Rightarrow> (Some (client_gerr e), tick w)
      | AckLost e \<Rightarrow> (Some (client_gerr e), (tick w)\<lparr>w_broker := w_broker w @ [r]\<rparr>))"

definition Publisher_Publish :: "world EventPublisher" where
  "Publisher_Publish msg w =
     (case ProduceSync (record_of msg) w of
        (Some err, w) \<Rightarrow> (classify (Some err), w)
      | (None, w) \<Rightarrow> (None, w))"

subsection \<open>Facts\<close>

lemma client_gerr_foreign [simp]: "\<not> errors_Is (client_gerr e) (New t)"
  by (induction e) auto

lemma in_class_Is [simp]:
  "errors_Is (in_class c err) (New t) \<longleftrightarrow> errors_Is c (New t) \<or> errors_Is err (New t)"
  by (simp add: in_class_def)

lemma classify_Some:
  assumes "classify (Some err) = Some e"
  shows "e = in_class ErrTransient err \<or> e = in_class ErrPermanent err"
  using assms by (auto simp: classify_def split: option.splits if_splits)

lemma classify_not_None [simp]: "classify (Some err) \<noteq> None"
  by (auto simp: classify_def split: option.splits)

lemma classify_one_class:
  assumes "classify (Some (client_gerr err)) = Some e"
  shows "errors_Is e ErrTransient \<noteq> errors_Is e ErrPermanent"
  using classify_Some [OF assms] by (auto simp: relay_errors)

lemma Publisher_Publish_cases:
  assumes "Publisher_Publish m w = (x, w')"
  obtains
    (acked) "x = None" "w' = (tick w)\<lparr>w_broker := w_broker w @ [record_of m]\<rparr>"
  | (refused) e where "x = classify (Some (client_gerr e))" "w' = tick w"
  | (lost) e where "x = classify (Some (client_gerr e))"
      "w' = (tick w)\<lparr>w_broker := w_broker w @ [record_of m]\<rparr>"
  using assms by (auto simp: Publisher_Publish_def ProduceSync_def split: produce_reply.splits)

lemma sorted_recordHeaders: "sorted (map fst (recordHeaders h))"
  by (simp add: recordHeaders_def comp_def)

lemma set_recordHeaders:
  assumes "distinct (map fst h)"
  shows "set (recordHeaders h) = set h"
proof -
  have "(k, case map_of h k of None \<Rightarrow> [] | Some val \<Rightarrow> val) \<in> set h" if "(k, v) \<in> set h" for k v
    using that map_of_is_SomeI [OF assms that] by simp
  moreover have "(k, v) \<in> set (recordHeaders h)" if "(k, v) \<in> set h" for k v
    using that map_of_is_SomeI [OF assms that] by (force simp: recordHeaders_def)
  ultimately show ?thesis by (auto simp: recordHeaders_def)
qed

lemma distinct_recordHeaders: "distinct (map fst h) \<Longrightarrow> distinct (map fst (recordHeaders h))"
  by (simp add: recordHeaders_def comp_def)

lemma map_of_recordHeaders: "distinct (map fst h) \<Longrightarrow> map_of (recordHeaders h) = map_of h"
  by (simp add: map_of_inject_set distinct_recordHeaders set_recordHeaders)

end
