(* ===== verification/Backoff.thy ===== *)
theory Backoff
  imports Float64
begin

text \<open>
  The retry arithmetic of \<open>internal/platform/backoff/backoff.go\<close>.  Durations are 64-bit
  integers with wrap-around, the jitter a float; the lemmas give the doubling its closed form
  \<open>min cap (base * 2 ^ n)\<close> and bound what the jitter makes of it.
\<close>

record 'w Exponential =
  Base :: duration
  Cap :: duration
  Jitter :: "('w, rat) act"

text \<open>\<open>Factor\<close> adds one half to \<open>rand.Float64\<close>, which is an argument.\<close>

definition Factor :: "('w, rat) act \<Rightarrow> ('w, rat) act" where
  "Factor rand w = (let (r, w) = rand w in (f_add (1 / 2) r, w))"

definition NewExponential :: "('w, rat) act \<Rightarrow> duration \<Rightarrow> duration \<Rightarrow> 'w Exponential" where
  "NewExponential rand base cap = \<lparr>Base = base, Cap = cap, Jitter = Factor rand\<rparr>"

text \<open>The loop \<open>for range attempts\<close>, its \<open>break\<close> an early return.\<close>

fun grow :: "duration \<Rightarrow> nat \<Rightarrow> duration \<Rightarrow> duration" where
  "grow cap 0 delay = delay"
| "grow cap (Suc n) delay =
     (if delay \<ge> quot cap 2 then cap else grow cap n (i64 (delay * 2)))"

text \<open>\<open>time.Duration(float64(delay) * jitter)\<close>.\<close>

definition jittered :: "duration \<Rightarrow> rat \<Rightarrow> duration" where
  "jittered d j = f_to_i64 (f_mul (f_of_int d) j)"

definition After :: "'w Exponential \<Rightarrow> int \<Rightarrow> ('w, duration) act" where
  "After e attempts w =
     (let delay = grow (Cap e) (nat attempts) (min (Base e) (Cap e));
          (j, w) = Jitter e w
      in (jittered delay j, w))"

subsection \<open>The doubling\<close>

text \<open>
  The documented closed form.  \<open>Cap / 2\<close> truncates, so for an odd cap a delay of one nanosecond less
  becomes the cap (\<open>grow_exact\<close>).
\<close>

definition ladder :: "duration \<Rightarrow> duration \<Rightarrow> nat \<Rightarrow> duration" where
  "ladder base cap n = min cap (base * 2 ^ n)"

lemma grow_exact:
  assumes "0 < delay" "delay \<le> cap" "cap \<le> max_i64"
  shows "grow cap n delay = (if 0 < n \<and> delay * 2 ^ n = cap - 1 then cap else ladder delay cap n)"
  using assms
proof (induction n arbitrary: delay)
  case 0
  then show ?case by (simp add: ladder_def)
next
  case (Suc n)
  have q: "quot cap 2 = cap div 2" using Suc.prems by (simp add: quot_nonneg)
  show ?case
  proof (cases "delay \<ge> cap div 2")
    case True
    then have g: "grow cap (Suc n) delay = cap" by (simp add: q)
    have "delay * 2 * 1 \<le> delay * 2 * 2 ^ n"
      using Suc.prems by (intro mult_left_mono) simp_all
    with True have "cap - 1 \<le> delay * 2 ^ Suc n" by (simp add: mult.assoc mult.left_commute)
    then show ?thesis unfolding g ladder_def by auto
  next
    case False
    then have d: "delay * 2 < cap" "i64 (delay * 2) = delay * 2" using Suc.prems by auto
    have "grow cap (Suc n) delay = grow cap n (delay * 2)" using False d(2) by (simp add: q)
    also have "\<dots> = (if 0 < n \<and> delay * 2 * 2 ^ n = cap - 1 then cap else ladder (delay * 2) cap n)"
      using d(1) Suc.prems by (intro Suc.IH) simp_all
    also have "\<dots> = (if 0 < Suc n \<and> delay * 2 ^ Suc n = cap - 1 then cap else ladder delay cap (Suc n))"
      using False by (cases n) (auto simp: ladder_def mult_ac)
    finally show ?thesis .
  qed
qed

lemma grow_below:
  assumes "0 < delay" "delay \<le> cap" "cap \<le> max_i64"
  shows "grow cap n delay = ladder delay cap n \<or> grow cap n delay = cap \<and> ladder delay cap n = cap - 1"
  unfolding grow_exact [OF assms] by (auto simp: ladder_def)

lemma grow_bounds:
  assumes "0 < base" "0 < cap" "cap \<le> max_i64"
  shows "min base cap \<le> grow cap n (min base cap)" "grow cap n (min base cap) \<le> cap"
    "0 < grow cap n (min base cap)"
proof -
  let ?d = "min base cap"
  have d: "0 < ?d" "?d \<le> cap" using assms by auto
  have "?d * 1 \<le> ?d * 2 ^ n" using d by (intro mult_left_mono) simp_all
  then have "?d \<le> ladder ?d cap n" using d by (simp add: ladder_def)
  with grow_below [OF d assms(3), of n] d
  show "?d \<le> grow cap n ?d" "grow cap n ?d \<le> cap" by (auto simp: ladder_def)
  with d show "0 < grow cap n ?d" by linarith
qed

lemma grow_mono:
  assumes "0 < delay" "delay \<le> cap" "cap \<le> max_i64"
  shows "grow cap n delay \<le> grow cap (Suc n) delay"
  using assms
proof (induction n arbitrary: delay)
  case 0
  then show ?case by (auto simp: quot_nonneg)
next
  case (Suc n)
  show ?case
  proof (cases "delay \<ge> quot cap 2")
    case False
    then have "delay * 2 \<le> cap" "i64 (delay * 2) = delay * 2"
      using Suc.prems by (auto simp: quot_nonneg)
    with False Suc.IH [of "delay * 2"] Suc.prems show ?thesis
      by (simp del: grow.simps(2) add: grow.simps(2) [of cap "Suc n" delay] grow.simps(2) [of cap n delay])
  qed simp
qed

subsection \<open>The jitter\<close>

text \<open>\<open>rand.Float64\<close> is in \<open>[0, 1)\<close>.\<close>

definition unit_draws :: "('w, rat) act \<Rightarrow> bool" where
  "unit_draws rand \<longleftrightarrow> (\<forall>w r w'. rand w = (r, w') \<longrightarrow> 0 \<le> r \<and> r < 1)"

lemma Factor_range:
  assumes "unit_draws rand" "Factor rand w = (j, w')"
  shows "1 / 2 \<le> j" "j \<le> 3 / 2"
proof -
  obtain r where r: "rand w = (r, w')" "j = rnd (1 / 2 + r)"
    using assms(2) by (cases "rand w") (auto simp: Factor_def f_add_def)
  with assms(1) have b: "0 \<le> r" "r < 1" by (auto simp: unit_draws_def)
  from b show "1 / 2 \<le> j" unfolding r(2)
    by (intro rnd_grid(1) [where k = "2 ^ 51"]) simp_all
  from b show "j \<le> 3 / 2" unfolding r(2)
    by (intro rnd_grid(2) [where k = "3 * 2 ^ 51"]) simp_all
qed

text \<open>
  The product of a delay and the factor, converted back: both roundings together move it by less than
  five parts in \<open>2 ^ 54\<close>.
\<close>

lemma near_twice:
  fixes p q y :: rat
  assumes "\<bar>q - p\<bar> \<le> p / 2 ^ 53" "\<bar>y - q\<bar> \<le> q / 2 ^ 53" "0 \<le> p"
  shows "\<bar>y - p\<bar> \<le> 5 * p / 2 ^ 54" "0 \<le> y"
proof -
  note c = abs_le_D1 [OF assms(1)] abs_le_D2 [OF assms(1)] abs_le_D1 [OF assms(2)] abs_le_D2 [OF assms(2)]
  show "\<bar>y - p\<bar> \<le> 5 * p / 2 ^ 54" using c assms(3) by (intro abs_leI) simp_all
  show "0 \<le> y" using c assms(3) by simp
qed

lemma near_half:
  fixes d p y :: rat
  assumes "\<bar>y - p\<bar> \<le> 5 * p / 2 ^ 54" "d * (1 / 2) \<le> p" "p \<le> d * (3 / 2)" "0 \<le> d"
  shows "d * (1 / 2) - d / 2 ^ 51 \<le> y" "y \<le> d * (3 / 2) + d / 2 ^ 51"
  using abs_le_D1 [OF assms(1)] abs_le_D2 [OF assms(1)] assms(2-4) by simp_all

lemma two_roundings:
  fixes d j :: rat
  assumes "0 \<le> d" "0 \<le> j" "\<bar>x - d\<bar> \<le> \<bar>d\<bar> / 2 ^ 53" "\<bar>y - x * j\<bar> \<le> \<bar>x * j\<bar> / 2 ^ 53"
  shows "\<bar>y - d * j\<bar> \<le> 5 * (d * j) / 2 ^ 54" "0 \<le> y"
proof -
  have x: "\<bar>x - d\<bar> \<le> d / 2 ^ 53" using assms(1,3) by simp
  from abs_le_D2 [OF this] have x0: "0 \<le> x" using assms(1) by simp
  have "\<bar>x * j - d * j\<bar> = \<bar>x - d\<bar> * j" using assms(2) by (simp add: abs_mult flip: left_diff_distrib)
  also have "\<dots> \<le> d / 2 ^ 53 * j" using x assms(2) by (rule mult_right_mono)
  finally have a: "\<bar>x * j - d * j\<bar> \<le> d * j / 2 ^ 53" by simp
  have p: "0 \<le> d * j" "0 \<le> x * j" using assms x0 by simp_all
  with assms(4) have b: "\<bar>y - x * j\<bar> \<le> x * j / 2 ^ 53" by simp
  from near_twice [OF a b p(1)] show "\<bar>y - d * j\<bar> \<le> 5 * (d * j) / 2 ^ 54" "0 \<le> y" .
qed

lemma jittered_bounds:
  assumes "0 < d" "d \<le> 2 ^ 62" "1 / 2 \<le> j" "j \<le> 3 / 2"
  defines "r \<equiv> jittered d j"
  shows "d - d div 2 ^ 50 - 2 \<le> 2 * r" "2 * r \<le> 3 * d + d div 2 ^ 50" "0 \<le> r"
proof -
  let ?d = "of_int d :: rat"
  let ?y = "rnd (f_of_int d * j)"
  have d: "0 \<le> ?d" "?d \<le> 2 ^ 62"
    using assms of_int_le_iff [of d "2 ^ 62", where ?'a = rat] by simp_all
  have e: "\<bar>?y - ?d * j\<bar> \<le> 5 * (?d * j) / 2 ^ 54" and y0: "0 \<le> ?y"
    using two_roundings [of ?d j "f_of_int d" ?y] d assms(3) rnd_error [of ?d] rnd_error [of "f_of_int d * j"]
    by (simp_all add: f_of_int_def)
  have lo: "?d * (1 / 2) \<le> ?d * j" and hi: "?d * j \<le> ?d * (3 / 2)"
    using assms d by (intro mult_left_mono; simp)+
  note y = near_half [OF e lo hi d(1)]
  then have "?y < 2 ^ 63" using d by simp
  note b = f_to_i64_bounds [OF y0 this]
  have r: "r = f_to_i64 ?y" by (simp add: r_def jittered_def f_mul_def)
  have q: "?d < of_int (2 ^ 50 * (d div 2 ^ 50 + 1))"
    unfolding of_int_less_iff using pos_mod_bound [of "2 ^ 50" d] div_mult_mod_eq [of d "2 ^ 50"] by simp
  have "of_int (d - d div 2 ^ 50 - 3) < (of_int (2 * r) :: rat)" using b(2) y(1) q by (simp add: r field_simps)
  then show "d - d div 2 ^ 50 - 2 \<le> 2 * r" by (simp only: of_int_less_iff)
  have "(of_int (2 * r) :: rat) < of_int (3 * d + d div 2 ^ 50 + 1)" using b(1) y(2) q by (simp add: r field_simps)
  then show "2 * r \<le> 3 * d + d div 2 ^ 50" by (simp only: of_int_less_iff)
  show "0 \<le> r" using b by (simp add: r)
qed

subsection \<open>The properties of the schedule\<close>

lemma ladder_min: "0 < base \<Longrightarrow> 0 < cap \<Longrightarrow> ladder (min base cap) cap n = ladder base cap n"
proof (cases "base \<le> cap")
  case False
  assume "0 < base" "0 < cap"
  with False have "cap * 1 \<le> cap * 2 ^ n" "cap * 1 \<le> base * 2 ^ n"
    by (intro mult_left_mono mult_mono; simp)+
  with False show ?thesis by (simp add: ladder_def)
qed (simp add: min_def)

text \<open>
  C14: The doubling in closed form.  For positive \<open>Base\<close> and \<open>Cap\<close> of any size the delay before the
  jitter is \<open>min Cap (Base * 2 ^ n)\<close>, computed over the integers, so no step of the 64-bit loop wraps,
  with one exception to the documented formula: where \<open>Base * 2 ^ n\<close> is one nanosecond below the cap
  and \<open>n\<close> is not zero, the delay is the cap.  It never shrinks as the attempts grow, and is never below
  \<open>min Base Cap\<close> or above \<open>Cap\<close>.
\<close>

theorem backoff_ladder:
  assumes "0 < base" "0 < cap" "cap \<le> max_i64"
  defines "delay \<equiv> \<lambda>n. grow cap n (min base cap)"
  shows "delay n = (if 0 < n \<and> base * 2 ^ n = cap - 1 then cap else min cap (base * 2 ^ n)) \<and>
    delay n \<le> delay (Suc n) \<and> min base cap \<le> delay n \<and> delay n \<le> cap"
proof -
  have d: "0 < min base cap" "min base cap \<le> cap" using assms by auto
  have low: "base \<le> base * 2 ^ n" "cap \<le> cap * 2 ^ n"
    using assms(1,2) mult_left_mono [of 1 "2 ^ n" base] mult_left_mono [of 1 "2 ^ n" cap] by simp_all
  then have "(min base cap * 2 ^ n = cap - 1) = (base * 2 ^ n = cap - 1)"
    by (cases "base \<le> cap") (simp_all add: min_def)
  then have "delay n = (if 0 < n \<and> base * 2 ^ n = cap - 1 then cap else min cap (base * 2 ^ n))"
    using ladder_min [OF assms(1,2), of n] by (simp only: delay_def grow_exact [OF d assms(3)] ladder_def)
  moreover have "delay n \<le> delay (Suc n)" unfolding delay_def by (rule grow_mono [OF d assms(3)])
  ultimately show ?thesis using grow_bounds(1,2) [OF assms(1-3), of n] by (simp only: delay_def simp_thms)
qed

lemma backoff_ladder_witness:
  "grow 300000000000 9 (min 1000000000 300000000000) = 300000000000 \<and>
   grow 3 1 (min 1 3) = 3 \<and> min 3 (1 * 2 ^ 1) = (2 :: int)"
proof -
  have "grow 300000000000 9 (min 1000000000 300000000000) = 300000000000"
    using conjunct1 [OF backoff_ladder [of 1000000000 300000000000 9]] by simp
  moreover have "grow 3 1 (min 1 3) = 3" using conjunct1 [OF backoff_ladder [of 1 3 1]] by simp
  ultimately show ?thesis by simp
qed

text \<open>
  C24: The schedule of \<open>NewExponential\<close>, jitter included.  For a cap of at most \<open>2 ^ 62\<close> nanoseconds
  (146 years) and a random source in \<open>[0, 1)\<close>, the wait lies between half of the closed form and one
  and a half times it, up to two nanoseconds and one part in \<open>2 ^ 50\<close> of rounding, and is never
  negative.  Some bound on the cap is needed, and nothing checks one: with the largest durations, which
  \<open>LoadRelay\<close> accepts, a factor of 1.25 takes the product out of the range of 64 bits, and its
  conversion (on amd64) is the most negative duration, a retry that is due at once.
\<close>

theorem backoff_jitter_bounds:
  assumes "0 < base" "0 < cap" "cap \<le> 2 ^ 62" "unit_draws rand"
    and "After (NewExponential rand base cap) attempts w = (d, w')"
  shows "ladder base cap (nat attempts) - ladder base cap (nat attempts) div 2 ^ 50 - 3 \<le> 2 * d \<and>
    2 * d \<le> 3 * ladder base cap (nat attempts) + ladder base cap (nat attempts) div 2 ^ 50 + 4 \<and> 0 \<le> d \<and>
    After (NewExponential (\<lambda>u :: unit. (3 / 4, u)) max_i64 max_i64) 0 () = (- (2 ^ 63), ())"
proof -
  let ?n = "nat attempts"
  let ?g = "grow cap ?n (min base cap)"
  let ?l = "ladder base cap ?n"
  have cap: "cap \<le> max_i64" using assms(3) by simp
  have m: "0 < min base cap" "min base cap \<le> cap" using assms(1,2) by auto
  obtain j where j: "Factor rand w = (j, w')" "d = jittered ?g j"
    using assms(5) by (auto simp: After_def NewExponential_def Let_def split: prod.splits)
  note b = grow_bounds [OF assms(1,2) cap, of ?n]
  have "?g \<le> 2 ^ 62" using b assms(3) by linarith
  note jb = jittered_bounds [OF b(3) this Factor_range [OF assms(4) j(1)], folded j(2)]
  from ladder_min [OF assms(1,2), of ?n] grow_below [OF m cap, of ?n]
  have g: "?g = ?l \<or> ?g = ?l + 1" by auto
  have step: "?l div 2 ^ 50 \<le> (?l + 1) div 2 ^ 50" "(?l + 1) div 2 ^ 50 \<le> ?l div 2 ^ 50 + 1"
    using zdiv_mono1 [of ?l "?l + 1" "2 ^ 50"] zdiv_mono1 [of "?l + 1" "?l + 2 ^ 50" "2 ^ 50"] by simp_all
  have "After (NewExponential (\<lambda>u :: unit. (3 / 4, u)) max_i64 max_i64) 0 () = (- (2 ^ 63), ())" by code_simp
  moreover from g jb step have "?l - ?l div 2 ^ 50 - 3 \<le> 2 * d \<and> 2 * d \<le> 3 * ?l + ?l div 2 ^ 50 + 4 \<and> 0 \<le> d"
    by (elim disjE) simp_all
  ultimately show ?thesis by blast
qed

lemma backoff_jitter_bounds_witness:
  "\<exists>d. After (NewExponential (\<lambda>u :: unit. (3 / 4, u)) 1000000000 300000000000) 3 () = (d, ()) \<and>
     d = 10000000000 \<and> ladder 1000000000 300000000000 3 - 3 \<le> 2 * d \<and>
     2 * d \<le> 3 * ladder 1000000000 300000000000 3 + 4 \<and> 0 \<le> d"
proof -
  have run: "After (NewExponential (\<lambda>u :: unit. (3 / 4, u)) 1000000000 300000000000) 3 () = (10000000000, ())"
    by code_simp
  have "unit_draws (\<lambda>u :: unit. (3 / 4, u))" by (simp add: unit_draws_def)
  from backoff_jitter_bounds [OF _ _ _ this run] run show ?thesis by (simp add: ladder_def)
qed

text \<open>
  The upper end of the factor.  The documentation gives the range \<open>[0.5, 1.5)\<close>; the sum is
  rounded, so the largest draw of \<open>rand.Float64\<close> gives exactly 1.5.
\<close>

lemma factor_can_be_three_halves:
  "Factor (\<lambda>u :: unit. ((2 ^ 53 - 1) / 2 ^ 53, u)) () = (3 / 2, ())"
  by code_simp

end
