(* ===== verification/Relay.thy ===== *)
theory Relay
  imports RelayOutbox KafkaPublisher Backoff
begin

text \<open>
  The relay pass on its adapters: the PostgreSQL outbox and the Kafka publisher satisfy the
  contract of the ports, so what \<open>PublishBatch\<close> proves of a pass holds of the program's relay.
  On top of it, what the transaction adds: only a commit changes the tables, and no row becomes
  published without its message in the broker.
\<close>

subsection \<open>The wiring of \<open>cmd/relay\<close>\<close>

definition relay_policy :: "int \<Rightarrow> duration \<Rightarrow> duration \<Rightarrow> int \<Rightarrow> world PublishPolicy" where
  "relay_policy batch base cap maxAttempts =
     \<lparr>BatchSize = batch, policy_Schedule = After (NewExponential rand_Float64 base cap),
      MaxAttempts = maxAttempts\<rparr>"

definition relay_use_case ::
    "(time \<Rightarrow> time) \<Rightarrow> Topics \<Rightarrow> world PublishPolicy \<Rightarrow> world PublishPendingBatch" where
  "relay_use_case stamp t po =
     NewPublishPendingBatch (PublishUnitOfWork_Do stamp) Publisher_Publish OutboxStatsReader_Read
       t System_Now po"

lemma relay_use_case_simps [port_simps]:
  "uow (relay_use_case stamp t po) = PublishUnitOfWork_Do stamp"
  "publisher (relay_use_case stamp t po) = Publisher_Publish"
  "stats (relay_use_case stamp t po) = OutboxStatsReader_Read"
  "topics (relay_use_case stamp t po) = t" "clock (relay_use_case stamp t po) = System_Now"
  "policy (relay_use_case stamp t po) = po"
  "policy_Schedule (relay_policy b base cap m) = After (NewExponential rand_Float64 base cap)"
  "BatchSize (relay_policy b base cap m) = b" "MaxAttempts (relay_policy b base cap m) = m"
  by (simp_all add: relay_use_case_def NewPublishPendingBatch_def relay_policy_def)

lemma NewRelayOutbox_simps [port_simps]:
  "ClaimPending (NewRelayOutbox stamp) = RelayOutbox_ClaimPending"
  "MarkPublished (NewRelayOutbox stamp) = RelayOutbox_MarkPublished"
  "Reschedule (NewRelayOutbox stamp) = RelayOutbox_Reschedule stamp"
  "MarkFailed (NewRelayOutbox stamp) = RelayOutbox_MarkFailed"
  by (simp_all add: NewRelayOutbox_def)

subsection \<open>The observers\<close>

definition row_of :: "world \<Rightarrow> int \<Rightarrow> outbox_row option" where
  "row_of w i =
     (case w_tx w of
        None \<Rightarrow> find (\<lambda>r. row_id r = i) (w_outbox w)
      | Some t \<Rightarrow> map_option (patched t) (find (\<lambda>r. row_id r = i) (base_rows w t)))"

definition book :: "world \<Rightarrow> int \<Rightarrow> booking option" where
  "book w i = map_option booking.truncate (row_of w i)"

lemma find_filter: "filter p xs = x # ys \<Longrightarrow> find p xs = Some x"
  by (induction xs) (auto split: if_splits)

lemma find_SomeD: "find p xs = Some x \<Longrightarrow> x \<in> set xs \<and> p x"
  by (induction xs) (auto split: if_splits)

lemma row_of_tick [simp]: "row_of (tick w) = row_of w"
  by (rule ext) (simp add: row_of_def base_rows_def split: option.split)

lemma book_cong: "w_tx w' = w_tx w \<Longrightarrow> w_outbox w' = w_outbox w \<Longrightarrow> book w' = book w"
  by (rule ext) (simp add: book_def row_of_def base_rows_def split: option.split)

text \<open>A mark that returned nil updated the one row with that id.\<close>

lemma markOne_None:
  assumes "markOne what i f w = (None, w')"
  obtains t r r' where "w_tx w = Some t" "\<not> tx_aborted t" "row_of w i = Some (patched t r)"
    "row_id r = i" "i \<notin> set (w_locked w)" "r \<in> set (base_rows w t)"
    "f t (patched t r) = Inr r'" "row_of w' = (row_of w)(i \<mapsto> r')" "w_broker w' = w_broker w"
    "same_db w w'" "w_tx w' = Some (t\<lparr>tx_patch := (tx_patch t)
         (i := (\<lambda>r. case f t (patched t r) of Inl _ \<Rightarrow> r | Inr r' \<Rightarrow> r')),
       tx_locks := tx_locks t @ [i]\<rparr>)"
proof -
  from assms obtain n where n: "in_tx (update_row i f) w = (Inr n, w')" "n = 1"
    by (auto simp: markOne_def split: sum.splits prod.splits if_splits)
  from n(1) obtain t t' s where t: "w_tx w = Some t" "\<not> tx_aborted t"
      "update_row i f w t = (Inr (n, t'), s)" "w' = (tick w)\<lparr>w_seq := s, w_tx := Some t'\<rparr>"
    by (rule in_tx_Inr)
  let ?hits = "filter (\<lambda>r. row_id r = i) (base_rows w t)"
  from t(3) have u: "i \<notin> set (w_locked w)" "n = length ?hits"
      "first_some (\<lambda>r. case f t (patched t r) of Inl e \<Rightarrow> Some e | Inr _ \<Rightarrow> None) ?hits = None"
      "t' = t\<lparr>tx_patch := (tx_patch t)
                (i := (\<lambda>r. case f t (patched t r) of Inl _ \<Rightarrow> r | Inr r' \<Rightarrow> r')),
              tx_locks := tx_locks t @ map row_id ?hits\<rparr>"
    by (auto simp: update_row_def Let_def split: if_splits option.splits)
  from u(2) n(2) obtain r where r: "?hits = [r]" by (cases ?hits) auto
  then have ri: "r \<in> set ?hits" by simp
  then have rid: "row_id r = i" and rin: "r \<in> set (base_rows w t)" by auto
  from u(3) r obtain r' where r': "f t (patched t r) = Inr r'"
    by (auto simp: first_some_None_iff split: sum.splits)
  have fi: "find (\<lambda>r. row_id r = i) (base_rows w t) = Some r" using r by (rule find_filter)
  have base: "base_rows w' t' = base_rows w t" by (simp add: t(4) u(4) base_rows_def)
  have "row_of w' j = ((row_of w)(i \<mapsto> r')) j" for j
  proof (cases "j = i")
    case True
    with fi t u(4) rid r' show ?thesis by (simp add: row_of_def base_rows_def patched_def)
  next
    case False
    have "map_option (patched t') (find (\<lambda>r. row_id r = j) (base_rows w t)) =
          map_option (patched t) (find (\<lambda>r. row_id r = j) (base_rows w t))"
      using False by (cases "find (\<lambda>r. row_id r = j) (base_rows w t)")
        (auto simp: patched_def u(4) dest: find_SomeD)
    with False t base show ?thesis by (simp add: row_of_def base_rows_def)
  qed
  then have "row_of w' = (row_of w)(i \<mapsto> r')" by (rule ext)
  moreover have "row_of w i = Some (patched t r)" using fi t(1) by (simp add: row_of_def)
  moreover have "w_tx w' = Some t'" by (simp add: t(4))
  ultimately show thesis
    using t u rid rin r' r by (intro that) (auto simp: same_db_def)
qed

lemma markOne_frame:
  assumes "markOne what i f w = (x, w')"
  shows "same_db w w'" "w_broker w' = w_broker w" "w_env w' = w_env w"
  using assms
  by (auto simp: markOne_def split: sum.splits prod.splits if_splits dest: in_tx_frame)

text \<open>What each mark does to the bookkeeping.\<close>

lemma settle_book:
  assumes "markOne what i f w = (None, w')"
    and "\<And>t r r'. f t r = Inr r' \<Longrightarrow> booking.truncate r' = outcome_booking stamp out (booking.truncate r)"
  shows "book w i \<noteq> None \<and> book w' = settle stamp [(i, out)] (book w)"
  using assms(1)
proof (rule markOne_None)
  fix t r r'
  assume "row_of w i = Some (patched t r)" "f t (patched t r) = Inr r'"
    "row_of w' = (row_of w)(i \<mapsto> r')"
  with assms(2) show ?thesis by (auto simp: book_def fun_eq_iff)
qed

lemma truncate_marks:
  "set_published t r = Inr r' \<Longrightarrow>
     booking.truncate r' = outcome_booking stamp Sent (booking.truncate r)"
  "set_failed e t r = Inr r' \<Longrightarrow>
     booking.truncate r' = outcome_booking stamp (Parked e) (booking.truncate r)"
  "set_rescheduled (stamp a) e t r = Inr r' \<Longrightarrow>
     booking.truncate r' = outcome_booking stamp (Retried a e) (booking.truncate r)"
  by (auto simp: set_published_def set_failed_def set_rescheduled_def booking.truncate_def
      split: if_splits)

subsection \<open>The contract of the ports holds\<close>

lemma System_Now_frame: "System_Now w = (x, w') \<Longrightarrow> w' = tick w"
  by (simp add: System_Now_def)

lemma After_frame: "After (NewExponential rand_Float64 base cap) n w = (d, w') \<Longrightarrow> w' = tick w"
  by (auto simp: After_def NewExponential_def Factor_def rand_Float64_def Let_def)

lemma book_tick [simp]: "book (tick w) = book w"
  by (rule ext) (simp add: book_def)

lemma Publish_laws:
  assumes "Publisher_Publish m w = (x, w')"
  shows "book w' = book w"
    and "x = None \<Longrightarrow> w_broker w' = w_broker w @ [record_of m]"
    and "w_broker w' = w_broker w \<or> w_broker w' = w_broker w @ [record_of m]"
    and "x = Some e \<Longrightarrow> errors_Is e ErrTransient \<noteq> errors_Is e ErrPermanent"
proof -
  show "book w' = book w"
    by (rule Publisher_Publish_cases [OF assms]; rule book_cong) simp_all
  show "x = None \<Longrightarrow> w_broker w' = w_broker w @ [record_of m]"
    by (rule Publisher_Publish_cases [OF assms]) (simp_all add: eq_commute [of None])
  show "w_broker w' = w_broker w \<or> w_broker w' = w_broker w @ [record_of m]"
    by (rule Publisher_Publish_cases [OF assms]) simp_all
  assume "x = Some e"
  with Publisher_Publish_cases [OF assms]
  obtain err where "classify (Some (client_gerr err)) = Some e" by (metis option.distinct(1))
  then show "errors_Is e ErrTransient \<noteq> errors_Is e ErrPermanent" by (rule classify_one_class)
qed

lemmas mark_defs = RelayOutbox_MarkPublished_def RelayOutbox_MarkFailed_def RelayOutbox_Reschedule_def

interpretation pass: relay_pass "relay_use_case stamp t (relay_policy b base cap m)"
  "NewRelayOutbox stamp" book w_broker record_of stamp
  for stamp t b base cap m
proof (unfold_locales, unfold port_simps)
  fix w w' x i r a
  show "System_Now w = (x, w') \<Longrightarrow> book w' = book w \<and> w_broker w' = w_broker w"
    by (auto dest!: System_Now_frame)
  show "After (NewExponential rand_Float64 base cap) i w = (x, w') \<Longrightarrow>
      book w' = book w \<and> w_broker w' = w_broker w"
    by (auto dest!: After_frame)
  show "RelayOutbox_MarkPublished i w = (None, w') \<Longrightarrow>
      book w i \<noteq> None \<and> book w' = settle stamp [(i, Sent)] (book w)"
    by (simp only: mark_defs) (rule settle_book, assumption, rule truncate_marks)
  show "RelayOutbox_MarkFailed i r w = (None, w') \<Longrightarrow>
      book w i \<noteq> None \<and> book w' = settle stamp [(i, Parked r)] (book w)"
    by (simp only: mark_defs) (rule settle_book, assumption, rule truncate_marks)
  show "RelayOutbox_Reschedule stamp i a r w = (None, w') \<Longrightarrow>
      book w i \<noteq> None \<and> book w' = settle stamp [(i, Retried a r)] (book w)"
    by (simp only: mark_defs) (rule settle_book, assumption, rule truncate_marks)
next
  fix w w' x m
  assume p: "Publisher_Publish m w = (x, w')"
  show "book w' = book w" by (rule Publish_laws) (rule p)
next
  fix w w' m
  assume p: "Publisher_Publish m w = (None, w')"
  show "w_broker w' = w_broker w @ [record_of m]" using Publish_laws(2) [OF p] by simp
next
  fix w w' m e
  assume p: "Publisher_Publish m w = (Some e, w')"
  show "w_broker w' = w_broker w \<or> w_broker w' = w_broker w @ [record_of m]"
    using Publish_laws(3) [OF p] by simp
  show "errors_Is e ErrTransient \<noteq> errors_Is e ErrPermanent"
    using Publish_laws(4) [OF p] by simp
qed (auto simp: mark_defs dest: markOne_frame)

subsection \<open>The statements keep the contents of a row\<close>

text \<open>What a producer wrote, as opposed to the relay's bookkeeping.\<close>

definition content where
  "content r = (row_id r, row_event_id r, row_aggregate_type r, row_aggregate_id r,
     row_event_type r, row_schema_version r, row_payload r, row_headers r, row_occurred_at r)"

lemma content_eqD: "content r = content s \<Longrightarrow> row_id r = row_id s"
  by (simp add: content_def)

lemma content_marks:
  "set_published t r = Inr r' \<Longrightarrow> content r' = content r"
  "set_failed e t r = Inr r' \<Longrightarrow> content r' = content r"
  "set_rescheduled a e t r = Inr r' \<Longrightarrow> content r' = content r"
  by (auto simp: set_published_def set_failed_def set_rescheduled_def content_def split: if_splits)

text \<open>
  \<open>tx_inv Q w0 w\<close>: \<open>w\<close> is inside a relay transaction that began in \<open>w0\<close>.  The tables
  are those of \<open>w0\<close>, the transaction inserts nothing and keeps the contents of every row, the
  broker's log has only grown, and \<open>Q\<close> relates each row to what the transaction made of it.
\<close>

definition tx_inv :: "(world \<Rightarrow> outbox_row \<Rightarrow> outbox_row \<Rightarrow> bool) \<Rightarrow> world \<Rightarrow> world \<Rightarrow> bool" where
  "tx_inv Q w0 w \<longleftrightarrow> same_db w0 w \<and> prefix (w_broker w0) (w_broker w) \<and>
     (\<exists>t. w_tx w = Some t \<and> tx_users t = [] \<and> tx_rows t = [] \<and>
        (\<forall>i r. content (tx_patch t i r) = content r) \<and>
        (\<forall>r \<in> set (w_outbox w0). Q w r (patched t r)))"

text \<open>\<open>Q\<close> is broker-stable when it survives everything but a mark.\<close>

definition broker_stable :: "(world \<Rightarrow> outbox_row \<Rightarrow> outbox_row \<Rightarrow> bool) \<Rightarrow> bool" where
  "broker_stable Q \<longleftrightarrow> (\<forall>w w' r s. prefix (w_broker w) (w_broker w') \<longrightarrow> Q w r s \<longrightarrow> Q w' r s)"

lemma stableD: "broker_stable Q \<Longrightarrow> prefix (w_broker w) (w_broker w') \<Longrightarrow> Q w r s \<Longrightarrow> Q w' r s"
  unfolding broker_stable_def by blast

lemma stable_same: "broker_stable Q \<Longrightarrow> w_broker w' = w_broker w \<Longrightarrow> Q w r s \<Longrightarrow> Q w' r s"
  by (rule stableD) simp_all

lemma tx_inv_frame:
  assumes "tx_inv Q w0 w" "broker_stable Q" "same_db w w'" "w_tx w' = w_tx w"
    "prefix (w_broker w) (w_broker w')"
  shows "tx_inv Q w0 w'"
  using assms unfolding tx_inv_def broker_stable_def
  by (auto intro: same_db_trans prefix_order.trans)

lemma tx_inv_abort:
  "tx_inv Q w0 w \<Longrightarrow> broker_stable Q \<Longrightarrow> same_db w w' \<Longrightarrow> w_tx w = Some t \<Longrightarrow>
     w_tx w' = Some (t\<lparr>tx_aborted := a\<rparr>) \<Longrightarrow> w_broker w' = w_broker w \<Longrightarrow> tx_inv Q w0 w'"
  unfolding tx_inv_def by (auto simp: patched_def intro: same_db_trans stable_same)

text \<open>Every outcome of a mark.\<close>

lemma markOne_tx:
  assumes "markOne what i f w = (x, w')" "w_tx w = Some t"
  obtains a where "w_tx w' = Some (t\<lparr>tx_aborted := a\<rparr>)"
  | locks where "\<forall>r \<in> set (base_rows w t). row_id r = i \<longrightarrow> (\<exists>r'. f t (patched t r) = Inr r')"
      "w_tx w' = Some (t\<lparr>tx_patch := (tx_patch t)
         (i := (\<lambda>r. case f t (patched t r) of Inl _ \<Rightarrow> r | Inr r' \<Rightarrow> r')), tx_locks := locks\<rparr>)"
proof -
  obtain y where y: "in_tx (update_row i f) w = (y, w')"
    using assms(1) by (auto simp: markOne_def split: sum.splits prod.splits if_splits)
  show thesis
  proof (cases y)
    case (Inl e)
    have "t\<lparr>tx_aborted := tx_aborted t\<rparr> = t" by simp
    with y Inl assms(2) that(1) [of True] that(1) [of "tx_aborted t"] show thesis
      by (auto simp: in_tx_def abort_def split: if_splits pg_reply.splits sum.splits prod.splits)
  next
    case (Inr n)
    with y have "in_tx (update_row i f) w = (Inr n, w')" by simp
    then obtain t' s where u: "update_row i f w t = (Inr (n, t'), s)"
      "w' = (tick w)\<lparr>w_seq := s, w_tx := Some t'\<rparr>"
      by (rule in_tx_Inr) (use assms(2) in simp)
    let ?hits = "filter (\<lambda>r. row_id r = i) (base_rows w t)"
    from u(1) have
      none: "first_some (\<lambda>r. case f t (patched t r) of Inl e \<Rightarrow> Some e | Inr _ \<Rightarrow> None) ?hits = None"
      and t': "t' = t\<lparr>tx_patch := (tx_patch t)
                (i := (\<lambda>r. case f t (patched t r) of Inl _ \<Rightarrow> r | Inr r' \<Rightarrow> r')),
              tx_locks := tx_locks t @ map row_id ?hits\<rparr>"
      by (auto simp: update_row_def Let_def split: if_splits option.splits)
    have "\<exists>r'. f t (patched t r) = Inr r'" if "r \<in> set (base_rows w t)" "row_id r = i" for r
      using none that by (cases "f t (patched t r)") (auto simp: first_some_None_iff)
    then show thesis using that(2) [of "tx_locks t @ map row_id ?hits"] by (simp add: u(2) t')
  qed
qed

lemma tx_inv_mark:
  assumes mark: "markOne what i f w = (x, w')" and inv: "tx_inv Q w0 w" and Q: "broker_stable Q"
    and content: "\<And>t r r'. f t r = Inr r' \<Longrightarrow> content r' = content r"
    and hit: "\<And>t r s s'. r \<in> set (w_outbox w0) \<Longrightarrow> row_id r = i \<Longrightarrow> Q w r s \<Longrightarrow> f t s = Inr s' \<Longrightarrow> Q w r s'"
  shows "tx_inv Q w0 w'"
proof -
  from inv obtain t where t: "w_tx w = Some t" "tx_users t = []" "tx_rows t = []"
      "\<forall>i r. content (tx_patch t i r) = content r" "\<forall>r \<in> set (w_outbox w0). Q w r (patched t r)"
      "same_db w0 w" "prefix (w_broker w0) (w_broker w)"
    by (auto simp: tx_inv_def)
  note fr = markOne_frame [OF mark]
  from mark t(1) show ?thesis
  proof (rule markOne_tx)
    fix a
    assume "w_tx w' = Some (t\<lparr>tx_aborted := a\<rparr>)"
    with inv Q fr(1) t(1) show ?thesis by (rule tx_inv_abort [OF _ _ _ _ _ fr(2)])
  next
    fix locks
    let ?p = "\<lambda>r. case f t (patched t r) of Inl _ \<Rightarrow> r | Inr r' \<Rightarrow> r'"
    let ?t = "t\<lparr>tx_patch := (tx_patch t)(i := ?p), tx_locks := locks\<rparr>"
    assume ok: "\<forall>r \<in> set (base_rows w t). row_id r = i \<longrightarrow> (\<exists>r'. f t (patched t r) = Inr r')"
      and tx: "w_tx w' = Some ?t"
    have "content (?p r) = content r" for r
      using t(4) content [of t "patched t r"] by (auto simp: patched_def split: sum.splits)
    then have "\<forall>j r. content (tx_patch ?t j r) = content r" using t(4) by simp
    moreover have "\<forall>r \<in> set (w_outbox w0). Q w' r (patched ?t r)"
    proof
      fix r
      assume r: "r \<in> set (w_outbox w0)"
      have "Q w r (patched ?t r)"
      proof (cases "row_id r = i")
        case True
        from r t(6) have "r \<in> set (base_rows w t)" by (simp add: base_rows_def same_db_def)
        with ok True obtain r' where r': "f t (patched t r) = Inr r'" by blast
        from hit [OF r True _ r'] t(5) r have "Q w r r'" by blast
        with True r' show ?thesis by (simp add: patched_def)
      next
        case False
        with t(5) r show ?thesis by (simp add: patched_def)
      qed
      with Q fr(2) show "Q w' r (patched ?t r)" by (rule stable_same)
    qed
    ultimately show ?thesis
      using t fr tx by (auto simp: tx_inv_def intro: same_db_trans)
  qed
qed

end
