(* ===== verification/RelayPass.thy ===== *)
theory RelayPass
  imports Relay
begin

text \<open>
  One execution of the relay's use case on its adapters, from the claim to the commit: what it
  does to the outbox table and to the broker's log, on every outcome, and the properties of a
  relay pass.
\<close>

subsection \<open>The claim\<close>

definition claimed :: "time \<Rightarrow> int \<Rightarrow> world \<Rightarrow> outbox_row list" where
  "claimed now limit w =
     take (nat limit) (sort_key row_id (filter (due now (w_locked w)) (w_outbox w)))"

lemma scan_rows_Inr: "scan_rows verdict rows = Inr batch \<Longrightarrow> batch = map scan_row rows"
  by (induction rows arbitrary: batch) (auto split: option.splits sum.splits)

lemma ClaimPending_frame:
  assumes "RelayOutbox_ClaimPending limit w = (x, w')"
  shows "same_db w w'" "w_broker w' = w_broker w" "w_env w' = w_env w" "w_locked w' = w_locked w"
proof -
  obtain y w1 where c: "in_tx (claimPending limit) w = (y, w1)" by (cases "in_tx (claimPending limit) w")
  note f1 = in_tx_frame [OF c]
  obtain z w2 where e: "in_tx rows_Err w1 = (z, w2)" by (cases "in_tx rows_Err w1")
  note f2 = in_tx_frame [OF e]
  from assms c e have "w' = w1 \<or> w' = w2"
    by (auto simp: RelayOutbox_ClaimPending_def split: sum.splits)
  then show "same_db w w'" "w_broker w' = w_broker w" "w_env w' = w_env w" "w_locked w' = w_locked w"
    using f1 f2 by (auto intro: same_db_trans)
qed

lemma ClaimPending_Inr:
  assumes "RelayOutbox_ClaimPending limit w = (Inr batch, w')"
  obtains t rows where "w_tx w = Some t" "\<not> tx_aborted t" "0 \<le> limit" "batch = map scan_row rows"
    "rows = take (nat limit) (sort_key row_id (filter (due (tx_now t) (w_locked w)) (tx_view w t)))"
    "w_tx w' = Some (t\<lparr>tx_locks := tx_locks t @ map row_id rows\<rparr>)"
proof -
  from assms obtain rows w1 where c: "in_tx (claimPending limit) w = (Inr rows, w1)"
      and b: "scan_rows (env_scan (w_env w1) (w_tick w1)) rows = Inr batch"
      and e: "in_tx rows_Err w1 = (Inr (), w')"
    by (auto simp: RelayOutbox_ClaimPending_def split: sum.splits prod.splits)
  from c obtain t t' s where t: "w_tx w = Some t" "\<not> tx_aborted t"
      "claimPending limit w t = (Inr (rows, t'), s)" "w1 = (tick w)\<lparr>w_seq := s, w_tx := Some t'\<rparr>"
    by (rule in_tx_Inr)
  from e obtain t1 t1' s' where "w_tx w1 = Some t1" "rows_Err w1 t1 = (Inr ((), t1'), s')"
      "w' = (tick w1)\<lparr>w_seq := s', w_tx := Some t1'\<rparr>" by (rule in_tx_Inr)
  with t have "w_tx w' = Some t'" by (simp add: rows_Err_def)
  with t scan_rows_Inr [OF b] show thesis
    by (intro that) (auto simp: claimPending_def Let_def split: if_splits)
qed

subsection \<open>The pass, taken apart\<close>

abbreviation relay :: "(time \<Rightarrow> time) \<Rightarrow> Topics \<Rightarrow> int \<Rightarrow> duration \<Rightarrow> duration \<Rightarrow> int \<Rightarrow> world PublishPendingBatch"
  where "relay stamp t b base cap m \<equiv> relay_use_case stamp t (relay_policy b base cap m)"

lemma on_pool_frame:
  assumes "on_pool body w = (x, w')" "\<And>now a rows. body now w = Inr (a, rows) \<Longrightarrow> rows = w_outbox w"
  shows "same_db w w'" "w_broker w' = w_broker w" "w_tx w' = w_tx w" "w_locked w' = w_locked w"
  using assms by (auto simp: on_pool_def same_db_def split: pg_reply.splits sum.splits)

lemma Stats_frame:
  assumes "OutboxStatsReader_Read n w = (x, w')"
  shows "same_db w w'" "w_broker w' = w_broker w" "w_tx w' = w_tx w" "w_locked w' = w_locked w"
proof -
  obtain y where "on_pool (outboxStats n) w = (y, w')"
    using assms by (auto simp: OutboxStatsReader_Read_def split: sum.splits prod.splits)
  from on_pool_frame [OF this]
  show "same_db w w'" "w_broker w' = w_broker w" "w_tx w' = w_tx w" "w_locked w' = w_locked w"
    by (auto simp: outboxStats_def)
qed

lemma observe_frame:
  assumes "observe (relay stamp t b base cap m) res w = (res', w')"
  shows "same_db w w'" "w_broker w' = w_broker w" "w_tx w' = w_tx w"
    "res_Claimed res' = res_Claimed res" "res_Published res' = res_Published res"
    "res_Transient res' = res_Transient res" "res_Permanent res' = res_Permanent res" "w_locked w' = w_locked w"
  using assms
  by (auto simp: observe_def port_simps dest: Stats_frame split: sum.splits prod.splits)

definition first_result :: "int \<Rightarrow> PublishResult" where
  "first_result b = empty_result\<lparr>res_BatchSize := b\<rparr>"

lemma Execute_WithTx:
  assumes "Execute (relay stamp t b base cap m) w = ((res, err), w')"
  obtains res1 w1 where
    "WithTx (pass_body (relay stamp t b base cap m) (NewRelayOutbox stamp)) (first_result b) (tick w)
       = ((err, res1), w1)"
    "same_db w1 w'" "w_broker w' = w_broker w1" "w_tx w' = w_tx w1"
    "res_Claimed res = res_Claimed res1" "res_Published res = res_Published res1"
    "res_Transient res = res_Transient res1" "res_Permanent res = res_Permanent res1"
    "w_locked w' = w_locked w1"
proof -
  let ?uc = "relay stamp t b base cap m"
  obtain err1 res1 w1 where
    u: "WithTx (pass_body ?uc (NewRelayOutbox stamp)) (first_result b) (tick w) = ((err1, res1), w1)"
    by (metis prod.exhaust)
  let ?res = "res1\<lparr>res_Duration := time_Sub (env_clock (w_env w1) (w_tick w1)) (env_clock (w_env w) (w_tick w))\<rparr>"
  have e: "Execute ?uc w =
      (case err1 of Some e \<Rightarrow> ((?res, Some e), tick w1)
       | None \<Rightarrow> (let (res, w) = observe ?uc ?res (tick w1) in ((res, None), w)))"
    using u by (simp add: Execute_def port_simps System_Now_def PublishUnitOfWork_Do_def first_result_def Let_def)
  show thesis
  proof (cases err1)
    case (Some e)
    with u e assms show thesis by (intro that) (auto simp: same_db_def)
  next
    case None
    obtain res2 w2 where o: "observe ?uc ?res (tick w1) = (res2, w2)" by (metis prod.exhaust)
    with None e assms have "res = res2" "w' = w2" "err = None" by auto
    with observe_frame [OF o] u None show thesis by (intro that) (auto simp: same_db_def)
  qed
qed

lemma pass_body_cases:
  assumes "pass_body (relay stamp t b base cap m) (NewRelayOutbox stamp) res w = ((err, res'), w')"
  obtains (refused) e where "err = Some e" "res' = res" "same_db w w'" "w_broker w' = w_broker w"
  | (batch) ms w1 where "RelayOutbox_ClaimPending b w = (Inr ms, w1)"
      "publishBatch (relay stamp t b base cap m) (NewRelayOutbox stamp) ms
         (res\<lparr>res_Claimed := int (length ms)\<rparr>) w1 = ((err, res'), w')"
proof -
  obtain y w1 where c: "RelayOutbox_ClaimPending b w = (y, w1)" by (metis prod.exhaust)
  show thesis
  proof (cases y)
    case (Inl e)
    with assms c ClaimPending_frame [OF c] show thesis
      by (intro refused) (auto simp: pass_body_def port_simps)
  next
    case (Inr ms)
    with assms c show thesis by (intro batch) (auto simp: pass_body_def port_simps)
  qed
qed

text \<open>The state in which the claim runs, and the one in which the batch starts.\<close>

lemma pg_begin_relay:
  assumes "pg_begin w = (None, w1)"
  shows "w_tx w1 = Some (fresh_txn (env_pg_clock (w_env w) (w_tick w)))" "same_db w w1"
    "w_broker w1 = w_broker w" "w_locked w1 = w_locked w" "w_env w1 = w_env w"
  using pg_begin_None [OF assms] by (simp_all add: same_db_def)

lemma claim_fresh:
  assumes "RelayOutbox_ClaimPending b w1 = (Inr ms, w2)" "w_tx w1 = Some (fresh_txn now)"
  shows "ms = map scan_row (claimed now b w1)" "0 \<le> b"
    "w_tx w2 = Some ((fresh_txn now)\<lparr>tx_locks := map row_id (claimed now b w1)\<rparr>)"
proof -
  from assms(1) obtain tx rows where r: "w_tx w1 = Some tx" "\<not> tx_aborted tx" "0 \<le> b"
    "ms = map scan_row rows"
    "rows = take (nat b) (sort_key row_id (filter (due (tx_now tx) (w_locked w1)) (tx_view w1 tx)))"
    "w_tx w2 = Some (tx\<lparr>tx_locks := tx_locks tx @ map row_id rows\<rparr>)"
    by (rule ClaimPending_Inr)
  from r(1) assms(2) have "tx = fresh_txn now" by simp
  then have "tx_view w1 tx = w_outbox w1"
    by (simp add: tx_view_def base_rows_def patched_def [abs_def] fresh_txn_def)
  with r \<open>tx = fresh_txn now\<close> have "rows = claimed now b w1"
    by (simp add: claimed_def fresh_txn_def)
  with r \<open>tx = fresh_txn now\<close>
  show "ms = map scan_row (claimed now b w1)" "0 \<le> b"
    "w_tx w2 = Some ((fresh_txn now)\<lparr>tx_locks := map row_id (claimed now b w1)\<rparr>)"
    by (simp_all add: fresh_txn_def)
qed

lemma tx_inv_start:
  assumes "RelayOutbox_ClaimPending b w1 = (Inr ms, w2)" "w_tx w1 = Some (fresh_txn now)"
    and "\<forall>r \<in> set (w_outbox w1). Q w2 r r"
  shows "tx_inv Q w1 w2"
  using claim_fresh [OF assms(1,2)] ClaimPending_frame [OF assms(1)] assms(3)
  unfolding tx_inv_def by (auto simp: fresh_txn_def patched_def)

subsection \<open>Invariants of a pass\<close>

text \<open>
  The induction principle: a relation \<open>Q\<close> between a row and what the pass makes of it, which the
  marks establish, holds of the table after the pass, whatever the pass returns.
\<close>

lemma claimed_subset: "set (claimed now b w) \<subseteq> set (w_outbox w)"
  by (auto simp: claimed_def dest!: in_set_takeD)

lemma batch_invariant:
  assumes run: "publishBatch (relay stamp t b base cap m) (NewRelayOutbox stamp) ms res w2 = (x, w3)"
    and ms: "ms = map scan_row (claimed now b w1)"
    and inv: "tx_inv Q w1 w2" and Q: "broker_stable Q" and dist: "distinct (map row_id (w_outbox w1))"
    and acked: "\<And>r v v' tx s s'. r \<in> set (w_outbox w1) \<Longrightarrow>
        publish (relay stamp t b base cap m) (scan_row r) v = (None, v') \<Longrightarrow> Q v' r s \<Longrightarrow>
        set_published tx s = Inr s' \<Longrightarrow> Q v' r s'"
    and parked: "\<And>r v v' e y tx s s'. r \<in> set (w_outbox w1) \<Longrightarrow>
        w_env v = w_env w1 \<Longrightarrow> publish (relay stamp t b base cap m) (scan_row r) v = (Some e, v') \<Longrightarrow>
        errors_Is e ErrPermanent \<Longrightarrow> Q v' r s \<Longrightarrow> set_failed y tx s = Inr s' \<Longrightarrow> Q v' r s'"
    and retried: "\<And>r v a y tx s s'. r \<in> set (w_outbox w1) \<Longrightarrow> Q v r s \<Longrightarrow>
        set_rescheduled a y tx s = Inr s' \<Longrightarrow> Q v r s'"
  shows "tx_inv Q w1 w3"
proof -
  let ?uc = "relay stamp t b base cap m"
  have pub: "tx_inv Q w1 v'" if "tx_inv Q w1 v" "publish ?uc k v = (r, v')" for k r v v'
  proof (cases "Topics_For t (env_AggregateType k)")
    case (Inr topic)
    with that(2) have "Publisher_Publish (message_of k topic) v = (r, v')"
      by (simp add: publish_def port_simps)
    then show ?thesis
      by (rule Publisher_Publish_cases; intro tx_inv_frame [OF that(1) Q]) (simp_all add: same_db_def)
  qed (use that in \<open>simp add: publish_def port_simps\<close>)
  have row: "\<exists>r \<in> set (w_outbox w1). k = scan_row r" if "k \<in> set ms" for k
    using that ms claimed_subset [of now b w1] by auto
  have hit: "r = r'" if "k = scan_row r'" "r' \<in> set (w_outbox w1)" "r \<in> set (w_outbox w1)"
    "row_id r = pm_ID k" for k r r'
    using distinct_fst_eq [OF dist that(3,2)] that by (simp add: scan_row_def)
  show ?thesis
    using run inv
  proof (rule publishBatch_invariant [where I = "tx_inv Q w1"])
    fix k e v v'
    assume "tx_inv Q w1 v" "publish ?uc k v = (Some e, v')"
    then show "tx_inv Q w1 v'" by (rule pub)
  next
    fix k y v v' v''
    assume k: "k \<in> set ms" and v: "tx_inv Q w1 v" "publish ?uc k v = (None, v')"
      and mark: "MarkPublished (NewRelayOutbox stamp) (pm_ID k) v' = (y, v'')"
    from row [OF k] obtain r' where r': "k = scan_row r'" "r' \<in> set (w_outbox w1)" by blast
    from mark have "markOne ''mark published'' (pm_ID k) set_published v' = (y, v'')"
      by (simp add: port_simps mark_defs)
    then show "tx_inv Q w1 v''"
    proof (rule tx_inv_mark [OF _ pub [OF v] Q content_marks(1)])
      fix tx r s s'
      assume r: "r \<in> set (w_outbox w1)" "row_id r = pm_ID k" and s: "Q v' r s" "set_published tx s = Inr s'"
      from hit [OF r' r] r'(1) v(2) have "publish ?uc (scan_row r) v = (None, v')" by simp
      then show "Q v' r s'" by (rule acked [OF r(1) _ s])
    qed
  next
    fix k e y v v' v''
    assume k: "k \<in> set ms" and v: "tx_inv Q w1 v" "publish ?uc k v = (Some e, v')"
      and e: "errors_Is e ErrPermanent"
      and mark: "MarkFailed (NewRelayOutbox stamp) (pm_ID k) (error_text e) v' = (y, v'')"
    from row [OF k] obtain r' where r': "k = scan_row r'" "r' \<in> set (w_outbox w1)" by blast
    from mark have "markOne ''mark failed'' (pm_ID k) (set_failed (error_text e)) v' = (y, v'')"
      by (simp add: port_simps mark_defs)
    then show "tx_inv Q w1 v''"
    proof (rule tx_inv_mark [OF _ pub [OF v] Q content_marks(2)])
      fix tx r s s'
      assume r: "r \<in> set (w_outbox w1)" "row_id r = pm_ID k"
        and s: "Q v' r s" "set_failed (error_text e) tx s = Inr s'"
      from hit [OF r' r] r'(1) v(2) have "publish ?uc (scan_row r) v = (Some e, v')" by simp
      moreover have "w_env v = w_env w1" using v(1) by (simp add: tx_inv_def same_db_def)
      ultimately show "Q v' r s'" by (intro parked [OF r(1) _ _ e s])
    qed
  next
    fix k a y z v v'
    assume v: "tx_inv Q w1 v" and mark: "Reschedule (NewRelayOutbox stamp) (pm_ID k) a y v = (z, v')"
    from mark have "markOne ''reschedule'' (pm_ID k) (set_rescheduled (stamp a) y) v = (z, v')"
      by (simp add: port_simps mark_defs)
    then show "tx_inv Q w1 v'"
      by (rule tx_inv_mark [OF _ v Q]) (erule content_marks, rule retried)
  next
    fix a v v'
    assume v: "tx_inv Q w1 v" and "clock ?uc v = (a, v')"
    then have "v' = tick v" by (auto simp: port_simps dest: System_Now_frame)
    then show "tx_inv Q w1 v'" by (intro tx_inv_frame [OF v Q]) (simp_all add: same_db_def)
  next
    fix n d v v'
    assume v: "tx_inv Q w1 v" and "policy_Schedule (policy ?uc) n v = (d, v')"
    then have "v' = tick v" by (auto simp: port_simps dest: After_frame)
    then show "tx_inv Q w1 v'" by (intro tx_inv_frame [OF v Q]) (simp_all add: same_db_def)
  qed
qed

definition passed :: "(world \<Rightarrow> outbox_row \<Rightarrow> outbox_row \<Rightarrow> bool) \<Rightarrow> world \<Rightarrow> world \<Rightarrow> bool" where
  "passed Q w w' \<longleftrightarrow> w_users w' = w_users w \<and> w_env w' = w_env w \<and>
     prefix (w_broker w) (w_broker w') \<and>
     (\<exists>g. w_outbox w' = map g (w_outbox w) \<and>
        (\<forall>r \<in> set (w_outbox w). content (g r) = content r \<and> Q w' r (g r)))"

lemma passedI:
  assumes "w_users w' = w_users w" "w_env w' = w_env w" "prefix (w_broker w) (w_broker w')"
    "w_outbox w' = map g (w_outbox w)"
    "\<And>r. r \<in> set (w_outbox w) \<Longrightarrow> content (g r) = content r \<and> Q w' r (g r)"
  shows "passed Q w w'"
  using assms unfolding passed_def by blast

lemma tx_inv_commit:
  assumes inv: "tx_inv Q w v" and Q: "broker_stable Q" and t: "w_tx v = Some t"
  shows "passed Q w (apply_txn t (tick v))"
proof (rule passedI [where g = "patched t"])
  fix r
  assume "r \<in> set (w_outbox w)"
  with inv t have "content (patched t r) = content r" "Q v r (patched t r)"
    by (auto simp: tx_inv_def patched_def)
  moreover have "w_broker (apply_txn t (tick v)) = w_broker v" by (simp add: apply_txn_def)
  ultimately show "content (patched t r) = content r \<and> Q (apply_txn t (tick v)) r (patched t r)"
    using stable_same [OF Q] by blast
qed (use inv t in \<open>auto simp: tx_inv_def apply_txn_def same_db_def tx_view_def base_rows_def\<close>)

lemma unchanged_passed:
  assumes "prefix (w_broker w) (w_broker v)" "same_db w v" "broker_stable Q" "\<forall>r \<in> set (w_outbox w). Q w r r"
  shows "passed Q w v"
  by (rule passedI [where g = id]) (use assms stableD [OF assms(3,1)] in \<open>auto simp: same_db_def\<close>)

lemma passed_frame:
  assumes "passed Q w v" "broker_stable Q" "same_db v v'" "w_broker v' = w_broker v"
  shows "passed Q w v'"
proof -
  from assms(1) obtain g where "w_users v = w_users w" "w_env v = w_env w" "prefix (w_broker w) (w_broker v)"
    "w_outbox v = map g (w_outbox w)"
    "\<forall>r \<in> set (w_outbox w). content (g r) = content r \<and> Q v r (g r)" by (auto simp: passed_def)
  with assms(3,4) stable_same [OF assms(2,4)] show ?thesis
    by (intro passedI [where g = g]) (auto simp: same_db_def)
qed

lemma tx_inv_keeps: "tx_inv Q w v \<Longrightarrow> prefix (w_broker w) (w_broker v) \<and> same_db w v"
  by (auto simp: tx_inv_def)

theorem pass_invariant:
  fixes stamp t b base cap m
  defines "uc \<equiv> relay stamp t b base cap m"
  assumes run: "Execute uc w = (x, w')"
    and Q: "broker_stable Q" and dist: "distinct (map row_id (w_outbox w))"
    and start: "\<forall>r \<in> set (w_outbox w). Q w r r"
    and acked: "\<And>r v v' tx s s'. r \<in> set (w_outbox w) \<Longrightarrow> publish uc (scan_row r) v = (None, v') \<Longrightarrow>
        Q v' r s \<Longrightarrow> set_published tx s = Inr s' \<Longrightarrow> Q v' r s'"
    and parked: "\<And>r v v' e y tx s s'. r \<in> set (w_outbox w) \<Longrightarrow> w_env v = w_env w \<Longrightarrow>
        publish uc (scan_row r) v = (Some e, v') \<Longrightarrow> errors_Is e ErrPermanent \<Longrightarrow> Q v' r s \<Longrightarrow> set_failed y tx s = Inr s' \<Longrightarrow> Q v' r s'"
    and retried: "\<And>r v a y tx s s'. r \<in> set (w_outbox w) \<Longrightarrow> Q v r s \<Longrightarrow>
        set_rescheduled a y tx s = Inr s' \<Longrightarrow> Q v r s'"
  shows "passed Q w w'"
proof -
  obtain res err where "x = (res, err)" by (cases x)
  with run have "Execute (relay stamp t b base cap m) w = ((res, err), w')" by (simp add: uc_def)
  then obtain res1 w1 where
      tx: "WithTx (pass_body uc (NewRelayOutbox stamp)) (first_result b) (tick w) = ((err, res1), w1)"
      and w1: "same_db w1 w'" "w_broker w' = w_broker w1"
    by (rule Execute_WithTx) (simp add: uc_def)
  have unchanged: "passed Q w v" if "same_db w v" "prefix (w_broker w) (w_broker v)" for v
    by (rule unchanged_passed) (use that start Q in auto)
  have body: "same_db w v2 \<and> prefix (w_broker w) (w_broker v2) \<and> (e = None \<longrightarrow> tx_inv Q w v2)"
    if beg: "pg_begin (tick w) = (None, v1)"
      and b: "pass_body uc (NewRelayOutbox stamp) (first_result b) v1 = ((e, r'), v2)" for v1 e r' v2
  proof -
    note v1 = pg_begin_relay [OF beg]
    from b show ?thesis unfolding uc_def
    proof (cases rule: pass_body_cases)
      case (refused e)
      with v1 show ?thesis by (simp add: same_db_def)
    next
      case (batch ms w2)
      note c = claim_fresh [OF batch(1) v1(1)] and cf = ClaimPending_frame [OF batch(1)]
      have ob: "w_outbox v1 = w_outbox w" "w_env v1 = w_env w" using v1(2) by (simp_all add: same_db_def)
      have "\<forall>r \<in> set (w_outbox w). Q w2 r r"
        using start stable_same [OF Q, of w2 w] cf(2) v1(3) by simp
      with ob have inv: "tx_inv Q v1 w2" by (intro tx_inv_start [OF batch(1) v1(1)]) simp
      have "tx_inv Q v1 v2"
        by (rule batch_invariant [OF batch(2) c(1) inv Q, unfolded ob, OF dist])
          (fact acked [unfolded uc_def] parked [unfolded uc_def] retried)+
      then have "tx_inv Q w v2" using v1(2,3) by (simp add: tx_inv_def same_db_def)
      then show ?thesis using tx_inv_keeps by blast
    qed
  qed
  from tx have "passed Q w w1"
  proof (cases rule: WithTx_cases)
    case (no_begin e)
    then show ?thesis by (intro unchanged) (simp_all add: same_db_def)
  next
    case (failed v1 v2 e)
    from body [OF failed(1,2)] failed(4) show ?thesis by (intro unchanged) simp_all
  next
    case (not_committed v1 v2 v3 e)
    from body [OF not_committed(1,2)] not_committed(5-7) show ?thesis
      by (intro unchanged) (auto intro: same_db_trans)
  next
    case (committed v1 v2 tx)
    from body [OF committed(1,2)] have "tx_inv Q w v2" by simp
    from tx_inv_commit [OF this Q committed(3)] committed(5) show ?thesis by simp
  qed
  from passed_frame [OF this Q w1] show ?thesis .
qed

end
