(* ===== verification/Delivery.thy ===== *)
theory Delivery
  imports RelayPass
begin

text \<open>
  When a row's message is in the broker, and what a relay pass does to the outbox in these terms:
  \<open>delivers t w w'\<close> says that the rows kept their contents and that a row which became published has
  its message in the broker.  The relation composes, so it holds of any sequence of passes.
\<close>

subsection \<open>The message of a row\<close>

text \<open>
  \<open>carries t k r\<close>: the record is on the row's topic, keyed by its aggregate, with its payload, its
  event id, its event type and the headers stored with it that are not part of the contract.
\<close>

definition contract_headers :: "string list" where
  "contract_headers = [HeaderEventID, HeaderEventType, HeaderSpecVersion, HeaderSchemaVersion, HeaderContentType]"

definition carries :: "Topics \<Rightarrow> kafka_record \<Rightarrow> outbox_row \<Rightarrow> bool" where
  "carries t k r \<longleftrightarrow>
     Topics_For t (row_aggregate_type r) = Inr (rec_Topic k) \<and> rec_Key k = row_aggregate_id r \<and>
     rec_Value k = row_payload r \<and>
     map_of (rec_Headers k) HeaderEventID = Some (uuid_text (row_event_id r)) \<and>
     map_of (rec_Headers k) HeaderEventType = Some (row_event_type r) \<and>
     list_all (\<lambda>h. h \<in> set contract_headers \<or> map_of (rec_Headers k) h = map_of (rev (row_headers r)) h)
       (map fst (row_headers r))"

definition announced :: "Topics \<Rightarrow> world \<Rightarrow> outbox_row \<Rightarrow> bool" where
  "announced t w r \<longleftrightarrow> (\<exists>k \<in> set (w_broker w). carries t k r)"

lemma carries_content: "content r = content s \<Longrightarrow> carries t k r = carries t k s"
  by (simp add: carries_def content_def)

lemma record_carries:
  "Topics_For t (row_aggregate_type r) = Inr topic \<Longrightarrow>
     carries t (record_of (message_of (scan_row r) topic)) r"
  by (simp add: carries_def record_of_def message_of_def Let_def scan_row_def
      map_of_recordHeaders distinct_publishHeaders map_of_publishHeaders header_names
      list_all_iff contract_headers_def)

lemma announced_grows: "prefix (w_broker w) (w_broker w') \<Longrightarrow> announced t w r \<Longrightarrow> announced t w' r"
  by (auto simp: announced_def prefix_def)

lemma publish_None_announces:
  assumes "publish (relay stamp t b base cap m) (scan_row r) v = (None, v')"
  shows "announced t v' r"
proof -
  from assms obtain topic where topic: "Topics_For t (row_aggregate_type r) = Inr topic"
      "Publisher_Publish (message_of (scan_row r) topic) v = (None, v')"
    by (auto simp: publish_def port_simps scan_row_def split: sum.splits)
  with Publish_laws(2) [OF topic(2)] record_carries [OF topic(1)] show ?thesis
    by (auto simp: announced_def)
qed

subsection \<open>Deliveries\<close>

definition delivers :: "Topics \<Rightarrow> world \<Rightarrow> world \<Rightarrow> bool" where
  "delivers t w w' \<longleftrightarrow> w_users w' = w_users w \<and> prefix (w_broker w) (w_broker w') \<and>
     (\<exists>g. w_outbox w' = map g (w_outbox w) \<and>
        (\<forall>r \<in> set (w_outbox w). content (g r) = content r \<and>
           (bk_status (g r) = StatusPublished \<longrightarrow> bk_status r = StatusPublished \<or> announced t w' (g r))))"

lemma deliversI:
  assumes "w_users w' = w_users w" "prefix (w_broker w) (w_broker w')" "w_outbox w' = map g (w_outbox w)"
    "\<And>r. r \<in> set (w_outbox w) \<Longrightarrow> content (g r) = content r"
    "\<And>r. r \<in> set (w_outbox w) \<Longrightarrow> bk_status (g r) = StatusPublished \<Longrightarrow>
       bk_status r = StatusPublished \<or> announced t w' (g r)"
  shows "delivers t w w'"
  unfolding delivers_def using assms by blast

lemma delivers_frame: "same_db w w' \<Longrightarrow> prefix (w_broker w) (w_broker w') \<Longrightarrow> delivers t w w'"
  by (rule deliversI [where g = id]) (simp_all add: same_db_def)

lemma announced_content: "content r = content s \<Longrightarrow> announced t w r = announced t w s"
  by (simp add: announced_def carries_content [of r s])

lemma delivers_ids: "delivers t w w' \<Longrightarrow> map row_id (w_outbox w') = map row_id (w_outbox w)"
  unfolding delivers_def by (auto simp: content_def)

lemma delivers_trans:
  assumes "delivers t u v" "delivers t v w"
  shows "delivers t u w"
proof -
  from assms(1) obtain g where g: "w_users v = w_users u" "prefix (w_broker u) (w_broker v)"
    "w_outbox v = map g (w_outbox u)"
    "\<And>r. r \<in> set (w_outbox u) \<Longrightarrow> content (g r) = content r"
    "\<And>r. r \<in> set (w_outbox u) \<Longrightarrow> bk_status (g r) = StatusPublished \<Longrightarrow>
       bk_status r = StatusPublished \<or> announced t v (g r)" unfolding delivers_def by blast
  from assms(2) obtain h where h: "w_users w = w_users v" "prefix (w_broker v) (w_broker w)"
    "w_outbox w = map h (w_outbox v)"
    "\<And>r. r \<in> set (w_outbox v) \<Longrightarrow> content (h r) = content r"
    "\<And>r. r \<in> set (w_outbox v) \<Longrightarrow> bk_status (h r) = StatusPublished \<Longrightarrow>
       bk_status r = StatusPublished \<or> announced t w (h r)" unfolding delivers_def by blast
  show ?thesis
  proof (rule deliversI [where g = "h \<circ> g"])
    fix r
    assume r: "r \<in> set (w_outbox u)"
    then have gr: "g r \<in> set (w_outbox v)" using g(3) by simp
    show "content ((h \<circ> g) r) = content r" using h(4) [OF gr] g(4) [OF r] by simp
    assume "bk_status ((h \<circ> g) r) = StatusPublished"
    then have "bk_status (g r) = StatusPublished \<or> announced t w (h (g r))" using h(5) [OF gr] by simp
    moreover have "announced t v (g r) \<Longrightarrow> announced t w (h (g r))"
      using announced_grows [OF h(2), of t "g r"] announced_content [OF h(4) [OF gr]] by simp
    ultimately show "bk_status r = StatusPublished \<or> announced t w ((h \<circ> g) r)"
      using g(5) [OF r] by auto
  qed (use g h in \<open>auto intro: prefix_order.trans\<close>)
qed

lemma delivers_announced:
  assumes "delivers t w w'" "\<forall>r \<in> set (w_outbox w). bk_status r = StatusPublished \<longrightarrow> announced t w r"
  shows "\<forall>r \<in> set (w_outbox w'). bk_status r = StatusPublished \<longrightarrow> announced t w' r"
proof -
  from assms(1) obtain g where g: "w_outbox w' = map g (w_outbox w)" "prefix (w_broker w) (w_broker w')"
    "\<forall>r \<in> set (w_outbox w). content (g r) = content r \<and>
       (bk_status (g r) = StatusPublished \<longrightarrow> bk_status r = StatusPublished \<or> announced t w' (g r))"
    unfolding delivers_def by blast
  have "announced t w' (g r)" if r: "r \<in> set (w_outbox w)" and p: "bk_status (g r) = StatusPublished" for r
  proof -
    from g(3) r have c: "content (g r) = content r" by blast
    from g(3) r p have "bk_status r = StatusPublished \<or> announced t w' (g r)" by blast
    then show ?thesis
      using assms(2) r announced_grows [OF g(2), of t r] announced_content [OF c, of t w'] by blast
  qed
  then show ?thesis using g(1) by auto
qed

lemma Execute_delivers:
  assumes "Execute (relay stamp t b base cap m) w = (x, w')"
    and "distinct (map row_id (w_outbox w))"
  shows "delivers t w w'"
proof -
  let ?Q = "\<lambda>v r s :: outbox_row. bk_status s = StatusPublished \<longrightarrow> bk_status r = StatusPublished \<or> announced t v r"
  have stable: "broker_stable ?Q" by (auto simp: broker_stable_def intro: announced_grows)
  have "passed ?Q w w'"
  proof (rule pass_invariant [OF assms(1) stable assms(2)])
    fix r v v'
    assume "publish (relay stamp t b base cap m) (scan_row r) v = (None, v')"
    then show "?Q v' r s" for s by (blast dest: publish_None_announces)
  qed (auto simp: set_failed_def set_rescheduled_def split: if_splits)
  then obtain g where g: "w_users w' = w_users w" "prefix (w_broker w) (w_broker w')"
    "w_outbox w' = map g (w_outbox w)"
    "\<forall>r \<in> set (w_outbox w). content (g r) = content r \<and> ?Q w' r (g r)"
    unfolding passed_def by blast
  then show ?thesis by (intro deliversI [where g = g]) (auto dest: announced_content)
qed

subsection \<open>A pass takes time\<close>

text \<open>\<open>later\<close>: interactions are counted up, and the id sequence never goes back.\<close>

definition later :: "world \<Rightarrow> world \<Rightarrow> bool" where
  "later w w' \<longleftrightarrow> w_tick w \<le> w_tick w' \<and> w_seq w \<le> w_seq w'"

lemma later_refl [simp]: "later w w"
  by (simp add: later_def)

lemma later_trans [trans]: "later u v \<Longrightarrow> later v w \<Longrightarrow> later u w"
  by (simp add: later_def)

lemma later_simps [simp]: "later w (tick v) \<longleftrightarrow> w_tick w \<le> Suc (w_tick v) \<and> w_seq w \<le> w_seq v"
  "later w (pg_rollback v) = later w v" "later w (apply_txn tx v) = later w v"
  by (auto simp: later_def pg_rollback_def apply_txn_def)

lemma tick_later: "later (tick v) w \<Longrightarrow> later v w"
  by (simp add: later_def)

definition keeps_seq :: "'a stmt \<Rightarrow> bool" where
  "keeps_seq body \<longleftrightarrow> (\<forall>w t. snd (body w t) = w_seq w)"

lemma keeps_seq_simps [simp]: "keeps_seq (update_row i f)" "keeps_seq (claimPending n)" "keeps_seq rows_Err"
  by (auto simp: keeps_seq_def update_row_def claimPending_def rows_Err_def Let_def split: option.split)

lemma in_tx_later:
  assumes "in_tx body w = (x, w')" "keeps_seq body"
  shows "later w w'"
proof -
  have "s = w_seq w" if "body w t = (y, s)" for t y s
    using assms(2) that by (metis keeps_seq_def snd_conv)
  with assms(1) show ?thesis
    by (auto simp: in_tx_def abort_def later_def split: option.splits if_splits pg_reply.splits sum.splits prod.splits)
qed

lemma markOne_later: "markOne what i f w = (x, w') \<Longrightarrow> later w w'"
  by (auto simp: markOne_def dest!: in_tx_later split: sum.splits prod.splits if_splits)

lemma ClaimPending_later:
  assumes "RelayOutbox_ClaimPending limit w = (x, w')"
  shows "later w w'"
proof -
  obtain y w1 where c: "in_tx (claimPending limit) w = (y, w1)" by (metis prod.exhaust)
  obtain z w2 where e: "in_tx rows_Err w1 = (z, w2)" by (metis prod.exhaust)
  from assms c e have "w' = w1 \<or> w' = w2" by (auto simp: RelayOutbox_ClaimPending_def split: sum.splits)
  with in_tx_later [OF c] in_tx_later [OF e] show ?thesis by (auto intro: later_trans)
qed

lemma publish_later: "publish (relay stamp t b base cap m) pm w = (x, w') \<Longrightarrow> later w w'"
  by (auto simp: publish_def port_simps Publisher_Publish_def ProduceSync_def later_def
      split: sum.splits produce_reply.splits)

lemma publishBatch_later:
  assumes "publishBatch (relay stamp t b base cap m) (NewRelayOutbox stamp) ms res w = (x, w')"
  shows "later w w'"
proof (rule publishBatch_invariant [OF assms, where I = "later w"])
  show "later w v''"
    if "later w v" "publish (relay stamp t b base cap m) p v = (None, v')"
      "MarkPublished (NewRelayOutbox stamp) (pm_ID p) v' = (y, v'')" for p y v v' v''
    using that publish_later [OF that(2)]
    by (auto simp: port_simps RelayOutbox_MarkPublished_def dest!: markOne_later intro: later_trans)
  show "later w v''"
    if "later w v" "publish (relay stamp t b base cap m) p v = (Some e, v')"
      "MarkFailed (NewRelayOutbox stamp) (pm_ID p) (error_text e) v' = (y, v'')" for p e y v v' v''
    using that publish_later [OF that(2)]
    by (auto simp: port_simps RelayOutbox_MarkFailed_def dest!: markOne_later intro: later_trans)
qed (auto simp: port_simps RelayOutbox_Reschedule_def System_Now_def After_def NewExponential_def later_def
      Factor_def rand_Float64_def Let_def dest!: markOne_later publish_later split: prod.splits)

lemma commit_later: "pg_commit w = (x, w') \<Longrightarrow> later w w'"
  by (auto simp: pg_commit_def later_def pg_rollback_def apply_txn_def
      split: option.splits if_splits pg_reply.splits)

lemma begin_later: "pg_begin w = (x, w') \<Longrightarrow> later w w'"
  by (auto simp: pg_begin_def later_def split: pg_reply.splits)

lemma WithTx_later:
  assumes "WithTx fn r w = (x, w')" "\<And>r v y v'. fn r v = (y, v') \<Longrightarrow> later v v'"
  shows "later w w'"
proof -
  obtain e w1 where b: "pg_begin w = (e, w1)" by (metis prod.exhaust)
  obtain e2 r2 w2 where f: "fn r w1 = ((e2, r2), w2)" by (metis prod.exhaust)
  obtain e3 w3 where c: "pg_commit w2 = (e3, w3)" by (metis prod.exhaust)
  note t = begin_later [OF b] assms(2) [OF f] commit_later [OF c]
  from assms(1) b f c have "w' \<in> {w1, pg_rollback w2, pg_rollback w3}"
    by (cases e; cases e2; cases e3) (auto simp: WithTx_def)
  with t show ?thesis by (auto intro: later_trans)
qed

lemma Execute_later:
  assumes "Execute (relay stamp t b base cap m) w = (x, w')"
  shows "later (tick w) w'"
proof -
  let ?uc = "relay stamp t b base cap m"
  have body: "later v v'" if r: "pass_body ?uc (NewRelayOutbox stamp) r v = (y, v')" for r v y v'
  proof -
    obtain z v1 where c: "RelayOutbox_ClaimPending b v = (z, v1)" by (metis prod.exhaust)
    from r c show ?thesis
      by (auto simp: pass_body_def port_simps dest: ClaimPending_later publishBatch_later
          dest!: ClaimPending_later [OF c, THEN later_trans] split: sum.splits)
  qed
  obtain e res1 w1 where u: "WithTx (pass_body ?uc (NewRelayOutbox stamp)) (first_result b) (tick w) = ((e, res1), w1)"
    by (metis prod.exhaust)
  from WithTx_later [OF u] body have "later (tick w) w1" by blast
  also have "later w1 w'"
  proof -
    have obs: "later v v'" if "observe ?uc r v = (y, v')" for r v y v'
      using that by (auto simp: observe_def port_simps OutboxStatsReader_Read_def on_pool_def outboxStats_def later_def
          split: sum.splits prod.splits pg_reply.splits)
    from assms u show ?thesis
      by (auto simp: Execute_def port_simps System_Now_def PublishUnitOfWork_Do_def first_result_def Let_def
          split: option.splits prod.splits dest!: obs intro: tick_later)
  qed
  finally show ?thesis .
qed

lemma Execute_ticks: "Execute (relay stamp t b base cap m) w = (x, w') \<Longrightarrow> w_tick w < w_tick w'"
  by (auto simp: later_def dest: Execute_later)

end
