(* ===== verification/SampleWorld.thy ===== *)
theory SampleWorld
  imports Database
begin

text \<open>
  A concrete world on which the theorems are applied: a server and a broker that answer without an
  error unless the script says otherwise, and an outbox with two due rows, one row that is not due
  yet and one that is published.
\<close>

definition scripted :: "'a \<Rightarrow> (nat \<times> 'a) list \<Rightarrow> nat \<Rightarrow> 'a" where
  "scripted usual exceptions n = (case map_of exceptions n of None \<Rightarrow> usual | Some x \<Rightarrow> x)"

definition sample_env :: "(nat \<times> pg_reply) list \<Rightarrow> (nat \<times> produce_reply) list \<Rightarrow> env" where
  "sample_env pg replies =
     \<lparr>env_pg = scripted PgOk pg, env_produce = scripted Acked replies,
      env_mint = (\<lambda>n. Inr (UUID (''id-'' @ Itoa (int n)))),
      env_clock = (\<lambda>n. 1000 * int n), env_pg_clock = (\<lambda>n. 1000000000 + 1000 * int n),
      env_random = (\<lambda>_. 1 / 2), env_scan = (\<lambda>_ _. None), env_ctx = (\<lambda>_. None),
      env_jsonb = (\<lambda>s. s), env_interval = (\<lambda>x. \<lfloor>x * 1000000000\<rfloor>)\<rparr>"

definition sample_row :: "int \<Rightarrow> row_status \<Rightarrow> time \<Rightarrow> outbox_row" where
  "sample_row i st available =
     \<lparr>bk_status = st, bk_attempts = 0, bk_available = available, bk_error = None, row_id = i,
      row_event_id = UUID (''event-'' @ Itoa i), row_aggregate_type = ''User'',
      row_aggregate_id = ''user-1'', row_event_type = ''registered'', row_schema_version = 1,
      row_payload = ''{}'', row_headers = [], row_occurred_at = 0,
      row_published_at = (if st = StatusPublished then Some 10 else None)\<rparr>"

definition sample_world :: "(nat \<times> pg_reply) list \<Rightarrow> (nat \<times> produce_reply) list \<Rightarrow> world" where
  "sample_world pg replies =
     \<lparr>w_env = sample_env pg replies, w_tick = 0, w_users = [],
      w_outbox = [sample_row 3 StatusPending 0, sample_row 2 StatusPending 0,
                  sample_row 4 StatusPending 5000000000],
      w_seq = 5, w_locked = [], w_tx = None, w_broker = [], w_heap = (\<lambda>_. undefined),
      w_heap_top = 0, w_tracked = [], w_notified = 0, w_log = []\<rparr>"

end
