(* ===== verification/RelayProperties.thy ===== *)
theory RelayProperties
  imports Delivery SampleWorld
begin

text \<open>
  What a relay pass guarantees, on the adapters and for every script of the environment: the
  delivery guarantee, the rule for parking a row, the refinement of the abstract pass with its
  atomicity, and the order of the records in the broker's log.
\<close>

subsection \<open>An example\<close>

definition sample_topics :: Topics where
  "sample_topics = [''User'' \<mapsto> ''accounts.users'']"

abbreviation sample_relay :: "world PublishPendingBatch" where
  "sample_relay \<equiv> relay (\<lambda>t. t) sample_topics 10 1000000000 60000000000 5"

text \<open>
  In the first pass the produces are interactions 4 and 6, the commit is interaction 8.  \<open>too_large\<close>
  is a permanent answer to the first produce, \<open>unavailable\<close> a transient one.
\<close>

definition too_large :: "(nat \<times> produce_reply) list" where
  "too_large = [(4, Refused (BrokerError 10 False ''MESSAGE_TOO_LARGE''))]"

definition unavailable :: "(nat \<times> produce_reply) list" where
  "unavailable = [(4, AckLost (ClientError ''connection reset''))]"

lemma Execute_pair: "Execute uc w = ((fst (fst (Execute uc w)), snd (fst (Execute uc w))), snd (Execute uc w))"
  by simp

subsection \<open>Permanent verdicts\<close>

text \<open>A permanent verdict on a row's message: there is no topic for it, or the broker said so.\<close>

definition permanent_reply :: "produce_reply \<Rightarrow> bool" where
  "permanent_reply p = (case p of
      Acked \<Rightarrow> False
    | Refused e \<Rightarrow> (case errors_As_kafka (client_gerr e) of
        None \<Rightarrow> False | Some (code, retriable) \<Rightarrow> code \<in> set permanentCodes \<or> \<not> retriable)
    | AckLost e \<Rightarrow> (case errors_As_kafka (client_gerr e) of
        None \<Rightarrow> False | Some (code, retriable) \<Rightarrow> code \<in> set permanentCodes \<or> \<not> retriable))"

definition condemned :: "Topics \<Rightarrow> env \<Rightarrow> outbox_row \<Rightarrow> bool" where
  "condemned t E r \<longleftrightarrow>
     (\<exists>e. Topics_For t (row_aggregate_type r) = Inl e) \<or> (\<exists>n. permanent_reply (env_produce E n))"

lemma classify_permanent:
  assumes "classify (Some (client_gerr e)) = Some x" "errors_Is x ErrPermanent"
  shows "\<exists>c rt. errors_As_kafka (client_gerr e) = Some (c, rt) \<and> (c \<in> set permanentCodes \<or> \<not> rt)"
  using assms by (auto simp: classify_def relay_errors split: option.splits if_splits)

lemma publish_permanent_condemns:
  assumes "publish (relay stamp t b base cap m) (scan_row r) v = (Some e, v')" "errors_Is e ErrPermanent"
  shows "condemned t (w_env v) r"
proof (cases "Topics_For t (row_aggregate_type r)")
  case (Inr topic)
  with assms(1) have "Publisher_Publish (message_of (scan_row r) topic) v = (Some e, v')"
    by (simp add: publish_def port_simps scan_row_def)
  then obtain x where "env_produce (w_env v) (w_tick v) \<in> {Refused x, AckLost x}"
      "classify (Some (client_gerr x)) = Some e"
    by (auto simp: Publisher_Publish_def ProduceSync_def split: produce_reply.splits)
  with classify_permanent [of x e] assms(2) show ?thesis
    by (auto simp: condemned_def permanent_reply_def intro!: exI [of _ "w_tick v"])
qed (simp add: condemned_def)

subsection \<open>Delivery\<close>

text \<open>
  C6: At least once.  If every published row of the outbox has its message in the broker before a
  relay pass, so it has after the pass, whatever the database and the broker answer on the way:
  acknowledgements that get lost, failing statements, a failing or an ambiguous commit.  A row is
  never marked published on the strength of a produce that was not acknowledged.
\<close>

theorem published_rows_are_announced:
  assumes "Execute (relay stamp t b base cap m) w = (x, w')"
    and "distinct (map row_id (w_outbox w))"
    and "\<forall>r \<in> set (w_outbox w). bk_status r = StatusPublished \<longrightarrow> announced t w r"
  shows "\<forall>r \<in> set (w_outbox w'). bk_status r = StatusPublished \<longrightarrow> announced t w' r"
  using Execute_delivers [OF assms(1,2)] assms(3) by (rule delivers_announced)

lemma published_rows_are_announced_witness:
  "let w = sample_world [(8, PgLost (Ext ''reset''))] too_large; w' = snd (Execute sample_relay w)
   in map bk_status (w_outbox w') = [StatusPublished, StatusFailed, StatusPending] \<and>
      (\<forall>r \<in> set (w_outbox w'). bk_status r = StatusPublished \<longrightarrow> announced sample_topics w' r)"
proof -
  let ?w = "sample_world [(8, PgLost (Ext ''reset''))] too_large"
  have "distinct (map row_id (w_outbox ?w))"
    "\<forall>r \<in> set (w_outbox ?w). bk_status r = StatusPublished \<longrightarrow> announced sample_topics ?w r"
    by code_simp+
  from published_rows_are_announced [OF Execute_pair this]
  have "\<forall>r \<in> set (w_outbox (snd (Execute sample_relay ?w))).
      bk_status r = StatusPublished \<longrightarrow> announced sample_topics (snd (Execute sample_relay ?w)) r" .
  moreover have "map bk_status (w_outbox (snd (Execute sample_relay ?w)))
      = [StatusPublished, StatusFailed, StatusPending]" by code_simp
  ultimately show ?thesis by (simp only: Let_def simp_thms)
qed

text \<open>
  C19: Only a permanent verdict parks a row.  A row that has the status failed after a pass had it
  before, or its aggregate type has no topic, or the broker answered some produce with an error
  that is not retriable or that names an unknown topic.  In particular no number of attempts parks
  a row whose failures are transient.
\<close>

theorem only_permanent_errors_park:
  assumes "Execute (relay stamp t b base cap m) w = (x, w')"
    and "distinct (map row_id (w_outbox w))"
    and "r \<in> set (w_outbox w')" and "bk_status r = StatusFailed"
  shows "(\<exists>r0 \<in> set (w_outbox w). row_id r0 = row_id r \<and> bk_status r0 = StatusFailed) \<or>
         condemned t (w_env w) r"
proof -
  let ?Q = "\<lambda>v r s :: outbox_row. bk_status s = StatusFailed \<longrightarrow>
      bk_status r = StatusFailed \<or> condemned t (w_env w) r"
  have stable: "broker_stable ?Q" by (auto simp: broker_stable_def)
  have "passed ?Q w w'"
  proof (rule pass_invariant [OF assms(1) stable assms(2)])
    fix r v e v'
    assume "publish (relay stamp t b base cap m) (scan_row r) v = (Some e, v')"
      "errors_Is e ErrPermanent" "w_env v = w_env w"
    then show "?Q v' r s" for s by (auto dest: publish_permanent_condemns)
  qed (auto simp: set_published_def set_rescheduled_def split: if_splits)
  then obtain g where g: "w_outbox w' = map g (w_outbox w)"
      "\<forall>r \<in> set (w_outbox w). content (g r) = content r \<and> ?Q w' r (g r)"
    by (auto simp: passed_def)
  from assms(3) g(1) obtain r0 where r0: "r0 \<in> set (w_outbox w)" "r = g r0" by auto
  with g(2) have c: "content r = content r0" by simp
  then have "condemned t E r = condemned t E r0" for E by (simp add: condemned_def content_def)
  with g(2) r0 assms(4) content_eqD [OF c] show ?thesis by force
qed

lemma only_permanent_errors_park_witness:
  "let w = sample_world [] too_large; w' = snd (Execute sample_relay w); r = w_outbox w' ! 1
   in bk_status r = StatusFailed \<and>
      ((\<exists>r0 \<in> set (w_outbox w). row_id r0 = row_id r \<and> bk_status r0 = StatusFailed) \<or>
       condemned sample_topics (w_env w) r)"
proof -
  let ?w = "sample_world [] too_large"
  let ?w' = "snd (Execute sample_relay ?w)"
  have d: "distinct (map row_id (w_outbox ?w))" by code_simp
  have f: "bk_status (w_outbox ?w' ! 1) = StatusFailed" by code_simp
  have "1 < length (w_outbox ?w')" by code_simp
  then have "w_outbox ?w' ! 1 \<in> set (w_outbox ?w')" by (rule nth_mem)
  from only_permanent_errors_park [OF Execute_pair d this f] f
  show ?thesis by (simp only: Let_def simp_thms)
qed

subsection \<open>Refinement and atomicity\<close>

text \<open>
  \<open>full_pass\<close>: the rows the claim selects from the committed table are settled, by exactly the
  outcomes of an abstract pass over them; the broker's log has grown by messages of these rows in
  batch order, among them each message of a row that was marked published; the result counts
  these outcomes.
\<close>

definition full_pass ::
    "(time \<Rightarrow> time) \<Rightarrow> Topics \<Rightarrow> int \<Rightarrow> world \<Rightarrow> world \<Rightarrow> PublishResult \<Rightarrow> bool" where
  "full_pass stamp t b w w' res \<longleftrightarrow>
     (\<exists>now outs. let batch = map scan_row (claimed now b w); T = tally batch outs empty_result in
        follows batch outs \<and>
        book w' = settle stamp (zip (map pm_ID batch) outs) (book w) \<and>
        (\<exists>ms. w_broker w' = w_broker w @ ms \<and> subseq (sent_messages record_of t batch outs) ms \<and>
           subseq ms (concat (map (routed record_of t) (take (length outs) batch)))) \<and>
        res_Claimed res = int (length batch) \<and> res_Published res = res_Published T \<and>
        res_Permanent res = res_Permanent T \<and> res_Transient res = res_Transient T)"

lemma find_map_key:
  "(\<And>x. x \<in> set xs \<Longrightarrow> f (g x) = f x) \<Longrightarrow>
     find (\<lambda>x. f x = k) (map g xs) = map_option g (find (\<lambda>x. f x = k) xs)"
  by (induction xs) auto

lemma book_commit:
  assumes inv: "tx_inv Q w v" and t: "w_tx v = Some t"
  shows "book (apply_txn t (tick v)) = book v"
proof (rule ext)
  fix i
  have id: "row_id (patched t r) = row_id r" for r
    using inv t by (auto simp: tx_inv_def patched_def intro: content_eqD)
  have "row_of (apply_txn t (tick v)) i = row_of v i"
    using t find_map_key [of "base_rows v t" row_id "patched t" i] id
    by (simp add: row_of_def apply_txn_def tx_view_def base_rows_def)
  then show "book (apply_txn t (tick v)) i = book v i" by (simp add: book_def)
qed

lemma book_fresh:
  assumes "w_tx v = Some ((fresh_txn now)\<lparr>tx_locks := l\<rparr>)" "w_outbox v = w_outbox w" "w_tx w = None"
  shows "book v = book w"
proof (rule ext)
  fix i
  have "patched ((fresh_txn now)\<lparr>tx_locks := l\<rparr>) = (\<lambda>r. r)"
    by (rule ext) (simp add: patched_def fresh_txn_def)
  then have "row_of v i = row_of w i"
    by (simp add: row_of_def assms base_rows_def option.map_ident) (simp add: fresh_txn_def)
  then show "book v i = book w i" by (simp add: book_def)
qed

lemma apply_txn_broker: "w_broker (apply_txn tx v) = w_broker v"
  by (simp add: apply_txn_def)

lemma claimed_cong:
  "w_locked w' = w_locked w \<Longrightarrow> w_outbox w' = w_outbox w \<Longrightarrow> claimed now b w' = claimed now b w"
  by (simp add: claimed_def)

lemma tally_fields:
  "res_Claimed (tally batch outs res) = res_Claimed res"
  "res_Published (tally batch outs res) =
     res_Published res + res_Published (tally batch outs empty_result)"
  "res_Permanent (tally batch outs res) =
     res_Permanent res @ res_Permanent (tally batch outs empty_result)"
  "res_Transient (tally batch outs res) =
     res_Transient res @ res_Transient (tally batch outs empty_result)"
  by (simp_all add: tally_def empty_result_def)

lemma committed_full_pass:
  assumes "pg_begin w = (None, v1)" "w_tx w = None" "distinct (map row_id (w_outbox w))"
    and "pass_body (relay stamp t b base cap m) (NewRelayOutbox stamp) (first_result b) v1 = ((None, res), v2)"
    and "w_tx v2 = Some tx"
  shows "full_pass stamp t b w (apply_txn tx (tick v2)) res"
proof -
  note v1 = pg_begin_relay [OF assms(1)]
  from assms(4) show ?thesis
  proof (cases rule: pass_body_cases)
    case (batch ms w2)
    note c = claim_fresh [OF batch(1) v1(1)] and cf = ClaimPending_frame [OF batch(1)]
    let ?now = "env_pg_clock (w_env w) (w_tick w)"
    let ?Q = "\<lambda>_ _ _. True"
    have ob: "w_outbox v1 = w_outbox w" "w_outbox w2 = w_outbox w"
      using v1(2) cf(1) by (simp_all add: same_db_def)
    have ms: "ms = map scan_row (claimed ?now b w)"
      using c(1) claimed_cong [OF v1(4) ob(1)] by simp
    have "tx_inv ?Q v1 w2" by (rule tx_inv_start [OF batch(1) v1(1)]) simp
    then have "tx_inv ?Q v1 v2"
      by (rule batch_invariant [OF batch(2) c(1)]) (simp_all add: broker_stable_def ob assms(3))
    then have bk: "book (apply_txn tx (tick v2)) = book v2" by (rule book_commit) (rule assms)
    have bk2: "book w2 = book w" by (rule book_fresh [OF c(3) ob(2) assms(2)])
    from pass.publishBatch_refines [OF batch(2)] obtain outs where
        a: "relay_pass.abstract_pass (relay stamp t b base cap m) book w_broker record_of stamp ms outs w2 v2"
        and r: "res = tally ms outs ((first_result b)\<lparr>res_Claimed := int (length ms)\<rparr>)" by blast
    have first: "res_Published (first_result b) = 0" "res_Permanent (first_result b) = []"
      "res_Transient (first_result b) = []" by (simp_all add: first_result_def empty_result_def)
    show ?thesis unfolding full_pass_def Let_def
      by (rule exI [of _ ?now], rule exI [of _ outs], fold ms)
        (use a in \<open>simp add: pass.abstract_pass_def bk bk2 port_simps cf(2) v1(3) r tally_fields(1)
           tally_fields(2-4) [of ms outs "(first_result b)\<lparr>res_Claimed := int (length ms)\<rparr>"] first
           apply_txn_broker\<close>)
  qed simp
qed

lemma body_keeps:
  assumes "pg_begin w = (None, v1)" "distinct (map row_id (w_outbox w))"
    and "pass_body (relay stamp t b base cap m) (NewRelayOutbox stamp) r v1 = ((e, res), v2)"
  shows "same_db w v2"
  using assms(3)
proof (cases rule: pass_body_cases)
  case refused
  with pg_begin_relay(2) [OF assms(1)] show ?thesis by (auto intro: same_db_trans)
next
  case (batch ms w2)
  note v1 = pg_begin_relay [OF assms(1)]
  have "w_outbox v1 = w_outbox w" using v1(2) by (simp add: same_db_def)
  then have "tx_inv (\<lambda>_ _ _. True) v1 v2"
    using batch_invariant [OF batch(2) claim_fresh(1) [OF batch(1) v1(1)]
        tx_inv_start [OF batch(1) v1(1), where Q = "\<lambda>_ _ _. True"]]
    by (simp add: broker_stable_def assms(2))
  with v1(2) tx_inv_keeps show ?thesis by (blast intro: same_db_trans)
qed

lemma full_pass_frame:
  assumes "full_pass stamp t b w v res" "book v' = book v" "w_broker v' = w_broker v"
    "res_Claimed res' = res_Claimed res" "res_Published res' = res_Published res"
    "res_Permanent res' = res_Permanent res" "res_Transient res' = res_Transient res"
  shows "full_pass stamp t b w v' res'"
  using assms by (simp add: full_pass_def)

text \<open>
  C7: A pass that returns without an error implements the abstract pass: it claims the due rows,
  settles an initial part of them in order, each by its own outcome, and stops early only behind a
  row it rescheduled; the bookkeeping in the database, the broker's log and the result that is
  logged agree with these outcomes.
\<close>

theorem relay_pass_refines:
  assumes "Execute (relay stamp t b base cap m) w = ((res, None), w')"
    and "w_tx w = None" and "distinct (map row_id (w_outbox w))"
  shows "full_pass stamp t b w w' res"
proof -
  from assms(1) obtain res1 w1 where
      tx: "WithTx (pass_body (relay stamp t b base cap m) (NewRelayOutbox stamp)) (first_result b) (tick w)
         = ((None, res1), w1)"
      and w1: "same_db w1 w'" "w_broker w' = w_broker w1" "w_tx w' = w_tx w1"
      and res: "res_Claimed res = res_Claimed res1" "res_Published res = res_Published res1"
        "res_Transient res = res_Transient res1" "res_Permanent res = res_Permanent res1"
    by (rule Execute_WithTx)
  from w1 have bk: "book w' = book w1" by (intro book_cong) (simp_all add: same_db_def)
  from tx show ?thesis
  proof (cases rule: WithTx_cases)
    case (committed v1 v2 tx)
    have "full_pass stamp t b (tick w) w1 res1"
      unfolding committed(5) using committed assms(2,3)
      by (intro committed_full_pass) simp_all
    then have "full_pass stamp t b w w1 res1"
      by (simp add: full_pass_def claimed_def)
    then show ?thesis by (rule full_pass_frame) (use bk w1 res in simp_all)
  qed simp_all
qed

lemma relay_pass_refines_witness:
  "let w = sample_world [] unavailable
   in full_pass (\<lambda>t. t) sample_topics 10 w (snd (Execute sample_relay w)) (fst (fst (Execute sample_relay w)))"
proof -
  let ?w = "sample_world [] unavailable"
  have "snd (fst (Execute sample_relay ?w)) = None" by code_simp
  then have run: "Execute sample_relay ?w =
      ((fst (fst (Execute sample_relay ?w)), None), snd (Execute sample_relay ?w))"
    using Execute_pair [of sample_relay ?w] by simp
  have "w_tx ?w = None" "distinct (map row_id (w_outbox ?w))" by code_simp+
  from relay_pass_refines [OF run this] show ?thesis by (simp only: Let_def)
qed

text \<open>
  C11: A pass that returns an error is all or nothing.  The tables are as before the pass, or the
  error is the one of the commit and the commit has taken effect in full; the pass is never
  applied in part.
\<close>

theorem failed_pass_is_atomic:
  assumes "Execute (relay stamp t b base cap m) w = ((res, Some err), w')"
    and "w_tx w = None" and "distinct (map row_id (w_outbox w))"
  shows "(w_outbox w' = w_outbox w \<and> w_users w' = w_users w) \<or>
         ((\<exists>e. err = wrapf ''postgres: commit'' e) \<and> full_pass stamp t b w w' res)"
proof -
  from assms(1) obtain res1 w1 where
      tx: "WithTx (pass_body (relay stamp t b base cap m) (NewRelayOutbox stamp)) (first_result b) (tick w)
         = ((Some err, res1), w1)"
      and w1: "same_db w1 w'" "w_broker w' = w_broker w1" "w_tx w' = w_tx w1"
      and res: "res_Claimed res = res_Claimed res1" "res_Published res = res_Published res1"
        "res_Transient res = res_Transient res1" "res_Permanent res = res_Permanent res1"
    by (rule Execute_WithTx)
  from w1 have bk: "book w' = book w1" by (intro book_cong) (simp_all add: same_db_def)
  from tx show ?thesis
  proof (cases rule: WithTx_cases)
    case (no_begin e)
    with w1 show ?thesis by (simp add: same_db_def)
  next
    case (failed v1 v2 e)
    from body_keeps [OF failed(1) _ failed(2)] assms(3) failed(4) w1 show ?thesis by (simp add: same_db_def)
  next
    case (not_committed v1 v2 v3 e)
    from body_keeps [OF not_committed(1) _ not_committed(2)] assms(3) not_committed(5,7) w1 show ?thesis
      by (simp add: same_db_def)
  next
    case (committed v1 v2 tx)
    have "full_pass stamp t b (tick w) w1 res1"
      unfolding committed(5) using committed assms(2,3)
      by (intro committed_full_pass) simp_all
    then have "full_pass stamp t b w w1 res1"
      by (simp add: full_pass_def claimed_def)
    then have "full_pass stamp t b w w' res" by (rule full_pass_frame) (use bk w1 res in simp_all)
    with committed(6) show ?thesis by blast
  qed
qed

lemma failed_pass_is_atomic_witness:
  "let w = sample_world [(8, PgLost (Ext ''reset''))] []; w' = snd (Execute sample_relay w);
       err = wrapf ''postgres: commit'' (Ext ''reset'')
   in (w_outbox w' = w_outbox w \<and> w_users w' = w_users w) \<or>
      ((\<exists>e. err = wrapf ''postgres: commit'' e) \<and>
       full_pass (\<lambda>t. t) sample_topics 10 w w' (fst (fst (Execute sample_relay w))))"
proof -
  let ?w = "sample_world [(8, PgLost (Ext ''reset''))] []"
  have "snd (fst (Execute sample_relay ?w)) = Some (wrapf ''postgres: commit'' (Ext ''reset''))"
    by code_simp
  then have run: "Execute sample_relay ?w = ((fst (fst (Execute sample_relay ?w)),
      Some (wrapf ''postgres: commit'' (Ext ''reset''))), snd (Execute sample_relay ?w))"
    using Execute_pair [of sample_relay ?w] by simp
  have "w_tx ?w = None" "distinct (map row_id (w_outbox ?w))" by code_simp+
  from failed_pass_is_atomic [OF run this] show ?thesis by (simp only: Let_def)
qed

subsection \<open>The claim and the order of the log\<close>

text \<open>
  C12: The claim, on a fresh transaction: the claimed rows are pending, due and not locked by
  another relay; they come in id order and are at most \<open>limit\<close>; a due row that is left out has a
  larger id than every claimed one, and then the batch is full.
\<close>

theorem claim_takes_the_first_due_rows:
  assumes "RelayOutbox_ClaimPending limit w = (Inr batch, w')"
    and "w_tx w = Some (fresh_txn now)"
  shows "\<exists>rows. batch = map scan_row rows \<and> sorted (map row_id rows) \<and> int (length rows) \<le> limit \<and>
    (\<forall>r \<in> set rows. r \<in> set (w_outbox w) \<and> due now (w_locked w) r) \<and>
    (\<forall>r \<in> set (w_outbox w). due now (w_locked w) r \<longrightarrow> r \<notin> set rows \<longrightarrow>
       int (length rows) = limit \<and> (\<forall>c \<in> set rows. row_id c \<le> row_id r))"
proof -
  note c = claim_fresh [OF assms]
  let ?all = "sort_key row_id (filter (due now (w_locked w)) (w_outbox w))"
  let ?rows = "claimed now limit w"
  have split: "?all = ?rows @ drop (nat limit) ?all" by (simp add: claimed_def)
  have "sorted (map row_id (?rows @ drop (nat limit) ?all))" unfolding split [symmetric] by simp
  then have s: "sorted (map row_id ?rows)"
      "\<forall>c \<in> set ?rows. \<forall>r \<in> set (drop (nat limit) ?all). row_id c \<le> row_id r"
    by (auto simp: sorted_append)
  have "set ?all = set ?rows \<union> set (drop (nat limit) ?all)" by (subst split) simp
  then have all: "{r \<in> set (w_outbox w). due now (w_locked w) r} = set ?rows \<union> set (drop (nat limit) ?all)"
    by simp
  have len: "length ?rows = nat limit" if "drop (nat limit) ?all \<noteq> []"
    using that by (simp add: claimed_def)
  have "length ?rows \<le> nat limit" by (simp add: claimed_def)
  then have "int (length ?rows) \<le> limit" using c(2) by linarith
  moreover have "int (length ?rows) = limit \<and> (\<forall>c \<in> set ?rows. row_id c \<le> row_id r)"
    if "r \<in> set (w_outbox w)" "due now (w_locked w) r" "r \<notin> set ?rows" for r
  proof -
    from that all have r: "r \<in> set (drop (nat limit) ?all)" by blast
    then have "drop (nat limit) ?all \<noteq> []" by auto
    from len [OF this] c(2) s(2) r show ?thesis by auto
  qed
  ultimately show ?thesis using c(1) s(1) all by (intro exI [of _ ?rows]) blast
qed

definition claiming_world :: world where
  "claiming_world = (sample_world [] [])\<lparr>w_locked := [3], w_tx := Some (fresh_txn 1000)\<rparr>"

lemma claim_takes_the_first_due_rows_witness:
  "let batch = [scan_row (sample_row 2 StatusPending 0)]; w = claiming_world
   in fst (RelayOutbox_ClaimPending 2 w) = Inr batch \<and>
      (\<exists>rows. batch = map scan_row rows \<and> sorted (map row_id rows) \<and> int (length rows) \<le> 2 \<and>
    (\<forall>r \<in> set rows. r \<in> set (w_outbox w) \<and> due 1000 (w_locked w) r) \<and>
    (\<forall>r \<in> set (w_outbox w). due 1000 (w_locked w) r \<longrightarrow> r \<notin> set rows \<longrightarrow>
       int (length rows) = 2 \<and> (\<forall>c \<in> set rows. row_id c \<le> row_id r)))"
proof -
  have f: "fst (RelayOutbox_ClaimPending 2 claiming_world) = Inr [scan_row (sample_row 2 StatusPending 0)]"
    by code_simp
  then have run: "RelayOutbox_ClaimPending 2 claiming_world =
      (Inr [scan_row (sample_row 2 StatusPending 0)], snd (RelayOutbox_ClaimPending 2 claiming_world))"
    by (metis prod.collapse)
  have "w_tx claiming_world = Some (fresh_txn 1000)" by (simp add: claiming_world_def)
  from claim_takes_the_first_due_rows [OF run this] f show ?thesis by (simp only: Let_def simp_thms)
qed

text \<open>
  C17: Order.  Whatever a pass returns, the broker's log has grown by records of the claimed rows,
  at most one for each row and in id order, and the result's count of published messages never
  exceeds what the broker has taken.
\<close>

theorem log_grows_in_id_order:
  assumes "Execute (relay stamp t b base cap m) w = ((res, err), w')"
  shows "\<exists>now ms. w_broker w' = w_broker w @ ms \<and>
    subseq ms (concat (map (\<lambda>r. routed record_of t (scan_row r)) (claimed now b w))) \<and>
    sorted (map row_id (claimed now b w)) \<and>
    0 \<le> res_Published res \<and> res_Published res \<le> int (length ms)"
proof -
  let ?P = "\<lambda>v r. \<exists>now ms. w_broker v = w_broker w @ ms \<and>
    subseq ms (concat (map (\<lambda>r. routed record_of t (scan_row r)) (claimed now b w))) \<and>
    sorted (map row_id (claimed now b w)) \<and> 0 \<le> res_Published r \<and> res_Published r \<le> int (length ms)"
  have sorted: "sorted (map row_id (claimed now b w))" for now
    unfolding claimed_def by (simp add: take_map [symmetric] sorted_wrt_take)
  from assms obtain res1 w1 where
      tx: "WithTx (pass_body (relay stamp t b base cap m) (NewRelayOutbox stamp)) (first_result b) (tick w)
         = ((err, res1), w1)"
      and w1: "w_broker w' = w_broker w1" "res_Published res = res_Published res1"
    by (rule Execute_WithTx)
  have z: "res_Published (first_result b) = 0" by (simp add: first_result_def empty_result_def)
  have start: "?P v (first_result b)" if "w_broker v = w_broker w" for v
    using that z sorted by (intro exI [of _ 0] exI [of _ "[]"]) simp
  have body: "?P v2 r'" if beg: "pg_begin (tick w) = (None, v1)"
      and b: "pass_body (relay stamp t b base cap m) (NewRelayOutbox stamp) (first_result b) v1
        = ((e, r'), v2)" for v1 e r' v2
  proof -
    note v1 = pg_begin_relay [OF beg]
    from b show ?thesis
    proof (cases rule: pass_body_cases)
      case (refused e)
      show ?thesis unfolding refused(2) by (rule start) (use refused(4) v1(3) in simp)
    next
      case (batch ms w2)
      note c = claim_fresh(1) [OF batch(1) v1(1)] and cf = ClaimPending_frame [OF batch(1)]
      have "w_outbox v1 = w_outbox w" "w_locked v1 = w_locked w"
        using v1 by (simp_all add: same_db_def)
      then have cl: "claimed now b v1 = claimed now b w" for now by (rule claimed_cong [rotated])
      from pass.publishBatch_logged [OF batch(2)] obtain l k where
          l: "w_broker v2 = w_broker w2 @ l" "subseq l (concat (map (routed record_of t) ms))"
            "res_Published r' = int k" "k \<le> length l"
        by (auto simp: pass.logged_def port_simps z)
      have "w_broker v2 = w_broker w @ l" using l(1) cf(2) v1(3) by simp
      moreover have "subseq l (concat (map (\<lambda>r. routed record_of t (scan_row r))
          (claimed (env_pg_clock (w_env (tick w)) (w_tick (tick w))) b w)))"
        using l(2) unfolding c cl by (simp add: comp_def)
      ultimately show ?thesis using l(3,4) sorted by auto
    qed
  qed
  from tx have "?P w1 res1"
  proof (cases rule: WithTx_cases)
    case (no_begin e)
    show ?thesis unfolding no_begin(2) by (rule start) (use no_begin(3) in simp)
  next
    case (failed v1 v2 e)
    from body [OF failed(1,2)] failed(4) show ?thesis by simp
  next
    case (not_committed v1 v2 v3 e)
    from body [OF not_committed(1,2)] not_committed(6,7) show ?thesis by simp
  next
    case (committed v1 v2 tx)
    from body [OF committed(1,2)] committed(5) show ?thesis by (simp add: apply_txn_broker)
  qed
  with w1 show ?thesis by simp
qed

lemma log_grows_in_id_order_witness:
  "let w = sample_world [] []; w' = snd (Execute sample_relay w); res = fst (fst (Execute sample_relay w))
   in res_Published res = 2 \<and>
      (\<exists>now ms. w_broker w' = w_broker w @ ms \<and>
        subseq ms (concat (map (\<lambda>r. routed record_of sample_topics (scan_row r)) (claimed now 10 w))) \<and>
        sorted (map row_id (claimed now 10 w)) \<and> 0 \<le> res_Published res \<and> res_Published res \<le> int (length ms))"
proof -
  let ?w = "sample_world [] []"
  have "res_Published (fst (fst (Execute sample_relay ?w))) = 2" by code_simp
  with log_grows_in_id_order [OF Execute_pair [of sample_relay ?w]] show ?thesis
    by (simp only: Let_def simp_thms)
qed

subsection \<open>The record on the wire\<close>

text \<open>
  C16: The headers of a record.  The five headers of the contract have the values of the message
  whatever headers are stored with the row, every other stored header is on the record unchanged,
  and there is nothing else; the keys are distinct and sorted.
\<close>

theorem record_headers_contract:
  "map_of (rec_Headers (record_of (message_of p topic))) k =
     (if k = HeaderEventID then Some (uuid_text (env_EventID p))
      else if k = HeaderEventType then Some (env_EventType p)
      else if k = HeaderSpecVersion then Some SpecVersion
      else if k = HeaderSchemaVersion then Some (Itoa (env_SchemaVersion p))
      else if k = HeaderContentType then Some DataContentType
      else map_of (rev (env_Headers p)) k) \<and>
   sorted (map fst (rec_Headers (record_of (message_of p topic)))) \<and>
   distinct (map fst (rec_Headers (record_of (message_of p topic))))"
  by (simp add: record_of_def message_of_def Let_def map_of_recordHeaders distinct_publishHeaders
      map_of_publishHeaders sorted_recordHeaders distinct_recordHeaders header_names)

end
