(* ===== verification/WritePath.thy ===== *)
theory WritePath
  imports Database
begin

text \<open>
  The producing side: the aggregate tracker, the user repository, the outbox repository and the
  unit of work of \<open>internal/accounts/infrastructure/postgres\<close>, the notifier of
  \<open>infrastructure/wakeup/notify.go\<close>, and the use case \<open>register_user.go\<close> on top of them.  A
  \<open>*domain.User\<close> is an address of the heap \<open>w_heap\<close>, so that draining an aggregate is seen
  through every pointer to it.
\<close>

subsection \<open>The tracker\<close>

definition alloc :: "User \<Rightarrow> (world, nat) act" where
  "alloc u w = (w_heap_top w,
     w\<lparr>w_heap := (w_heap w)(w_heap_top w := u), w_heap_top := Suc (w_heap_top w)\<rparr>)"

definition newTracker :: "world \<Rightarrow> world" where
  "newTracker w = w\<lparr>w_tracked := []\<rparr>"

definition track :: "nat \<Rightarrow> world \<Rightarrow> world" where
  "track a w = w\<lparr>w_tracked := w_tracked w @ [a]\<rparr>"

fun drain_loop :: "nat list \<Rightarrow> (nat \<Rightarrow> User) \<Rightarrow> Event list \<times> (nat \<Rightarrow> User)" where
  "drain_loop [] h = ([], h)"
| "drain_loop (a # as) h =
     (let (es, u) = PullEvents (h a); (rest, h) = drain_loop as (h(a := u)) in (es @ rest, h))"

definition drain :: "(world, Event list) act" where
  "drain w = (let (es, h) = drain_loop (w_tracked w) (w_heap w)
              in (es, w\<lparr>w_heap := h, w_tracked := []\<rparr>))"

subsection \<open>The user repository\<close>

definition uniqueViolation :: string where "uniqueViolation = ''23505''"
definition emailUniqueConstraint :: string where "emailUniqueConstraint = ''users_email_key''"

text \<open>
  \<open>INSERT INTO accounts.users\<close>: the primary key and the constraint \<open>users_email_key\<close> hold
  against every row the statement sees.
\<close>

definition users_view :: "world \<Rightarrow> txn \<Rightarrow> user_row list" where
  "users_view w t = w_users w @ tx_users t"

definition insertUser :: "user_row \<Rightarrow> unit stmt" where
  "insertUser u w t =
     ((if usr_id u \<in> usr_id ` set (users_view w t)
       then Inl (PgError uniqueViolation ''users_pkey'' ''duplicate key'')
       else if usr_email u \<in> usr_email ` set (users_view w t)
       then Inl (PgError uniqueViolation emailUniqueConstraint ''duplicate key'')
       else Inr ((), t\<lparr>tx_users := tx_users t @ [u]\<rparr>)), w_seq w)"

definition user_row_of :: "(time \<Rightarrow> time) \<Rightarrow> User \<Rightarrow> user_row" where
  "user_row_of stamp u =
     \<lparr>usr_id = u_id u, usr_email = Email_String (u_email u),
      usr_display_name = DisplayName_String (u_displayName u), usr_version = u_version u,
      usr_created_at = stamp (u_createdAt u)\<rparr>"

definition userRepository_Save :: "(time \<Rightarrow> time) \<Rightarrow> nat \<Rightarrow> (world, gerr option) act" where
  "userRepository_Save stamp a w =
     (let u = w_heap w a
      in case in_tx (insertUser (user_row_of stamp u)) w of
           (Inl err, w) \<Rightarrow>
             (if errors_As_pg err = Some (uniqueViolation, emailUniqueConstraint)
              then (Some (Errorf (error_text ErrEmailTaken @ '': '' @ Email_String (u_email u)) [ErrEmailTaken]), w)
              else (Some (wrapf (''postgres: save user '' @ uuid_text (u_id u)) err), w))
         | (Inr _, w) \<Rightarrow> (None, track a w))"

subsection \<open>The outbox repository\<close>

text \<open>
  \<open>INSERT INTO accounts.outbox\<close>, one queued statement: the id comes from the sequence, the
  relay's columns from their defaults (\<open>now()\<close> is the start of the transaction), and
  \<open>event_id\<close> is unique.
\<close>

definition outbox_row_of :: "env \<Rightarrow> (time \<Rightarrow> time) \<Rightarrow> time \<Rightarrow> int \<Rightarrow> Envelope \<Rightarrow> outbox_row" where
  "outbox_row_of E stamp now i e =
     \<lparr>bk_status = StatusPending, bk_attempts = 0, bk_available = now, bk_error = None,
      row_id = i, row_event_id = env_EventID e, row_aggregate_type = env_AggregateType e,
      row_aggregate_id = env_AggregateID e, row_event_type = env_EventType e,
      row_schema_version = env_SchemaVersion e, row_payload = env_jsonb E (env_Payload e),
      row_headers = env_Headers e, row_occurred_at = stamp (env_OccurredAt e),
      row_published_at = None\<rparr>"

definition insertOutbox :: "(time \<Rightarrow> time) \<Rightarrow> Envelope \<Rightarrow> unit stmt" where
  "insertOutbox stamp e w t =
     ((if env_EventID e \<in> row_event_id ` set (base_rows w t)
       then Inl (PgError uniqueViolation ''outbox_event_id_key'' ''duplicate key'')
       else Inr ((), t\<lparr>tx_rows := tx_rows t @ [outbox_row_of (w_env w) stamp (tx_now t) (w_seq w) e]\<rparr>)),
      w_seq w + 1)"

text \<open>
  The results of the batch are read in order and the first error ends it; \<open>Close\<close> is one more
  interaction.
\<close>

fun Append_loop :: "(time \<Rightarrow> time) \<Rightarrow> nat \<Rightarrow> Envelope list \<Rightarrow> (world, gerr option) act" where
  "Append_loop stamp i [] w = (None, w)"
| "Append_loop stamp i (e # es) w =
     (case in_tx (insertOutbox stamp e) w of
        (Inl err, w) \<Rightarrow>
          (Some (wrapf (''postgres: append outbox row '' @ Itoa (int i) @ '' (event_id '' @
                        uuid_text (env_EventID e) @ '')'') err), w)
      | (Inr _, w) \<Rightarrow> Append_loop stamp (Suc i) es w)"

definition close_batch :: "unit stmt" where
  "close_batch w t = (Inr ((), t), w_seq w)"

definition OutboxRepository_Append :: "(time \<Rightarrow> time) \<Rightarrow> Envelope list \<Rightarrow> (world, gerr option) act" where
  "OutboxRepository_Append stamp envelopes w =
     (if envelopes = [] then (None, w)
      else (case Append_loop stamp 0 envelopes w of
          (Some err, w) \<Rightarrow> (Some err, w)
        | (None, w) \<Rightarrow>
            (case in_tx close_batch w of
               (Inl err, w) \<Rightarrow> (Some (wrapf ''postgres: close outbox batch'' err), w)
             | (Inr _, w) \<Rightarrow> (None, w))))"

subsection \<open>The unit of work\<close>

text \<open>
  The closure gets the user repository of the transaction; the envelope factory and the builder
  of the appender are the struct's fields.
\<close>

record UnitOfWork =
  uw_envelopes :: "Event list \<Rightarrow> Metadata \<Rightarrow> (world, gerr + Envelope list) act"
  uw_outbox :: "Envelope list \<Rightarrow> (world, gerr option) act"

definition NewUnitOfWork ::
    "(time \<Rightarrow> time) \<Rightarrow> (Event list \<Rightarrow> Metadata \<Rightarrow> (world, gerr + Envelope list) act) \<Rightarrow> UnitOfWork" where
  "NewUnitOfWork stamp envelopes =
     \<lparr>uw_envelopes = envelopes, uw_outbox = OutboxRepository_Append stamp\<rparr>"

definition write_body ::
    "UnitOfWork \<Rightarrow> (time \<Rightarrow> time) \<Rightarrow> Metadata \<Rightarrow>
     ((nat \<Rightarrow> (world, gerr option) act) \<Rightarrow> (world, gerr option) act) \<Rightarrow>
     unit \<Rightarrow> (world, gerr option \<times> unit) act" where
  "write_body u stamp meta fn _ w =
     (case fn (userRepository_Save stamp) (newTracker w) of
        (Some err, w) \<Rightarrow> ((Some err, ()), w)
      | (None, w) \<Rightarrow>
          (let (es, w) = drain w
           in if es \<noteq> [] then
                (case uw_envelopes u es meta w of
                   (Inl err, w) \<Rightarrow> ((Some err, ()), w)
                 | (Inr envelopes, w) \<Rightarrow>
                     (case uw_outbox u envelopes w of
                        (Some err, w) \<Rightarrow> ((Some err, ()), w)
                      | (None, w) \<Rightarrow> ((None, ()), w)))
              else ((None, ()), w)))"

definition UnitOfWork_Do ::
    "UnitOfWork \<Rightarrow> (time \<Rightarrow> time) \<Rightarrow> Metadata \<Rightarrow>
     ((nat \<Rightarrow> (world, gerr option) act) \<Rightarrow> (world, gerr option) act) \<Rightarrow> (world, gerr option) act" where
  "UnitOfWork_Do u stamp meta fn w =
     (let ((err, _), w) = WithTx (write_body u stamp meta fn) () w in (err, w))"

subsection \<open>The notifier\<close>

text \<open>A failure is logged and dropped.\<close>

definition ChannelOutboxNew :: string where "ChannelOutboxNew = ''outbox_new''"

definition wakeup_failed :: "gerr \<Rightarrow> log_line" where
  "wakeup_failed e = line LevelWarn ''outbox wakeup failed; the relay will find the row by polling''
     [(''channel'', AStr ChannelOutboxNew), (''error'', AErr e)]"

definition Notify :: "world \<Rightarrow> world" where
  "Notify w =
     (case env_pg (w_env w) (w_tick w) of
        PgOk \<Rightarrow> (tick w)\<lparr>w_notified := Suc (w_notified w)\<rparr>
      | PgFail e \<Rightarrow> log_write (wakeup_failed e) (tick w)
      | PgLost e \<Rightarrow> log_write (wakeup_failed e) ((tick w)\<lparr>w_notified := Suc (w_notified w)\<rparr>))"

subsection \<open>The use case\<close>

record RegisterUserCommand =
  cmd_Email :: string
  cmd_DisplayName :: string
  cmd_Meta :: Metadata

definition RegisterUser_Execute ::
    "(string \<Rightarrow> string) \<Rightarrow> (string \<Rightarrow> string option) \<Rightarrow> UnitOfWork \<Rightarrow> (time \<Rightarrow> time) \<Rightarrow>
     RegisterUserCommand \<Rightarrow> (world, gerr + uuid) act" where
  "RegisterUser_Execute uni parse u stamp cmd w =
     (case UUIDv7_New w of
        (Inl err, w) \<Rightarrow> (Inl err, w)
      | (Inr i, w) \<Rightarrow>
          (let (now, w) = System_Now w
           in case Register uni parse i (cmd_Email cmd) (cmd_DisplayName cmd) now of
                Inl err \<Rightarrow> (Inl err, w)
              | Inr user \<Rightarrow>
                  (let (a, w) = alloc user w
                   in case UnitOfWork_Do u stamp (cmd_Meta cmd) (\<lambda>save. save a) w of
                        (Some err, w) \<Rightarrow> (Inl err, w)
                      | (None, w) \<Rightarrow>
                          (let w = Notify w in (Inr (u_id (w_heap w a)), w)))))"

text \<open>The wiring of \<open>cmd/api\<close>.\<close>

definition api_uow :: "(time \<Rightarrow> time) \<Rightarrow> UnitOfWork" where
  "api_uow stamp = NewUnitOfWork stamp (CloudEventFactory_From UUIDv7_New)"

end
