(* ===== verification/WriteProperties.thy ===== *)
theory WriteProperties
  imports WritePath SampleWorld
begin

text \<open>
  What the write path guarantees: a tracked aggregate is drained once, and a registration commits
  the user's row and the row of its event together or not at all, with the uniqueness of emails,
  ids and event ids kept, whatever the database answers.
\<close>

subsection \<open>Draining\<close>

text \<open>The first occurrence of every element.\<close>

fun firsts :: "'a list \<Rightarrow> 'a list" where
  "firsts [] = []"
| "firsts (a # as) = a # filter (\<lambda>x. x \<noteq> a) (firsts as)"

lemma drain_loop_heap:
  "snd (drain_loop as h) = (\<lambda>a. if a \<in> set as then (h a)\<lparr>events := []\<rparr> else h a)"
  by (induction as arbitrary: h) (auto simp: PullEvents_def Let_def case_prod_unfold fun_eq_iff)

lemma concat_events_update:
  "concat (map (\<lambda>x. events ((h(a := (h a)\<lparr>events := []\<rparr>)) x)) xs) =
     concat (map (\<lambda>x. events (h x)) (filter (\<lambda>x. x \<noteq> a) xs))"
  by (induction xs) auto

lemma drain_loop_events: "fst (drain_loop as h) = concat (map (\<lambda>a. events (h a)) (firsts as))"
proof (induction as arbitrary: h)
  case (Cons a as)
  have "fst (drain_loop (a # as) h) = events (h a) @ fst (drain_loop as (h(a := (h a)\<lparr>events := []\<rparr>)))"
    by (simp add: PullEvents_def Let_def case_prod_unfold)
  then show ?case unfolding Cons.IH concat_events_update by simp
qed simp

lemma drain_eq:
  "drain w = (concat (map (\<lambda>a. events (w_heap w a)) (firsts (w_tracked w))),
     w\<lparr>w_heap := (\<lambda>a. if a \<in> set (w_tracked w) then (w_heap w a)\<lparr>events := []\<rparr> else w_heap w a),
       w_tracked := []\<rparr>)"
  using drain_loop_heap [of "w_tracked w" "w_heap w"] drain_loop_events [of "w_tracked w" "w_heap w"]
  by (simp add: drain_def case_prod_unfold Let_def)

text \<open>
  C27: The tracker drains every tracked aggregate once, in the order of the first tracking: an
  aggregate tracked twice contributes its events at its first place only; afterwards no tracked
  aggregate holds an event, and nothing is tracked.
\<close>

theorem tracker_drains_once:
  "fst (drain w) = concat (map (\<lambda>a. events (w_heap w a)) (firsts (w_tracked w))) \<and>
   w_heap (snd (drain w)) =
     (\<lambda>a. if a \<in> set (w_tracked w) then (w_heap w a)\<lparr>events := []\<rparr> else w_heap w a) \<and>
   w_tracked (snd (drain w)) = []"
  by (simp add: drain_eq)

subsection \<open>What does not change before the commit\<close>

definition calm :: "world \<Rightarrow> world \<Rightarrow> bool" where
  "calm w w' \<longleftrightarrow> same_db w w' \<and> w_seq w \<le> w_seq w' \<and> w_broker w' = w_broker w \<and>
     w_notified w' = w_notified w \<and> w_locked w' = w_locked w"

lemma calm_refl [simp]: "calm w w"
  by (simp add: calm_def)

lemma calm_trans [trans]: "calm w v \<Longrightarrow> calm v w' \<Longrightarrow> calm w w'"
  by (auto simp: calm_def intro: same_db_trans)

lemma calm_tick [simp]: "calm w (tick v) = calm w v" "calm (tick w) v = calm w v"
  by (simp_all add: calm_def same_db_def)

text \<open>Steps that only advance the script.\<close>

definition only_ticks :: "world \<Rightarrow> world \<Rightarrow> bool" where
  "only_ticks w w' \<longleftrightarrow> (\<exists>n. w' = w\<lparr>w_tick := n\<rparr>)"

lemma only_ticks_trans: "only_ticks w v \<Longrightarrow> only_ticks v w' \<Longrightarrow> only_ticks w w'"
  by (auto simp: only_ticks_def)

lemma only_ticks_tick: "only_ticks w (tick w)"
  by (auto simp: only_ticks_def tick_def)

lemma From_loop_ticks: "From_loop UUIDv7_New h meta es w = (x, w') \<Longrightarrow> only_ticks w w'"
proof (induction es arbitrary: w x w')
  case Nil
  then show ?case by (auto simp: only_ticks_def intro: exI [of _ "w_tick w"])
next
  case (Cons e es)
  obtain y v where y: "From_loop UUIDv7_New h meta es (tick w) = (y, v)" by (metis prod.exhaust)
  obtain m where m: "UUIDv7_New w = (m, tick w)" by (simp add: UUIDv7_New_def)
  have "only_ticks w v" by (rule only_ticks_trans [OF only_ticks_tick Cons.IH [OF y]])
  moreover have "only_ticks w w" by (auto simp: only_ticks_def intro: exI [of _ "w_tick w"])
  moreover have "w' = w \<or> w' = tick w \<or> w' = v"
    using Cons.prems y m by (auto split: sum.splits prod.splits)
  ultimately show ?case using only_ticks_tick by metis
qed

lemma Factory_ticks: "CloudEventFactory_From UUIDv7_New es meta w = (x, w') \<Longrightarrow> only_ticks w w'"
  by (auto simp: CloudEventFactory_From_def only_ticks_def dest: From_loop_ticks split: if_splits
      intro: exI [of _ "w_tick w"])

lemma only_ticks_simps:
  assumes "only_ticks w w'"
  shows "calm w w'" "w_tx w' = w_tx w" "w_seq w' = w_seq w" "w_env w' = w_env w"
    "w_heap w' = w_heap w" "w_tracked w' = w_tracked w"
  using assms by (auto simp: only_ticks_def calm_def same_db_def)

subsection \<open>The repositories\<close>

lemma in_tx_calm:
  assumes "in_tx body w = (x, w')" "\<And>w t. w_seq w \<le> snd (body w t)"
  shows "calm w w'"
  using in_tx_frame [OF assms(1)] assms
  by (auto simp: calm_def in_tx_def abort_def split: option.splits if_splits pg_reply.splits
      sum.splits prod.splits) (metis snd_conv)+

lemma Save_frame:
  assumes "userRepository_Save stamp a w = (x, w')"
  shows "calm w w'" "w_heap w' = w_heap w"
proof -
  obtain y v where v: "in_tx (insertUser (user_row_of stamp (w_heap w a))) w = (y, v)"
    by (metis prod.exhaust)
  from assms v have "w' = v \<or> w' = track a v"
    by (auto simp: userRepository_Save_def Let_def split: sum.splits if_splits)
  with in_tx_calm [OF v] in_tx_frame(4) [OF v]
  show "calm w w'" "w_heap w' = w_heap w"
    by (auto simp: insertUser_def track_def calm_def same_db_def)
qed

lemma Save_None:
  assumes "userRepository_Save stamp a w = (None, w')"
  obtains t where "w_tx w = Some t" "\<not> tx_aborted t"
    "usr_id (user_row_of stamp (w_heap w a)) \<notin> usr_id ` set (users_view w t)"
    "usr_email (user_row_of stamp (w_heap w a)) \<notin> usr_email ` set (users_view w t)"
    "w_tx w' = Some (t\<lparr>tx_users := tx_users t @ [user_row_of stamp (w_heap w a)]\<rparr>)"
    "w_tracked w' = w_tracked w @ [a]" "w_seq w' = w_seq w"
proof -
  from assms obtain v where v: "in_tx (insertUser (user_row_of stamp (w_heap w a))) w = (Inr (), v)"
      "w' = track a v"
    by (auto simp: userRepository_Save_def Let_def split: sum.splits prod.splits if_splits)
  note f = in_tx_frame [OF v(1)]
  from v(1) show thesis
  proof (rule in_tx_Inr)
    fix t t' s
    assume "w_tx w = Some t" "\<not> tx_aborted t"
      "insertUser (user_row_of stamp (w_heap w a)) w t = (Inr ((), t'), s)"
      "v = (tick w)\<lparr>w_seq := s, w_tx := Some t'\<rparr>"
    with v(2) f show thesis
      by (intro that [of t]) (auto simp: insertUser_def track_def split: if_splits)
  qed
qed

text \<open>The rows an \<open>Append\<close> inserts: one for each envelope, numbered by the sequence.\<close>

fun number_rows ::
    "env \<Rightarrow> (time \<Rightarrow> time) \<Rightarrow> time \<Rightarrow> int \<Rightarrow> Envelope list \<Rightarrow> outbox_row list" where
  "number_rows E stamp now i [] = []"
| "number_rows E stamp now i (e # es) =
     outbox_row_of E stamp now i e # number_rows E stamp now (i + 1) es"

lemma insertOutbox_calm: "in_tx (insertOutbox stamp e) w = (x, w') \<Longrightarrow> calm w w'"
  by (erule in_tx_calm) (simp add: insertOutbox_def)

lemma Append_loop_frame:
  "Append_loop stamp i es w = (x, w') \<Longrightarrow> calm w w' \<and> w_heap w' = w_heap w"
proof (induction es arbitrary: i w)
  case (Cons e es)
  obtain y v where y: "in_tx (insertOutbox stamp e) w = (y, v)" by (metis prod.exhaust)
  note c = insertOutbox_calm [OF y] in_tx_frame(4) [OF y]
  show ?case
  proof (cases y)
    case (Inr u)
    with Cons.prems y have "Append_loop stamp (Suc i) es v = (x, w')" by simp
    from Cons.IH [OF this] c show ?thesis using calm_trans by auto
  qed (use Cons.prems y c in auto)
qed simp

lemma Append_loop_None:
  assumes "Append_loop stamp i es w = (None, w')" "w_tx w = Some t"
  shows "w_tx w' = Some (t\<lparr>tx_rows := tx_rows t @ number_rows (w_env w) stamp (tx_now t) (w_seq w) es\<rparr>) \<and>
    w_seq w' = w_seq w + int (length es) \<and>
    distinct (map env_EventID es) \<and> (\<forall>e \<in> set es. env_EventID e \<notin> row_event_id ` set (base_rows w t))"
  using assms
proof (induction es arbitrary: i w t)
  case (Cons e es)
  from Cons.prems(1) obtain v where v: "in_tx (insertOutbox stamp e) w = (Inr (), v)"
      and rest: "Append_loop stamp (Suc i) es v = (None, w')"
    by (auto split: sum.splits prod.splits)
  note f = in_tx_frame [OF v]
  from v Cons.prems(2) have
      new: "env_EventID e \<notin> row_event_id ` set (base_rows w t)" and
      tv: "w_tx v = Some (t\<lparr>tx_rows := tx_rows t @ [outbox_row_of (w_env w) stamp (tx_now t) (w_seq w) e]\<rparr>)"
        "w_seq v = w_seq w + 1"
    by (auto elim!: in_tx_Inr simp: insertOutbox_def split: if_splits)
  have b: "base_rows v (t\<lparr>tx_rows := tx_rows t @ [outbox_row_of (w_env w) stamp (tx_now t) (w_seq w) e]\<rparr>) =
      base_rows w t @ [outbox_row_of (w_env w) stamp (tx_now t) (w_seq w) e]"
    using f(1) by (simp add: base_rows_def same_db_def)
  from Cons.IH [OF rest tv(1)] tv(2) f(3) new b show ?case
    by (auto simp: outbox_row_of_def)
qed simp

lemma Append_frame:
  assumes "OutboxRepository_Append stamp es w = (x, w')"
  shows "calm w w'" "w_heap w' = w_heap w"
proof -
  obtain y v where y: "Append_loop stamp 0 es w = (y, v)" by (metis prod.exhaust)
  obtain z u where z: "in_tx close_batch v = (z, u)" by (metis prod.exhaust)
  have "calm v u" "w_heap u = w_heap v"
    using in_tx_calm [OF z] in_tx_frame(4) [OF z] by (simp_all add: close_batch_def)
  moreover from assms y z have "w' = w \<or> w' = v \<or> w' = u"
    by (auto simp: OutboxRepository_Append_def split: if_splits option.splits sum.splits)
  ultimately show "calm w w'" "w_heap w' = w_heap w"
    using Append_loop_frame [OF y] calm_trans by auto
qed

lemma Append_None:
  assumes "OutboxRepository_Append stamp es w = (None, w')" "w_tx w = Some t"
  shows "w_tx w' = Some (t\<lparr>tx_rows := tx_rows t @ number_rows (w_env w) stamp (tx_now t) (w_seq w) es\<rparr>) \<and>
    w_seq w' = w_seq w + int (length es) \<and>
    distinct (map env_EventID es) \<and> (\<forall>e \<in> set es. env_EventID e \<notin> row_event_id ` set (base_rows w t))"
proof (cases "es = []")
  case False
  with assms obtain v where v: "Append_loop stamp 0 es w = (None, v)" "in_tx close_batch v = (Inr (), w')"
    by (auto simp: OutboxRepository_Append_def split: option.splits sum.splits prod.splits)
  from v(2) have "w_tx w' = w_tx v \<and> w_seq w' = w_seq v"
    by (auto elim!: in_tx_Inr simp: close_batch_def)
  with Append_loop_None [OF v(1) assms(2)] show ?thesis by simp
qed (use assms in \<open>simp add: OutboxRepository_Append_def\<close>)

subsection \<open>The unit of work\<close>

text \<open>A closure of the unit of work: it saves some aggregates, one after the other.\<close>

fun save_all :: "nat list \<Rightarrow> (nat \<Rightarrow> (world, gerr option) act) \<Rightarrow> (world, gerr option) act" where
  "save_all [] save w = (None, w)"
| "save_all (a # as) save w =
     (case save a w of (Some err, w) \<Rightarrow> (Some err, w) | (None, w) \<Rightarrow> save_all as save w)"

lemma save_all_one: "(\<lambda>save. save a) = save_all [a]"
  by (auto simp: fun_eq_iff split: prod.split option.split)

lemma save_all_frame:
  "save_all as (userRepository_Save stamp) w = (x, w') \<Longrightarrow> calm w w' \<and> w_heap w' = w_heap w"
proof (induction as arbitrary: w)
  case (Cons a as)
  obtain y v where y: "userRepository_Save stamp a w = (y, v)" by (metis prod.exhaust)
  note c = Save_frame [OF y]
  show ?case
  proof (cases y)
    case None
    with Cons.prems y have "save_all as (userRepository_Save stamp) v = (x, w')" by simp
    from Cons.IH [OF this] c show ?thesis using calm_trans by auto
  qed (use Cons.prems y c in auto)
qed simp

lemma save_all_None:
  assumes "save_all as (userRepository_Save stamp) w = (None, w')" "w_tx w = Some t"
  shows "w_tx w' = Some (t\<lparr>tx_users := tx_users t @ map (\<lambda>a. user_row_of stamp (w_heap w a)) as\<rparr>) \<and>
    w_tracked w' = w_tracked w @ as \<and> w_seq w' = w_seq w \<and>
    distinct (map (\<lambda>a. usr_email (user_row_of stamp (w_heap w a))) as) \<and>
    distinct (map (\<lambda>a. usr_id (user_row_of stamp (w_heap w a))) as) \<and>
    (\<forall>a \<in> set as. usr_email (user_row_of stamp (w_heap w a)) \<notin> usr_email ` set (users_view w t) \<and>
       usr_id (user_row_of stamp (w_heap w a)) \<notin> usr_id ` set (users_view w t))"
  using assms
proof (induction as arbitrary: w t)
  case (Cons a as)
  from Cons.prems(1) obtain v where v: "userRepository_Save stamp a w = (None, v)"
      and rest: "save_all as (userRepository_Save stamp) v = (None, w')"
    by (auto split: prod.splits option.splits)
  note f = Save_frame [OF v]
  let ?r = "user_row_of stamp (w_heap w a)"
  from v Cons.prems(2) have a: "usr_id ?r \<notin> usr_id ` set (users_view w t)"
      "usr_email ?r \<notin> usr_email ` set (users_view w t)"
      "w_tx v = Some (t\<lparr>tx_users := tx_users t @ [?r]\<rparr>)"
      "w_tracked v = w_tracked w @ [a]" "w_seq v = w_seq w"
    by (auto elim!: Save_None)
  have "users_view v (t\<lparr>tx_users := tx_users t @ [?r]\<rparr>) = users_view w t @ [?r]"
    using f(1) by (simp add: users_view_def calm_def same_db_def)
  with Cons.IH [OF rest a(3)] a f(2) show ?case by auto
qed simp

definition numbered ::
    "(time \<Rightarrow> time) \<Rightarrow> Metadata \<Rightarrow> Event list \<Rightarrow> env \<Rightarrow> int \<Rightarrow> outbox_row list \<Rightarrow> bool" where
  "numbered stamp meta es E i rows \<longleftrightarrow>
     (\<exists>now envs. list_all2 (envelope_of meta) es envs \<and> rows = number_rows E stamp now i envs \<and>
        distinct (map env_EventID envs))"

lemma number_rows_props:
  "map row_event_id (number_rows E stamp now i envs) = map env_EventID envs"
  "map row_id (number_rows E stamp now i envs) = map (\<lambda>k. i + int k) [0..<length envs]"
  "r \<in> set (number_rows E stamp now i envs) \<Longrightarrow> i \<le> row_id r \<and> row_id r < i + int (length envs)"
proof (induction envs arbitrary: i)
  case (Cons e envs)
  { case 1 then show ?case using Cons by (simp add: outbox_row_of_def)
  next
    case 2
    have "map (\<lambda>k. i + int k) [0..<Suc (length envs)] = i # map (\<lambda>k. i + 1 + int k) [0..<length envs]"
      by (simp add: upt_conv_Cons map_Suc_upt [symmetric] del: upt_Suc)
    then show ?case using Cons(2) [of "i + 1"] by (simp add: outbox_row_of_def del: upt_Suc)
  next
    case 3 then show ?case using Cons(3) [of "i + 1"] by (auto simp: outbox_row_of_def)
  }
qed simp_all

text \<open>What one execution of the closure and the drain leaves in the transaction.\<close>

lemma write_body_frame:
  assumes "write_body (api_uow stamp) stamp meta (save_all as) r w = ((x, r'), w')"
  shows "calm w w'"
proof -
  obtain y v where y: "save_all as (userRepository_Save stamp) (newTracker w) = (y, v)"
    by (metis prod.exhaust)
  have c: "calm w v" using save_all_frame [OF y] by (simp add: newTracker_def calm_def same_db_def)
  obtain es u where d: "drain v = (es, u)" by (metis prod.exhaust)
  have u: "calm v u" using d by (auto simp: drain_eq calm_def same_db_def)
  obtain z q where z: "CloudEventFactory_From UUIDv7_New es meta u = (z, q)" by (metis prod.exhaust)
  note q = only_ticks_simps(1) [OF Factory_ticks [OF z]]
  show ?thesis
  proof (cases y)
    case None
    show ?thesis
    proof (cases z)
      case (Inl e)
      with None assms y d z c u q show ?thesis
        by (auto simp: write_body_def api_uow_def NewUnitOfWork_def split: if_splits intro: calm_trans)
    next
      case (Inr envs)
      obtain k p where p: "OutboxRepository_Append stamp envs q = (k, p)" by (metis prod.exhaust)
      from None Inr assms y d z p have "w' = u \<or> w' = p"
        by (auto simp: write_body_def api_uow_def NewUnitOfWork_def split: if_splits option.splits)
      with c u q Append_frame(1) [OF p] show ?thesis using calm_trans by blast
    qed
  qed (use assms y c in \<open>auto simp: write_body_def\<close>)
qed

text \<open>
  \<open>wrote\<close>: the rows of the saved users and the rows of their events were appended, the events
  in the order of the first save of their aggregate, the outbox rows numbered by the sequence; and
  what the constraints have checked.
\<close>

definition saved :: "(time \<Rightarrow> time) \<Rightarrow> nat list \<Rightarrow> world \<Rightarrow> user_row list" where
  "saved stamp as w = map (\<lambda>a. user_row_of stamp (w_heap w a)) as"

definition saved_events :: "nat list \<Rightarrow> world \<Rightarrow> Event list" where
  "saved_events as w = concat (map (\<lambda>a. events (w_heap w a)) (firsts as))"

definition fresh_keys :: "world \<Rightarrow> user_row list \<Rightarrow> outbox_row list \<Rightarrow> bool" where
  "fresh_keys w us rows \<longleftrightarrow>
     distinct (map usr_email us) \<and> distinct (map usr_id us) \<and>
     (\<forall>u \<in> set us. usr_email u \<notin> usr_email ` set (w_users w) \<and> usr_id u \<notin> usr_id ` set (w_users w)) \<and>
     (\<forall>r \<in> set rows. row_event_id r \<notin> row_event_id ` set (w_outbox w))"

definition wrote :: "(time \<Rightarrow> time) \<Rightarrow> Metadata \<Rightarrow> nat list \<Rightarrow> world \<Rightarrow> world \<Rightarrow> bool" where
  "wrote stamp meta as w w' \<longleftrightarrow>
     (\<exists>rows. w_users w' = w_users w @ saved stamp as w \<and> w_outbox w' = w_outbox w @ rows \<and>
        numbered stamp meta (saved_events as w) (w_env w) (w_seq w) rows \<and>
        fresh_keys w (saved stamp as w) rows \<and> w_seq w' = w_seq w + int (length rows) \<and>
        w_broker w' = w_broker w)"

lemma length_number_rows [simp]: "length (number_rows E stamp now i envs) = length envs"
  by (induction envs arbitrary: i) auto

lemma write_body_None:
  assumes "write_body (api_uow stamp) stamp meta (save_all as) r w = ((None, r'), w')"
    and t: "w_tx w = Some (fresh_txn now)"
  obtains rows t' where "w_tx w' = Some t'" "tx_users t' = saved stamp as w" "tx_rows t' = rows"
    "tx_patch t' = (\<lambda>i r. r)" "numbered stamp meta (saved_events as w) (w_env w) (w_seq w) rows"
    "fresh_keys w (saved stamp as w) rows" "w_seq w' = w_seq w + int (length rows)"
proof -
  from assms(1) obtain v where sv: "save_all as (userRepository_Save stamp) (newTracker w) = (None, v)"
    by (auto simp: write_body_def split: prod.splits option.splits)
  have nt: "w_tx (newTracker w) = Some (fresh_txn now)" using t by (simp add: newTracker_def)
  have same: "w_users (newTracker w) = w_users w" "w_heap (newTracker w) = w_heap w"
    "w_seq (newTracker w) = w_seq w" "w_tracked (newTracker w) = []" "same_db w (newTracker w)"
    by (simp_all add: newTracker_def same_db_def)
  let ?t1 = "(fresh_txn now)\<lparr>tx_users := saved stamp as w\<rparr>"
  have v: "w_tx v = Some ?t1" "w_tracked v = as" "w_seq v = w_seq w" "w_heap v = w_heap w"
      "w_env v = w_env w" "w_outbox v = w_outbox w"
    using save_all_None [OF sv nt] save_all_frame [OF sv] same
    by (simp_all add: saved_def fresh_txn_def calm_def same_db_def)
  have keys: "fresh_keys w (saved stamp as w) []"
    using save_all_None [OF sv nt] same
    by (simp add: fresh_keys_def saved_def users_view_def fresh_txn_def comp_def)
  define u where "u = snd (drain v)"
  have d: "drain v = (saved_events as w, u)"
    by (simp add: u_def drain_eq saved_events_def v)
  have u: "w_tx u = Some ?t1" "w_seq u = w_seq w" "w_env u = w_env w" "w_outbox u = w_outbox w"
    by (simp_all add: u_def drain_eq v)
  show thesis
  proof (cases "saved_events as w = []")
    case True
    with assms(1) sv d have "w' = u" by (auto simp: write_body_def)
    with u True keys show thesis
      by (intro that [of ?t1 "[]"]) (auto simp: numbered_def fresh_txn_def)
  next
    case False
    with assms(1) sv d obtain envs q where
        q: "CloudEventFactory_From UUIDv7_New (saved_events as w) meta u = (Inr envs, q)"
        and a: "OutboxRepository_Append stamp envs q = (None, w')"
      by (auto simp: write_body_def api_uow_def NewUnitOfWork_def
          split: sum.splits prod.splits option.splits)
    note tk = only_ticks_simps [OF Factory_ticks [OF q]]
    have qt: "w_tx q = Some ?t1" using tk u by simp
    have "w_outbox q = w_outbox w" using tk(1) u by (simp add: calm_def same_db_def)
    moreover have eq: "tx_rows ?t1 = []" "tx_now ?t1 = now" "w_env q = w_env w" "w_seq q = w_seq w"
      using tk u by (simp_all add: fresh_txn_def)
    moreover note ap = Append_None [OF a qt, unfolded eq]
    ultimately have fresh: "\<forall>e \<in> set envs. env_EventID e \<notin> row_event_id ` set (w_outbox w)"
      by (simp add: base_rows_def)
    let ?rows = "number_rows (w_env w) stamp now (w_seq w) envs"
    have "row_event_id ` set ?rows = env_EventID ` set envs"
      using arg_cong [where f = set, OF number_rows_props(1)] by simp
    with fresh have "\<forall>r \<in> set ?rows. row_event_id r \<notin> row_event_id ` set (w_outbox w)"
      by (metis imageE imageI)
    with keys have "fresh_keys w (saved stamp as w) ?rows" by (simp add: fresh_keys_def)
    moreover have "numbered stamp meta (saved_events as w) (w_env w) (w_seq w) ?rows"
      using CloudEventFactory_From_Inr [OF q] ap by (auto simp: numbered_def)
    ultimately show thesis
      using ap by (intro that [of "?t1\<lparr>tx_rows := ?rows\<rparr>" ?rows]) (simp_all add: fresh_txn_def)
  qed
qed

lemma apply_fresh:
  assumes "w_tx v = Some t" "tx_patch t = (\<lambda>i r. r)" "same_db w v"
  shows "w_users (apply_txn t (tick v)) = w_users w @ tx_users t"
    "w_outbox (apply_txn t (tick v)) = w_outbox w @ tx_rows t"
proof -
  have p: "patched t = (\<lambda>r. r)" by (rule ext) (simp add: patched_def assms(2))
  show "w_users (apply_txn t (tick v)) = w_users w @ tx_users t"
    "w_outbox (apply_txn t (tick v)) = w_outbox w @ tx_rows t"
    using assms(3) by (simp_all add: apply_txn_def tx_view_def base_rows_def p same_db_def)
qed

lemma pg_begin_calm: "pg_begin w = (None, v) \<Longrightarrow> calm w v \<and> w_heap v = w_heap w \<and> w_seq v = w_seq w"
  by (auto simp: calm_def same_db_def dest!: pg_begin_None)

lemma calm_rollback: "calm w v \<Longrightarrow> calm w (pg_rollback v)"
  by (simp add: calm_def pg_rollback_def same_db_def)

lemma commit_calm:
  assumes "pg_commit v = (Some e, v')" "same_db v (pg_rollback v')"
  shows "calm v (pg_rollback v')"
  using assms
  by (auto simp: pg_commit_def calm_def apply_txn_def pg_rollback_def same_db_def
      split: option.splits if_splits pg_reply.splits)

lemma Do_outcome:
  assumes "UnitOfWork_Do (api_uow stamp) stamp meta (save_all as) w = (err, w')"
  shows "(err \<noteq> None \<and> calm w w') \<or>
         (wrote stamp meta as w w' \<and> (err = None \<or> (\<exists>e. err = Some (wrapf ''postgres: commit'' e))))"
proof -
  from assms obtain r' where
      "WithTx (write_body (api_uow stamp) stamp meta (save_all as)) () w = ((err, r'), w')"
    by (auto simp: UnitOfWork_Do_def Let_def split: prod.splits)
  then show ?thesis
  proof (cases rule: WithTx_cases)
    case (no_begin e)
    then show ?thesis by simp
  next
    case (failed v1 v2 e)
    have "calm w v2" using pg_begin_calm [OF failed(1)] write_body_frame [OF failed(2)] calm_trans by blast
    from calm_rollback [OF this] failed show ?thesis by simp
  next
    case (not_committed v1 v2 v3 e)
    have "calm w v2"
      using pg_begin_calm [OF not_committed(1)] write_body_frame [OF not_committed(2)] calm_trans by blast
    moreover have "calm v2 (pg_rollback v3)" using commit_calm [OF not_committed(3)] not_committed by simp
    ultimately have "calm w w'" unfolding not_committed(7) by (rule calm_trans)
    with not_committed(4) show ?thesis by simp
  next
    case (committed v1 v2 t)
    note b = pg_begin_calm [OF committed(1)] and f = write_body_frame [OF committed(2)]
    have start: "saved stamp as v1 = saved stamp as w" "saved_events as v1 = saved_events as w"
      "w_env v1 = w_env w" "w_seq v1 = w_seq w" "w_users v1 = w_users w" "w_outbox v1 = w_outbox w"
      using b by (simp_all add: saved_def saved_events_def calm_def same_db_def)
    have fresh: "w_tx v1 = Some (fresh_txn (env_pg_clock (w_env w) (w_tick w)))"
      using pg_begin_None [OF committed(1)] by simp
    from committed(2) fresh obtain rows where r: "tx_users t = saved stamp as w" "tx_rows t = rows"
        "tx_patch t = (\<lambda>i r. r)" "numbered stamp meta (saved_events as w) (w_env w) (w_seq w) rows"
        "fresh_keys v1 (saved stamp as w) rows" "w_seq v2 = w_seq w + int (length rows)"
      by (rule write_body_None) (use committed(3) start in simp)
    have "same_db w v2" using b f calm_trans by (auto simp: calm_def intro: same_db_trans)
    note ap = apply_fresh [OF committed(3) r(3) this]
    have "fresh_keys w (saved stamp as w) rows" using r(5) start by (simp add: fresh_keys_def)
    moreover have "w_broker v2 = w_broker w" using b f by (auto simp: calm_def)
    ultimately have "wrote stamp meta as w w'"
      using ap r committed(5) unfolding wrote_def by (intro exI [of _ rows]) (simp add: apply_txn_def)
    with committed(6) show ?thesis by blast
  qed
qed

text \<open>Draining takes an aggregate's events, and nothing else of it.\<close>

definition same_user :: "User \<Rightarrow> User \<Rightarrow> bool" where
  "same_user u v \<longleftrightarrow> u\<lparr>events := []\<rparr> = v\<lparr>events := []\<rparr>"

lemma same_user_id: "same_user u v \<Longrightarrow> u_id u = u_id v"
  unfolding same_user_def by (metis User.select_convs(1) User.surjective eventRecorder.update_convs(1))

lemma write_body_heap:
  assumes "write_body (api_uow stamp) stamp meta (save_all as) r w = ((None, r'), w')"
  shows "same_user (w_heap w' a) (w_heap w a)"
proof -
  from assms obtain v where sv: "save_all as (userRepository_Save stamp) (newTracker w) = (None, v)"
    by (auto simp: write_body_def split: prod.splits option.splits)
  have hv: "w_heap v = w_heap w" using save_all_frame [OF sv] by (simp add: newTracker_def)
  obtain es u where d: "drain v = (es, u)" by (metis prod.exhaust)
  then have hu: "same_user (w_heap u a) (w_heap w a)"
    by (auto simp: drain_eq hv same_user_def)
  show ?thesis
  proof (cases "es = []")
    case True
    with assms sv d hu show ?thesis by (simp add: write_body_def)
  next
    case False
    with assms sv d obtain envs q where
        q: "CloudEventFactory_From UUIDv7_New es meta u = (Inr envs, q)"
        and a: "OutboxRepository_Append stamp envs q = (None, w')"
      by (auto simp: write_body_def api_uow_def NewUnitOfWork_def
          split: sum.splits prod.splits option.splits)
    with only_ticks_simps(5) [OF Factory_ticks [OF q]] Append_frame(2) [OF a] hu show ?thesis by simp
  qed
qed

lemma Do_heap:
  assumes "UnitOfWork_Do (api_uow stamp) stamp meta (save_all as) w = (None, w')"
  shows "u_id (w_heap w' a) = u_id (w_heap w a)"
proof -
  from assms obtain r' where
      "WithTx (write_body (api_uow stamp) stamp meta (save_all as)) () w = ((None, r'), w')"
    by (auto simp: UnitOfWork_Do_def Let_def split: prod.splits)
  then show ?thesis
  proof (cases rule: WithTx_cases)
    case (committed v1 v2 t)
    from same_user_id [OF write_body_heap [OF committed(2)]] pg_begin_calm [OF committed(1)] committed(5)
    show ?thesis by (simp add: apply_txn_def)
  qed simp_all
qed

text \<open>
  C8: The structural outbox.  Whatever aggregates the closure of a unit of work saves, a commit
  appends their rows and, in the same transaction, one outbox row for each event they recorded,
  every one the faithful envelope of its event; an error leaves both tables as they were, unless it
  is the error of a commit that took effect, and then both are appended all the same.  There is
  no outcome with a user and no event, or an event and no user.
\<close>

theorem unit_of_work_writes_both_or_neither:
  assumes "UnitOfWork_Do (api_uow stamp) stamp meta (save_all as) w = (err, w')"
  shows "(err \<noteq> None \<and> w_users w' = w_users w \<and> w_outbox w' = w_outbox w) \<or>
         (wrote stamp meta as w w' \<and> (err = None \<or> (\<exists>e. err = Some (wrapf ''postgres: commit'' e))))"
  using Do_outcome [OF assms] by (auto simp: calm_def same_db_def)

definition ada :: User where
  "ada = \<lparr>events = [UserRegisteredEvent \<lparr>ur_UserID = UUID ''u-1'', ur_Email = \<lparr>email_value = ''ada@example.com''\<rparr>,
       ur_DisplayName = \<lparr>name_value = ''Ada''\<rparr>, ur_Version = 1, ur_RegisteredAt = 7\<rparr>],
     u_id = UUID ''u-1'', u_email = \<lparr>email_value = ''ada@example.com''\<rparr>,
     u_displayName = \<lparr>name_value = ''Ada''\<rparr>, u_version = 1, u_createdAt = 7\<rparr>"

definition no_meta :: Metadata where
  "no_meta = \<lparr>CorrelationID = ''c-1'', Traceparent = []\<rparr>"

lemma unit_of_work_writes_both_or_neither_witness:
  "let w = (sample_world [] [])\<lparr>w_heap := (\<lambda>_. ada), w_outbox := []\<rparr>;
       run = UnitOfWork_Do (api_uow (\<lambda>t. t)) (\<lambda>t. t) no_meta (save_all [0]) w
   in fst run = None \<and> length (w_users (snd run)) = 1 \<and> length (w_outbox (snd run)) = 1 \<and>
      wrote (\<lambda>t. t) no_meta [0] w (snd run)"
proof -
  let ?w = "(sample_world [] [])\<lparr>w_heap := (\<lambda>_. ada), w_outbox := []\<rparr>"
  let ?run = "UnitOfWork_Do (api_uow (\<lambda>t. t)) (\<lambda>t. t) no_meta (save_all [0]) ?w"
  have "case ?run of (x, w) \<Rightarrow> x = None \<and> length (w_users w) = 1 \<and> length (w_outbox w) = 1"
    by code_simp
  then have f: "fst ?run = None" "length (w_users (snd ?run)) = 1" "length (w_outbox (snd ?run)) = 1"
    by (simp_all only: case_prod_unfold)
  from unit_of_work_writes_both_or_neither [OF prod.collapse [symmetric, of ?run]]
  have "wrote (\<lambda>t. t) no_meta [0] ?w (snd ?run)" unfolding f(1) by blast
  with f show ?thesis by (simp only: Let_def simp_thms)
qed

subsection \<open>The constraints of the schema\<close>

text \<open>
  What holds of the tables between transactions: emails, user ids, row ids and event ids are
  unique, and the sequence is ahead of every row id.
\<close>

definition db_ok :: "world \<Rightarrow> bool" where
  "db_ok w \<longleftrightarrow> distinct (map usr_email (w_users w)) \<and> distinct (map usr_id (w_users w)) \<and>
     distinct (map row_id (w_outbox w)) \<and> distinct (map row_event_id (w_outbox w)) \<and>
     (\<forall>r \<in> set (w_outbox w). row_id r < w_seq w)"

lemma db_ok_calm: "db_ok w \<Longrightarrow> calm w w' \<Longrightarrow> db_ok w'"
  by (auto simp: db_ok_def calm_def same_db_def)

lemma db_ok_wrote:
  assumes "db_ok w" "wrote stamp meta as w w'"
  shows "db_ok w'"
proof -
  from assms(2) obtain rows now envs where w: "w_users w' = w_users w @ saved stamp as w"
      "w_outbox w' = w_outbox w @ rows" "rows = number_rows (w_env w) stamp now (w_seq w) envs"
      "distinct (map env_EventID envs)" "fresh_keys w (saved stamp as w) rows"
      "w_seq w' = w_seq w + int (length rows)"
    by (auto simp: wrote_def numbered_def)
  have ids: "distinct (map row_id rows)" unfolding w(3) number_rows_props(2)
    by (simp add: distinct_map inj_on_def)
  have eids: "distinct (map row_event_id rows)" using w(4) unfolding w(3) number_rows_props(1) .
  have new: "w_seq w \<le> row_id r \<and> row_id r < w_seq w'" if "r \<in> set rows" for r
    using number_rows_props(3) [of r] that unfolding w(3,6) by simp
  from assms(1) have old: "\<forall>r \<in> set (w_outbox w). row_id r < w_seq w" by (simp add: db_ok_def)
  have "row_id ` set (w_outbox w) \<inter> row_id ` set rows = {}" using new old by force
  moreover have "\<forall>r \<in> set (w_outbox w'). row_id r < w_seq w'" using new old w(2,6) by force
  moreover have "row_event_id ` set (w_outbox w) \<inter> row_event_id ` set rows = {}"
    "usr_email ` set (w_users w) \<inter> usr_email ` set (saved stamp as w) = {}"
    "usr_id ` set (w_users w) \<inter> usr_id ` set (saved stamp as w) = {}"
    using w(5) by (simp_all add: fresh_keys_def disjoint_keys del: Int_iff disjoint_iff)
  ultimately show ?thesis
    using assms(1) ids eids w(5) unfolding db_ok_def w(1,2) by (simp add: fresh_keys_def)
qed

subsection \<open>Registration\<close>

text \<open>
  \<open>registered\<close>: exactly one user and exactly one pending outbox row were appended; the user has
  the id, the normalised email and the trimmed name, and the outbox row is the envelope of this
  user's registration event.
\<close>

definition registered ::
    "(string \<Rightarrow> string) \<Rightarrow> (time \<Rightarrow> time) \<Rightarrow> RegisterUserCommand \<Rightarrow> uuid \<Rightarrow> world \<Rightarrow> world \<Rightarrow> bool" where
  "registered uni stamp cmd i w w' \<longleftrightarrow>
     (\<exists>user now env. i \<noteq> uuid_Nil \<and> u_id user = i \<and> u_version user = 1 \<and>
        email_value (u_email user) = ToLower uni (TrimSpace (cmd_Email cmd)) \<and>
        name_value (u_displayName user) = TrimSpace (cmd_DisplayName cmd) \<and>
        w_users w' = w_users w @ [user_row_of stamp user] \<and>
        email_value (u_email user) \<notin> usr_email ` set (w_users w) \<and>
        envelope_of (cmd_Meta cmd) (registered_event user) env \<and>
        w_outbox w' = w_outbox w @ [outbox_row_of (w_env w) stamp now (w_seq w) env] \<and>
        w_seq w' = w_seq w + 1 \<and> w_broker w' = w_broker w)"

lemma Notify_frame: "calm w (Notify w\<lparr>w_notified := w_notified w\<rparr>)" "w_heap (Notify w) = w_heap w"
  "w_users (Notify w) = w_users w" "w_outbox (Notify w) = w_outbox w" "w_seq (Notify w) = w_seq w" "w_broker (Notify w) = w_broker w"
  by (auto simp: Notify_def log_write_def calm_def same_db_def split: pg_reply.split)

lemma list_all2_singleton: "list_all2 P [x] ys \<longleftrightarrow> (\<exists>y. ys = [y] \<and> P x y)"
  by (auto simp: list_all2_Cons1)

lemma wrote_registers:
  assumes "wrote stamp (cmd_Meta cmd) [a] v w'" and h: "w_heap v a = user"
    and reg: "Register uni parse i (cmd_Email cmd) (cmd_DisplayName cmd) now = Inr user"
    and v: "w_users v = w_users w" "w_outbox v = w_outbox w" "w_seq v = w_seq w" "w_env v = w_env w"
    "w_broker v = w_broker w"
  shows "registered uni stamp cmd i w w'"
proof -
  note r = Register_InrD [OF reg]
  have ev: "saved_events [a] v = [registered_event user]" by (simp add: saved_events_def h r(7))
  have us: "saved stamp [a] v = [user_row_of stamp user]" by (simp add: saved_def h)
  from assms(1) obtain t0 env where
      o: "w_outbox w' = w_outbox v @ [outbox_row_of (w_env v) stamp t0 (w_seq v) env]"
        "envelope_of (cmd_Meta cmd) (registered_event user) env"
      and u: "w_users w' = w_users v @ [user_row_of stamp user]" "w_seq w' = w_seq v + 1"
        "w_broker w' = w_broker v"
        "usr_email (user_row_of stamp user) \<notin> usr_email ` set (w_users v)"
    unfolding wrote_def numbered_def ev us
    by (auto simp: list_all2_singleton fresh_keys_def)
  show ?thesis unfolding registered_def
    using o u v r NewEmail_InrD(1) [OF r(5)] NewDisplayName_InrD [OF r(6)]
    by (intro exI [of _ user] exI [of _ t0] exI [of _ env]) (simp add: user_row_of_def Email_String_def)
qed

lemma registration_outcome:
  assumes "RegisterUser_Execute uni parse (api_uow stamp) stamp cmd w = (x, w')"
  shows "((\<exists>e. x = Inl e) \<and> w_users w' = w_users w \<and> w_outbox w' = w_outbox w \<and>
           w_seq w \<le> w_seq w' \<and> w_broker w' = w_broker w \<and> w_notified w' = w_notified w) \<or>
         (\<exists>i. registered uni stamp cmd i w w' \<and>
           (x = Inr i \<or> (\<exists>e. x = Inl (wrapf ''postgres: commit'' e))))"
proof -
  obtain m where m: "UUIDv7_New w = (m, tick w)" by (simp add: UUIDv7_New_def)
  show ?thesis
  proof (cases m)
    case (Inl e)
    with assms m have "x = Inl e" "w' = tick w" by (auto simp: RegisterUser_Execute_def)
    then show ?thesis by simp
  next
    case (Inr i)
    let ?now = "env_clock (w_env (tick w)) (w_tick (tick w))"
    show ?thesis
    proof (cases "Register uni parse i (cmd_Email cmd) (cmd_DisplayName cmd) ?now")
      case (Inl e)
      with assms m Inr have "x = Inl e" "w' = tick (tick w)"
        by (auto simp: RegisterUser_Execute_def System_Now_def)
      then show ?thesis by simp
    next
      case reg: (Inr user)
      define v where "v = snd (alloc user (tick (tick w)))"
      let ?a = "w_heap_top w"
      have al: "alloc user (tick (tick w)) = (?a, v)" by (simp add: v_def alloc_def)
      have v: "w_users v = w_users w" "w_outbox v = w_outbox w" "w_seq v = w_seq w"
        "w_env v = w_env w" "w_heap v ?a = user" "w_notified v = w_notified w" "w_broker v = w_broker w"
        by (simp_all add: v_def alloc_def)
      obtain err u where u: "UnitOfWork_Do (api_uow stamp) stamp (cmd_Meta cmd) (save_all [?a]) v = (err, u)"
        by (metis prod.exhaust)
      note oc = Do_outcome [OF u]
      show ?thesis
      proof (cases err)
        case (Some e)
        with assms m Inr reg al u have x: "x = Inl e" "w' = u"
          by (simp_all add: RegisterUser_Execute_def System_Now_def save_all_one del: save_all.simps)
        with oc Some v wrote_registers [OF _ v(5) reg v(1-4,7)] show ?thesis
          by (auto simp: calm_def same_db_def)
      next
        case None
        with assms m Inr reg al u have x: "x = Inr (u_id (w_heap (Notify u) ?a))" "w' = Notify u"
          by (auto simp: RegisterUser_Execute_def System_Now_def save_all_one Let_def simp del: save_all.simps)
        from oc None have wr: "wrote stamp (cmd_Meta cmd) [?a] v u" by simp
        from wrote_registers [OF this v(5) reg v(1-4,7)] have "registered uni stamp cmd i w u" .
        then have "registered uni stamp cmd i w w'"
          unfolding registered_def x(2) Notify_frame .
        moreover have "x = Inr i"
          using Do_heap [OF u [unfolded None]] v(5) Register_InrD(2) [OF reg] by (simp add: x(1) Notify_frame)
        ultimately show ?thesis by blast
      qed
    qed
  qed
qed

text \<open>
  C20: Registration is atomic.  When the use case returns an id, exactly one user with this id was
  committed and with it exactly one pending outbox row, the envelope of the user's registration
  event; when it returns an error, the tables are as before, unless the error is the one of a
  commit that took effect and both rows are there.  The relay is notified only after a commit.
\<close>

theorem registration_is_atomic:
  assumes "RegisterUser_Execute uni parse (api_uow stamp) stamp cmd w = (x, w')"
  shows "((\<exists>e. x = Inl e) \<and> w_users w' = w_users w \<and> w_outbox w' = w_outbox w \<and>
           w_notified w' = w_notified w) \<or>
         (\<exists>i. registered uni stamp cmd i w w' \<and>
           (x = Inr i \<or> (\<exists>e. x = Inl (wrapf ''postgres: commit'' e))))"
  using registration_outcome [OF assms] by blast

definition ada_command :: RegisterUserCommand where
  "ada_command = \<lparr>cmd_Email = '' Ada@Example.com'', cmd_DisplayName = ''Ada'', cmd_Meta = no_meta\<rparr>"

lemma registration_is_atomic_witness:
  "let w = sample_world [] []; w' = snd (RegisterUser_Execute (\<lambda>s. s) parse_bare (api_uow (\<lambda>t. t)) (\<lambda>t. t) ada_command w)
   in w_notified w' = 1 \<and> registered (\<lambda>s. s) (\<lambda>t. t) ada_command (UUID ''id-0'') w w'"
proof -
  let ?w = "sample_world [] []"
  let ?run = "RegisterUser_Execute (\<lambda>s. s) parse_bare (api_uow (\<lambda>t. t)) (\<lambda>t. t) ada_command ?w"
  have "case ?run of (x, w) \<Rightarrow> x = Inr (UUID ''id-0'') \<and> w_notified w = 1" by code_simp
  then have f: "fst ?run = Inr (UUID ''id-0'')" "w_notified (snd ?run) = 1"
    by (simp_all only: case_prod_unfold)
  have n: "w_notified ?w = 0" by (simp add: sample_world_def)
  from registration_is_atomic [OF prod.collapse [symmetric, of ?run]]
  have "\<exists>i. registered (\<lambda>s. s) (\<lambda>t. t) ada_command i ?w (snd ?run) \<and> i = UUID ''id-0''"
    unfolding f n by auto
  with f(2) show ?thesis by (simp only: Let_def) blast
qed

lemma Save_taken:
  assumes "w_tx w = Some (fresh_txn now)" "\<forall>n. env_pg (w_env w) n = PgOk"
    and "u_id (w_heap w a) \<notin> usr_id ` set (w_users w)"
    and "Email_String (u_email (w_heap w a)) \<in> usr_email ` set (w_users w)"
  shows "\<exists>w'. userRepository_Save stamp a w =
    (Some (Errorf (error_text ErrEmailTaken @ '': '' @ Email_String (u_email (w_heap w a))) [ErrEmailTaken]), w')"
  using assms
  by (simp add: userRepository_Save_def Let_def in_tx_def insertUser_def users_view_def fresh_txn_def
      user_row_of_def uniqueViolation_def emailUniqueConstraint_def)

lemma taken_outcome:
  assumes pg: "\<forall>n. env_pg (w_env w) n = PgOk"
    and mint: "env_mint (w_env w) (w_tick w) = Inr i" "i \<notin> usr_id ` set (w_users w)"
    and reg: "Register uni parse i (cmd_Email cmd) (cmd_DisplayName cmd) (env_clock (w_env w) (Suc (w_tick w)))
      = Inr user"
    and taken: "ToLower uni (TrimSpace (cmd_Email cmd)) \<in> usr_email ` set (w_users w)"
    and run: "RegisterUser_Execute uni parse (api_uow stamp) stamp cmd w = (x, w')"
  shows "\<exists>e. x = Inl e \<and> errors_Is e ErrEmailTaken \<and> w_users w' = w_users w \<and> w_outbox w' = w_outbox w"
proof -
  define v where "v = snd (alloc user (tick (tick w)))"
  let ?a = "w_heap_top w"
  have al: "alloc user (tick (tick w)) = (?a, v)" by (simp add: v_def alloc_def)
  have v: "w_users v = w_users w" "w_env v = w_env w" "w_heap v ?a = user" "w_outbox v = w_outbox w"
    by (simp_all add: v_def alloc_def)
  define p where "p = snd (pg_begin v)"
  define u where "u = newTracker p"
  have beg: "pg_begin v = (None, p)" using pg v by (simp add: pg_begin_def p_def)
  have u: "w_tx u = Some (fresh_txn (env_pg_clock (w_env v) (w_tick v)))" "\<forall>n. env_pg (w_env u) n = PgOk"
    "w_users u = w_users w" "w_heap u ?a = user"
    using pg v pg_begin_None [OF beg] by (simp_all add: u_def newTracker_def)
  let ?e = "Errorf (error_text ErrEmailTaken @ '': '' @ Email_String (u_email user)) [ErrEmailTaken]"
  note r = Register_InrD [OF reg]
  from Save_taken [OF u(1,2), of ?a stamp] u(3,4) mint(2) taken r(2) NewEmail_InrD(1) [OF r(5)]
  obtain z where z: "userRepository_Save stamp ?a u = (Some ?e, z)" by (auto simp: Email_String_def)
  have "write_body (api_uow stamp) stamp (cmd_Meta cmd) (save_all [?a]) () p = ((Some ?e, ()), z)"
    using z by (simp add: write_body_def u_def [symmetric])
  with beg have d: "UnitOfWork_Do (api_uow stamp) stamp (cmd_Meta cmd) (save_all [?a]) v = (Some ?e, pg_rollback z)"
    by (simp add: UnitOfWork_Do_def WithTx_def)
  with run mint(1) reg al have "x = Inl ?e" "w' = pg_rollback z"
    by (auto simp: RegisterUser_Execute_def UUIDv7_New_def System_Now_def save_all_one simp del: save_all.simps)
  moreover have "calm v (pg_rollback z)" using Do_outcome [OF d] by (auto simp: wrapf_def ErrEmailTaken_def)
  ultimately show ?thesis using v by (auto simp: calm_def same_db_def)
qed

text \<open>
  C21: A taken email is reported as such.  When the normalised email of a valid command belongs to
  a committed user and the database answers, the use case returns an error that wraps
  \<open>ErrEmailTaken\<close> (through the unit of work, which does not wrap it), and nothing is written.
\<close>

theorem taken_email_is_reported:
  assumes pg: "\<forall>n. env_pg (w_env w) n = PgOk"
    and mint: "env_mint (w_env w) (w_tick w) = Inr i" "i \<notin> usr_id ` set (w_users w)"
    and reg: "Register uni parse i (cmd_Email cmd) (cmd_DisplayName cmd) (env_clock (w_env w) (Suc (w_tick w)))
      = Inr user"
    and taken: "ToLower uni (TrimSpace (cmd_Email cmd)) \<in> usr_email ` set (w_users w)"
    and run: "RegisterUser_Execute uni parse (api_uow stamp) stamp cmd w = (x, w')"
  shows "\<exists>e. x = Inl e \<and> errors_Is e ErrEmailTaken \<and> w_users w' = w_users w \<and> w_outbox w' = w_outbox w"
  using assms by (rule taken_outcome)

definition ada_row :: user_row where
  "ada_row = \<lparr>usr_id = UUID ''u-1'', usr_email = ''ada@example.com'', usr_display_name = ''Ada'',
     usr_version = 1, usr_created_at = 7\<rparr>"

lemma taken_email_is_reported_witness:
  "let w = (sample_world [] [])\<lparr>w_users := [ada_row]\<rparr>;
       run = RegisterUser_Execute (\<lambda>s. s) parse_bare (api_uow (\<lambda>t. t)) (\<lambda>t. t) ada_command w
   in \<exists>e. fst run = Inl e \<and> errors_Is e ErrEmailTaken \<and> w_users (snd run) = w_users w \<and>
        w_outbox (snd run) = w_outbox w"
proof -
  let ?w = "(sample_world [] [])\<lparr>w_users := [ada_row]\<rparr>"
  let ?run = "RegisterUser_Execute (\<lambda>s. s) parse_bare (api_uow (\<lambda>t. t)) (\<lambda>t. t) ada_command ?w"
  let ?reg = "Register (\<lambda>s. s) parse_bare (UUID ''id-0'') (cmd_Email ada_command)
      (cmd_DisplayName ada_command) (env_clock (w_env ?w) (Suc (w_tick ?w)))"
  have pg: "\<forall>n. env_pg (w_env ?w) n = PgOk" by (simp add: sample_world_def sample_env_def scripted_def)
  have mint: "env_mint (w_env ?w) (w_tick ?w) = Inr (UUID ''id-0'')"
    "UUID ''id-0'' \<notin> usr_id ` set (w_users ?w)" by code_simp+
  have "case ?reg of Inl _ \<Rightarrow> False | Inr _ \<Rightarrow> True" by code_simp
  then obtain user where reg: "?reg = Inr user" by (auto split: sum.splits)
  have "ToLower (\<lambda>s. s) (TrimSpace (cmd_Email ada_command)) \<in> usr_email ` set (w_users ?w)" by code_simp
  from taken_email_is_reported [OF pg mint reg this prod.collapse [symmetric, of ?run]]
  show ?thesis by (simp add: Let_def)
qed

end
