(* ===== verification/HttpApi.thy ===== *)
theory HttpApi
  imports WriteProperties
begin

text \<open>
  The HTTP surface, \<open>internal/accounts/presentation/http\<close>: the handler of \<open>POST /users\<close> with its
  error contract, the correlation id, and the routes.  \<open>net/http\<close> hands over a request with its
  header map and its body; the response writer is a record that \<open>WriteHeader\<close> and \<open>Write\<close> fill.

  The decoder of the body is the argument \<open>decode\<close>: \<open>encoding/json\<close>'s verdict on the bytes that
  the limited reader delivers, with the flag that an error follows them because the body is longer.
\<close>

subsection \<open>Headers\<close>

text \<open>\<open>textproto.CanonicalMIMEHeaderKey\<close> on a token: upper case at the start and after a hyphen.\<close>

fun canonical_from :: "bool \<Rightarrow> string \<Rightarrow> string" where
  "canonical_from up [] = []"
| "canonical_from up (c # cs) =
     (if up \<and> 97 \<le> byte c \<and> byte c \<le> 122 then char_of (byte c - 32)
      else if \<not> up then lower_char c else c) # canonical_from (c = CHR ''-'') cs"

definition CanonicalHeaderKey :: "string \<Rightarrow> string" where
  "CanonicalHeaderKey k = canonical_from True k"

text \<open>\<open>Header.Get\<close> is the first value of the key, or empty; \<open>Header.Set\<close> replaces them all.\<close>

definition Header_Get :: "(string \<times> string list) list \<Rightarrow> string \<Rightarrow> string" where
  "Header_Get h k = (case map_of h (CanonicalHeaderKey k) of Some (v # _) \<Rightarrow> v | _ \<Rightarrow> [])"

definition Header_Set :: "string \<Rightarrow> string \<Rightarrow> gomap \<Rightarrow> gomap" where
  "Header_Set k v h = AList.update (CanonicalHeaderKey k) v h"

record request =
  rq_Header :: "(string \<times> string list) list"
  rq_Body :: string

record response =
  rs_Header :: gomap
  rs_Status :: "int option"
  rs_Body :: string

definition no_response :: response where
  "no_response = \<lparr>rs_Header = [], rs_Status = None, rs_Body = []\<rparr>"

subsection \<open>The handler\<close>

definition maxBodyBytes :: nat where "maxBodyBytes = 8192"
definition correlationUnavailable :: string where
  "correlationUnavailable = ''correlation-id-unavailable''"

record registerRequest =
  rr_Email :: string
  rr_DisplayName :: string

definition registerResponse :: "string \<Rightarrow> json" where
  "registerResponse userID = JObj [(''user_id'', JStr userID)]"

definition errorResponse :: "string \<Rightarrow> string \<Rightarrow> json" where
  "errorResponse code message = JObj [(''code'', JStr code), (''message'', JStr message)]"

text \<open>\<open>hd_decode\<close> is the decoder, \<open>hd_write\<close> the writer's verdict on the body's bytes.\<close>

record 'w Handler =
  hd_register :: "RegisterUserCommand \<Rightarrow> ('w, gerr + uuid) act"
  hd_ids :: "'w IDGen"
  hd_log :: "log_line \<Rightarrow> 'w \<Rightarrow> 'w"
  hd_decode :: "string \<Rightarrow> bool \<Rightarrow> gerr + registerRequest"
  hd_write :: "string \<Rightarrow> ('w, gerr option) act"

definition http_write :: "'w Handler \<Rightarrow> int \<Rightarrow> json \<Rightarrow> response \<Rightarrow> 'w \<Rightarrow> response \<times> 'w" where
  "http_write h status body rs w =
     (let rs = rs\<lparr>rs_Header := Header_Set ''Content-Type'' ''application/json'' (rs_Header rs)\<rparr>;
          rs = (if rs_Status rs = None then rs\<lparr>rs_Status := Some status\<rparr> else rs);
          text = json_text body @ [CHR 0x0A]
      in case hd_write h text w of
           (Some err, w) \<Rightarrow> (rs, hd_log h (line LevelError ''write response'' [(''error'', AErr err)]) w)
         | (None, w) \<Rightarrow> (rs\<lparr>rs_Body := rs_Body rs @ text\<rparr>, w))"

definition http_fail :: "'w Handler \<Rightarrow> int \<Rightarrow> string \<Rightarrow> string \<Rightarrow> response \<Rightarrow> 'w \<Rightarrow> response \<times> 'w" where
  "http_fail h status code message = http_write h status (errorResponse code message)"

definition correlationID :: "'w Handler \<Rightarrow> request \<Rightarrow> ('w, string) act" where
  "correlationID h r w =
     (let fromClient = Header_Get (rq_Header r) ''X-Correlation-ID''
      in if fromClient \<noteq> [] then (fromClient, w)
         else (case hd_ids h w of
             (Inl err, w) \<Rightarrow>
               (correlationUnavailable,
                hd_log h (line LevelWarn ''could not mint a correlation id; the trace will be marked, not lost''
                  [(''error'', AErr err)]) w)
           | (Inr i, w) \<Rightarrow> (uuid_text i, w)))"

definition metadata_of :: "'w Handler \<Rightarrow> request \<Rightarrow> ('w, Metadata) act" where
  "metadata_of h r w =
     (let (c, w) = correlationID h r w
      in (\<lparr>CorrelationID = c, Traceparent = Header_Get (rq_Header r) ''traceparent''\<rparr>, w))"

definition failFor :: "'w Handler \<Rightarrow> Metadata \<Rightarrow> gerr \<Rightarrow> response \<Rightarrow> 'w \<Rightarrow> response \<times> 'w" where
  "failFor h meta err rs w =
     (if errors_Is err ErrInvalidEmail then
        http_fail h 400 ''invalid_email'' ''email is not a valid address'' rs w
      else if errors_Is err ErrInvalidDisplayName then
        http_fail h 400 ''invalid_display_name'' ''display name is empty or too long'' rs w
      else if errors_Is err ErrEmailTaken then
        http_fail h 409 ''email_taken'' ''that email is already registered'' rs w
      else
        http_fail h 500 ''internal_error'' ''the request could not be completed'' rs
          (hd_log h (line LevelError ''register user failed''
             [(''correlation_id'', AStr (CorrelationID meta)), (''error'', AErr err)]) w))"

definition Handler_RegisterUser :: "'w Handler \<Rightarrow> request \<Rightarrow> ('w, response) act" where
  "Handler_RegisterUser h r w =
     (let (meta, w) = metadata_of h r w;
          rs = no_response\<lparr>rs_Header := Header_Set ''X-Correlation-ID'' (CorrelationID meta) []\<rparr>
      in case hd_decode h (take maxBodyBytes (rq_Body r)) (length (rq_Body r) > maxBodyBytes) of
           Inl _ \<Rightarrow> http_fail h 400 ''malformed_body''
             ''request body must be a JSON object with the fields email and display_name'' rs w
         | Inr body \<Rightarrow>
             (case hd_register h \<lparr>cmd_Email = rr_Email body, cmd_DisplayName = rr_DisplayName body,
                  cmd_Meta = meta\<rparr> w of
                (Inl err, w) \<Rightarrow> failFor h meta err rs w
              | (Inr i, w) \<Rightarrow>
                  (let rs = rs\<lparr>rs_Header := Header_Set ''Location'' (''/users/'' @ uuid_text i) (rs_Header rs)\<rparr>
                   in http_write h 201 (registerResponse (uuid_text i)) rs w)))"

end
