(* ===== verification/HttpProperties.thy ===== *)
theory HttpProperties
  imports HttpApi
begin

text \<open>
  The error contract of \<open>POST /users\<close>, the correlation id, and the endpoint on top of the write
  path and the database.
\<close>

subsection \<open>The contract\<close>

text \<open>
  What a request comes to, and the response that belongs to it, as far as the handler writes it;
  \<open>MaxBytesReader\<close> adds \<open>Connection: close\<close> to the answer to a body that is too long.
\<close>

datatype http_outcome = Malformed | BadEmail | BadName | Taken | Internal | Created uuid

definition error_class :: "gerr \<Rightarrow> http_outcome" where
  "error_class err =
     (if errors_Is err ErrInvalidEmail then BadEmail
      else if errors_Is err ErrInvalidDisplayName then BadName
      else if errors_Is err ErrEmailTaken then Taken else Internal)"

fun status_of :: "http_outcome \<Rightarrow> int" where
  "status_of Malformed = 400" | "status_of BadEmail = 400" | "status_of BadName = 400"
| "status_of Taken = 409" | "status_of Internal = 500" | "status_of (Created i) = 201"

fun body_of :: "http_outcome \<Rightarrow> json" where
  "body_of Malformed = errorResponse ''malformed_body''
     ''request body must be a JSON object with the fields email and display_name''"
| "body_of BadEmail = errorResponse ''invalid_email'' ''email is not a valid address''"
| "body_of BadName = errorResponse ''invalid_display_name'' ''display name is empty or too long''"
| "body_of Taken = errorResponse ''email_taken'' ''that email is already registered''"
| "body_of Internal = errorResponse ''internal_error'' ''the request could not be completed''"
| "body_of (Created i) = registerResponse (uuid_text i)"

definition response_for :: "string \<Rightarrow> http_outcome \<Rightarrow> response" where
  "response_for c out =
     \<lparr>rs_Header = [(''X-Correlation-Id'', c)] @
        (case out of Created i \<Rightarrow> [(''Location'', ''/users/'' @ uuid_text i)] | _ \<Rightarrow> []) @
        [(''Content-Type'', ''application/json'')],
      rs_Status = Some (status_of out), rs_Body = json_text (body_of out) @ [CHR 0x0A]\<rparr>"

text \<open>The outcome of a request: its body is decoded first, then the use case runs once.\<close>

definition command_of :: "Metadata \<Rightarrow> registerRequest \<Rightarrow> RegisterUserCommand" where
  "command_of meta body = \<lparr>cmd_Email = rr_Email body, cmd_DisplayName = rr_DisplayName body, cmd_Meta = meta\<rparr>"

definition run_request :: "'w Handler \<Rightarrow> request \<Rightarrow> Metadata \<Rightarrow> 'w \<Rightarrow> http_outcome \<times> gerr option \<times> 'w" where
  "run_request h r meta w =
     (case hd_decode h (take maxBodyBytes (rq_Body r)) (length (rq_Body r) > maxBodyBytes) of
        Inl _ \<Rightarrow> (Malformed, None, w)
      | Inr body \<Rightarrow>
          (case hd_register h (command_of meta body) w of
             (Inl err, w) \<Rightarrow> (error_class err, Some err, w)
           | (Inr i, w) \<Rightarrow> (Created i, None, w)))"

lemma canonical_keys [simp]:
  "CanonicalHeaderKey ''X-Correlation-ID'' = ''X-Correlation-Id''"
  "CanonicalHeaderKey ''Content-Type'' = ''Content-Type''"
  "CanonicalHeaderKey ''Location'' = ''Location''"
  by code_simp+

text \<open>
  The answer to an outcome.  An error of no known class is logged, with its text and the correlation id,
  before the response is written.  The response is written once: it is complete when the writer takes
  the bytes; when it does not, the response has no body and the writer's error is logged.
\<close>

definition answered :: "'w Handler \<Rightarrow> string \<Rightarrow> http_outcome \<Rightarrow> gerr option \<Rightarrow> 'w \<Rightarrow> response \<Rightarrow> 'w \<Rightarrow> bool" where
  "answered h c out err w rs w' \<longleftrightarrow>
     (let w1 = (if out = Internal
          then hd_log h (line LevelError ''register user failed'' [(''correlation_id'', AStr c), (''error'', AErr (the err))]) w
          else w)
      in case hd_write h (json_text (body_of out) @ [CHR 0x0A]) w1 of
           (None, w2) \<Rightarrow> rs = response_for c out \<and> w' = w2
         | (Some e, w2) \<Rightarrow> rs = (response_for c out)\<lparr>rs_Body := []\<rparr> \<and>
             w' = hd_log h (line LevelError ''write response'' [(''error'', AErr e)]) w2)"

lemma http_write_answer:
  assumes "http_write h (status_of out) (body_of out) rs v = (rs', w')"
    and "rs = \<lparr>rs_Header = [(''X-Correlation-Id'', c)] @
        (case out of Created i \<Rightarrow> [(''Location'', ''/users/'' @ uuid_text i)] | _ \<Rightarrow> []), rs_Status = None, rs_Body = []\<rparr>"
    and "v = (if out = Internal
          then hd_log h (line LevelError ''register user failed'' [(''correlation_id'', AStr c), (''error'', AErr (the err))]) w
          else w)"
  shows "answered h c out err w rs' w'"
proof -
  obtain x u where x: "hd_write h (json_text (body_of out) @ [CHR 0x0A]) v = (x, u)" by (metis prod.exhaust)
  have "Header_Set ''Content-Type'' ''application/json'' (rs_Header rs) = rs_Header (response_for c out)"
    unfolding assms(2) by (cases out) (simp_all add: Header_Set_def response_for_def)
  with assms(1,2) x show ?thesis
    unfolding answered_def assms(3) [symmetric] Let_def
    by (cases x) (auto simp: http_write_def Let_def response_for_def)
qed

lemma http_answer:
  assumes "Handler_RegisterUser h r w = (rs, w')"
    and "metadata_of h r w = (meta, w1)" and "run_request h r meta w1 = (out, err, w2)"
  shows "answered h (CorrelationID meta) out err w2 rs w'"
proof -
  let ?rs = "no_response\<lparr>rs_Header := Header_Set ''X-Correlation-ID'' (CorrelationID meta) []\<rparr>"
  show ?thesis
  proof (cases "hd_decode h (take maxBodyBytes (rq_Body r)) (length (rq_Body r) > maxBodyBytes)")
    case (Inl e)
    with assms have o: "out = Malformed" "w2 = w1"
      and wr: "http_write h (status_of out) (body_of out) ?rs w1 = (rs, w')"
      by (auto simp: run_request_def Handler_RegisterUser_def http_fail_def)
    from http_write_answer [OF wr] o show ?thesis by (simp add: no_response_def Header_Set_def)
  next
    case (Inr body)
    obtain x v where x: "hd_register h (command_of meta body) w1 = (x, v)" by (metis prod.exhaust)
    show ?thesis
    proof (cases x)
      case e: (Inl e)
      from assms Inr x e have o: "out = error_class e" "err = Some e" "w2 = v" "failFor h meta e ?rs v = (rs, w')"
        by (auto simp: run_request_def Handler_RegisterUser_def command_of_def)
      let ?v = "if out = Internal
          then hd_log h (line LevelError ''register user failed'' [(''correlation_id'', AStr (CorrelationID meta)), (''error'', AErr e)]) v
          else v"
      have wr: "http_write h (status_of out) (body_of out) ?rs ?v = (rs, w')"
        using o(4) by (auto simp: failFor_def http_fail_def o(1) error_class_def split: if_splits)
      have "\<forall>i. out \<noteq> Created i" by (simp add: o(1) error_class_def)
      with http_write_answer [OF wr] o(2,3) show ?thesis
        by (cases out) (simp_all add: no_response_def Header_Set_def)
    next
      case i: (Inr i)
      let ?l = "?rs\<lparr>rs_Header := Header_Set ''Location'' (''/users/'' @ uuid_text i) (rs_Header ?rs)\<rparr>"
      from assms Inr x i have o: "out = Created i" "w2 = v"
        and wr: "http_write h (status_of out) (body_of out) ?l v = (rs, w')"
        by (auto simp: run_request_def Handler_RegisterUser_def command_of_def)
      from http_write_answer [OF wr] o show ?thesis by (simp add: no_response_def Header_Set_def)
    qed
  qed
qed

lemma answered_response:
  "answered h c out err w rs w' \<Longrightarrow> rs = response_for c out \<or> rs = (response_for c out)\<lparr>rs_Body := []\<rparr>"
  by (auto simp: answered_def Let_def split: prod.splits option.splits)

lemmas http_response = http_answer [THEN answered_response]

text \<open>
  C31: The error contract.  What \<open>POST /users\<close> answers and logs is a function of the correlation id and
  of the outcome alone: a body that does not decode is a 400 and the use case is not called, an invalid
  email or name is a 400, a taken email a 409, a registration a 201 with its location, and every other
  error the same 500, whatever the error says.  That error, and no other, is logged once, with its
  cause and the correlation id, before the answer.  The answer is written once; the only way to see
  less is a connection that does not take the body, which is logged too.
\<close>

theorem http_error_contract:
  assumes "Handler_RegisterUser h r w = (rs, w')"
    and "metadata_of h r w = (meta, w1)" and "run_request h r meta w1 = (out, err, w2)"
  shows "\<exists>w3 unwritten w4.
    w3 = (if out = Internal
      then hd_log h (line LevelError ''register user failed''
        [(''correlation_id'', AStr (CorrelationID meta)), (''error'', AErr (the err))]) w2 else w2) \<and>
    hd_write h (json_text (body_of out) @ [CHR 0x0A]) w3 = (unwritten, w4) \<and>
    (case unwritten of
       None \<Rightarrow> rs = response_for (CorrelationID meta) out \<and> w' = w4
     | Some e \<Rightarrow> rs = (response_for (CorrelationID meta) out)\<lparr>rs_Body := []\<rparr> \<and>
         w' = hd_log h (line LevelError ''write response'' [(''error'', AErr e)]) w4)"
proof -
  let ?w3 = "if out = Internal
      then hd_log h (line LevelError ''register user failed''
        [(''correlation_id'', AStr (CorrelationID meta)), (''error'', AErr (the err))]) w2 else w2"
  obtain x w4 where x: "hd_write h (json_text (body_of out) @ [CHR 0x0A]) ?w3 = (x, w4)" by (metis prod.exhaust)
  with http_answer [OF assms] show ?thesis
    by (intro exI [of _ ?w3] exI [of _ x] exI [of _ w4])
      (simp add: answered_def split: option.splits)
qed

subsection \<open>The endpoint on the write path\<close>

text \<open>
  The handler as \<open>cmd/api\<close> wires it.  \<open>wire n\<close> is the verdict of the connection on the response
  written at interaction \<open>n\<close>.
\<close>

definition api_handler ::
    "(string \<Rightarrow> string) \<Rightarrow> (string \<Rightarrow> string option) \<Rightarrow> (time \<Rightarrow> time) \<Rightarrow>
     (string \<Rightarrow> bool \<Rightarrow> gerr + registerRequest) \<Rightarrow> (nat \<Rightarrow> gerr option) \<Rightarrow> world Handler" where
  "api_handler uni parse stamp decode wire =
     \<lparr>hd_register = RegisterUser_Execute uni parse (api_uow stamp) stamp, hd_ids = UUIDv7_New,
      hd_log = log_write, hd_decode = decode, hd_write = (\<lambda>text w. (wire (w_tick w), tick w))\<rparr>"

definition same_tables :: "world \<Rightarrow> world \<Rightarrow> bool" where
  "same_tables w w' \<longleftrightarrow> same_db w w' \<and> w_seq w' = w_seq w \<and> w_broker w' = w_broker w"

lemma same_tables_log [simp]: "same_tables v (log_write l w) = same_tables v w"
  "same_tables (log_write l v) w = same_tables v w"
  by (simp_all add: same_tables_def same_db_def log_write_def)

lemma same_tables_tick [simp]: "same_tables v (tick w) = same_tables v w" "same_tables (tick v) w = same_tables v w"
  by (simp_all add: same_tables_def same_db_def)

lemma same_tables_refl [simp]: "same_tables w w"
  by (simp add: same_tables_def)

lemma same_tables_trans: "same_tables u v \<Longrightarrow> same_tables v w \<Longrightarrow> same_tables u w"
  by (auto simp: same_tables_def intro: same_db_trans)

lemma api_handler_simps [port_simps]:
  "hd_register (api_handler uni parse stamp decode wire) = RegisterUser_Execute uni parse (api_uow stamp) stamp"
  "hd_ids (api_handler uni parse stamp decode wire) = UUIDv7_New"
  "hd_log (api_handler uni parse stamp decode wire) = log_write"
  "hd_write (api_handler uni parse stamp decode wire) text w = (wire (w_tick w), tick w)"
  by (simp_all add: api_handler_def)

lemma metadata_frame:
  assumes "metadata_of (api_handler uni parse stamp decode wire) r w = (meta, v)"
  shows "same_tables w v"
    "\<forall>n i. env_mint (w_env w) n = Inr i \<longrightarrow> uuid_text i \<noteq> [] \<Longrightarrow> CorrelationID meta \<noteq> []"
  using assms
  by (auto simp: metadata_of_def correlationID_def port_simps UUIDv7_New_def Let_def correlationUnavailable_def
      split: if_splits prod.splits sum.splits)

lemma write_frame:
  "http_write (api_handler uni parse stamp decode wire) status body rs w = (rs', w') \<Longrightarrow> same_tables w w'"
  by (auto simp: http_write_def Let_def port_simps split: option.splits if_splits)

lemma failFor_frame:
  "failFor (api_handler uni parse stamp decode wire) meta err rs w = (rs', w') \<Longrightarrow> same_tables w w'"
  by (auto simp: failFor_def http_fail_def port_simps split: if_splits dest: write_frame)

text \<open>The run of a request and the response around it leave the tables as the use case left them.\<close>

lemma handler_frame:
  assumes "Handler_RegisterUser (api_handler uni parse stamp decode wire) r w = (rs, w')"
    and "metadata_of (api_handler uni parse stamp decode wire) r w = (meta, w1)"
    and "run_request (api_handler uni parse stamp decode wire) r meta w1 = (out, err, w2)"
  shows "same_tables w2 w'"
proof -
  let ?h = "api_handler uni parse stamp decode wire"
  show ?thesis
  proof (cases "hd_decode ?h (take maxBodyBytes (rq_Body r)) (length (rq_Body r) > maxBodyBytes)")
    case (Inl e)
    with assms show ?thesis
      by (auto simp: run_request_def Handler_RegisterUser_def http_fail_def dest: write_frame)
  next
    case (Inr body)
    obtain x v where x: "hd_register ?h (command_of meta body) w1 = (x, v)" by (metis prod.exhaust)
    with assms Inr show ?thesis
      by (cases x) (auto simp: run_request_def Handler_RegisterUser_def command_of_def
          dest: write_frame failFor_frame)
  qed
qed

lemma registered_frame:
  "registered uni stamp cmd i v v' \<Longrightarrow> same_tables w v \<Longrightarrow> same_tables v' w' \<Longrightarrow> registered uni stamp cmd i w w'"
  unfolding registered_def same_tables_def same_db_def by auto

lemma run_request_cases:
  assumes "run_request h r meta w = (out, err, w')"
  obtains (malformed) "out = Malformed" "err = None" "w' = w"
  | (failed) body e where "hd_register h (command_of meta body) w = (Inl e, w')" "out = error_class e" "err = Some e"
  | (created) body i where "hd_register h (command_of meta body) w = (Inr i, w')" "out = Created i" "err = None"
  using assms by (auto simp: run_request_def split: sum.splits prod.splits)

lemma error_class_status: "status_of (error_class e) \<noteq> 201"
  by (simp add: error_class_def)

lemma response_for_simps [simp]:
  "rs_Status (response_for c out) = Some (status_of out)"
  "map_of (rs_Header (response_for c out)) ''X-Correlation-Id'' = Some c"
  "map_of (rs_Header (response_for c (Created i))) ''Location'' = Some (''/users/'' @ uuid_text i)"
  by (simp_all add: response_for_def)

lemma registered_correlation:
  assumes "registered uni stamp cmd i w w'" "CorrelationID (cmd_Meta cmd) \<noteq> []"
  shows "map_of (row_headers (last (w_outbox w'))) HeaderCorrelationID = Some (CorrelationID (cmd_Meta cmd))"
proof -
  from assms(1) obtain now env where "w_outbox w' = w_outbox w @ [outbox_row_of (w_env w) stamp now (w_seq w) env]"
    "env_Headers env = headers (cmd_Meta cmd)" by (auto simp: registered_def envelope_of_def)
  with assms(2) show ?thesis by (simp add: outbox_row_of_def map_of_headers header_names)
qed

text \<open>
  C30: The endpoint.  A 201 means that the user of the location and its one pending outbox row are
  committed.  Any other status means that the tables are as before, unless the answer to the commit
  was lost: then both rows are there all the same.  In every case the response has a correlation id,
  never empty, and it is the one stored with the outbox row.
\<close>

theorem post_users_is_atomic:
  assumes "Handler_RegisterUser (api_handler uni parse stamp decode wire) r w = (rs, w')"
    and "\<forall>n i. env_mint (w_env w) n = Inr i \<longrightarrow> uuid_text i \<noteq> []"
  shows "\<exists>c. c \<noteq> [] \<and> map_of (rs_Header rs) ''X-Correlation-Id'' = Some c \<and>
    ((\<exists>cmd i. registered uni stamp cmd i w w' \<and>
        map_of (row_headers (last (w_outbox w'))) HeaderCorrelationID = Some c \<and>
        (rs_Status rs = Some 201 \<and> map_of (rs_Header rs) ''Location'' = Some (''/users/'' @ uuid_text i) \<or>
         (\<exists>e. rs_Status rs = Some (status_of (error_class (wrapf ''postgres: commit'' e)))))) \<or>
     rs_Status rs \<noteq> Some 201 \<and> w_users w' = w_users w \<and> w_outbox w' = w_outbox w)"
proof -
  let ?h = "api_handler uni parse stamp decode wire"
  obtain meta w1 where m: "metadata_of ?h r w = (meta, w1)" by (metis prod.exhaust)
  obtain out err w2 where o: "run_request ?h r meta w1 = (out, err, w2)" by (metis prod_cases3)
  let ?c = "CorrelationID meta"
  have rs: "rs = response_for ?c out \<or> rs = (response_for ?c out)\<lparr>rs_Body := []\<rparr>"
    by (rule http_response [OF assms(1) m o])
  note mf = metadata_frame [OF m] and hf = handler_frame [OF assms(1) m o]
  have c: "?c \<noteq> []" using mf(2) assms(2) by blast
  have id: "map_of (rs_Header rs) ''X-Correlation-Id'' = Some ?c" using rs by auto
  have status: "rs_Status rs = Some (status_of out)" using rs by auto
  have same: "w_users w' = w_users w \<and> w_outbox w' = w_outbox w" if "same_tables w1 w2"
    using same_tables_trans [OF mf(1) same_tables_trans [OF that hf]] by (simp add: same_tables_def same_db_def)
  have reg: "registered uni stamp (command_of meta body) i w w' \<and>
      map_of (row_headers (last (w_outbox w'))) HeaderCorrelationID = Some ?c"
    if "registered uni stamp (command_of meta body) i w1 w2" for body i
  proof -
    have "registered uni stamp (command_of meta body) i w w'" by (rule registered_frame [OF that mf(1) hf])
    with registered_correlation [OF this] c show ?thesis by (simp add: command_of_def)
  qed
  from o show ?thesis
  proof (cases rule: run_request_cases)
    case malformed
    with same status c id show ?thesis by (intro exI [of _ ?c]) simp
  next
    case (failed body e)
    then have run: "RegisterUser_Execute uni parse (api_uow stamp) stamp (command_of meta body) w1 = (Inl e, w2)"
      by (simp add: port_simps)
    from registration_outcome [OF run] show ?thesis
    proof
      assume u: "(\<exists>e'. Inl e = Inl e') \<and> w_users w2 = w_users w1 \<and> w_outbox w2 = w_outbox w1 \<and>
        w_seq w1 \<le> w_seq w2 \<and> w_broker w2 = w_broker w1 \<and> w_notified w2 = w_notified w1"
      with mf(1) hf have "w_users w' = w_users w" "w_outbox w' = w_outbox w"
        by (simp_all add: same_tables_def same_db_def)
      with status failed(2) error_class_status c id show ?thesis by (intro exI [of _ ?c]) simp
    next
      assume "\<exists>i. registered uni stamp (command_of meta body) i w1 w2 \<and>
        (Inl e = Inr i \<or> (\<exists>e'. Inl e = Inl (wrapf ''postgres: commit'' e')))"
      then obtain i e' where "registered uni stamp (command_of meta body) i w1 w2" "e = wrapf ''postgres: commit'' e'"
        by auto
      with reg [of body i] status failed(2) c id show ?thesis by (intro exI [of _ ?c]) auto
    qed
  next
    case (created body i)
    then have run: "RegisterUser_Execute uni parse (api_uow stamp) stamp (command_of meta body) w1 = (Inr i, w2)"
      by (simp add: port_simps)
    from registration_outcome [OF run] have "registered uni stamp (command_of meta body) i w1 w2" by auto
    moreover have "map_of (rs_Header rs) ''Location'' = Some (''/users/'' @ uuid_text i)" using rs created(2) by auto
    ultimately show ?thesis using reg [of body i] status created(2) c id by (intro exI [of _ ?c]) auto
  qed
qed

text \<open>A client that sends an address and no correlation id, on a decoder of one-word bodies.\<close>

definition one_word :: "string \<Rightarrow> bool \<Rightarrow> gerr + registerRequest" where
  "one_word bytes longer =
     (if longer then Inl (Ext ''http: request body too large'')
      else Inr \<lparr>rr_Email = bytes, rr_DisplayName = ''Ada''\<rparr>)"

definition sample_handler :: "world Handler" where
  "sample_handler = api_handler (\<lambda>s. s) parse_bare (\<lambda>t. t) one_word (\<lambda>n. None)"

definition sample_request :: "string \<Rightarrow> request" where
  "sample_request body = \<lparr>rq_Header = [], rq_Body = body\<rparr>"

text \<open>A use case that fails for a reason of its own, on a world that is the log.\<close>

definition failing_handler :: "log_line list Handler" where
  "failing_handler =
     \<lparr>hd_register = (\<lambda>cmd w. (Inl (Ext ''disk full''), w)), hd_ids = (\<lambda>w. (Inr (UUID ''m''), w)),
      hd_log = (\<lambda>l w. w @ [l]), hd_decode = one_word, hd_write = (\<lambda>text w. (None, w))\<rparr>"

lemma http_error_contract_witness:
  "Handler_RegisterUser failing_handler (sample_request ''nobody'') [] =
     (response_for ''m'' Internal,
      [line LevelError ''register user failed'' [(''correlation_id'', AStr ''m''), (''error'', AErr (Ext ''disk full''))]])"
proof -
  let ?r = "sample_request ''nobody''"
  obtain rs w' where run: "Handler_RegisterUser failing_handler ?r [] = (rs, w')" by (metis prod.exhaust)
  have "metadata_of failing_handler ?r [] = (\<lparr>CorrelationID = ''m'', Traceparent = []\<rparr>, [])"
    "run_request failing_handler ?r \<lparr>CorrelationID = ''m'', Traceparent = []\<rparr> [] = (Internal, Some (Ext ''disk full''), [])"
    by code_simp+
  from http_error_contract [OF run this] run show ?thesis by (auto simp: failing_handler_def)
qed

lemma post_users_is_atomic_witness:
  "let (rs, w') = Handler_RegisterUser sample_handler (sample_request ''Ada@Example.com'') (sample_world [] [])
   in rs_Status rs = Some 201 \<and> map_of (rs_Header rs) ''X-Correlation-Id'' = Some ''id-0'' \<and>
      map_of (row_headers (last (w_outbox w'))) HeaderCorrelationID = Some ''id-0''"
proof -
  let ?run = "Handler_RegisterUser sample_handler (sample_request ''Ada@Example.com'') (sample_world [] [])"
  have "case ?run of (rs, w) \<Rightarrow> rs_Status rs = Some 201 \<and>
      map_of (rs_Header rs) ''X-Correlation-Id'' = Some ''id-0''" by code_simp
  then have v: "rs_Status (fst ?run) = Some 201" "map_of (rs_Header (fst ?run)) ''X-Correlation-Id'' = Some ''id-0''"
    by (simp_all only: case_prod_unfold)
  have "uuid_text i \<noteq> []" if "env_mint (w_env (sample_world [] [])) n = Inr i" for n i
    using that by (auto simp: sample_world_def sample_env_def)
  then have "\<forall>n i. env_mint (w_env (sample_world [] [])) n = Inr i \<longrightarrow> uuid_text i \<noteq> []" by blast
  from post_users_is_atomic [OF prod.collapse [symmetric, of ?run, unfolded sample_handler_def] this] v
  have "map_of (row_headers (last (w_outbox (snd ?run)))) HeaderCorrelationID = Some ''id-0''"
    by (auto simp: sample_handler_def [symmetric])
  with v show ?thesis by (simp only: Let_def case_prod_unfold)
qed

end
