(* ===== verification/RelayLoop.thy ===== *)
theory RelayLoop
  imports PublishBatch Backoff Logging
begin

text \<open>
  The driver loop of the relay, \<open>internal/accounts/presentation/worker/relay.go\<close>: one pass after
  the other, the wait between them chosen from the pass's result, the log lines of a pass, and the
  two contexts of a graceful shutdown.  What the loop talks to (the use case, the waiter, the
  jitter, the two contexts, the timer and the logger) is a record of functions on the world.
\<close>

subsection \<open>State\<close>

definition notifyQueueWarnAt :: rat where
  "notifyQueueWarnAt = 1 / 4"

record RelayPolicy =
  IdleMin :: duration
  IdleMax :: duration
  DrainGrace :: duration

record 'w Waiter =
  Wait :: "duration \<Rightarrow> ('w, bool \<times> gerr option) act"
  Usage :: "('w, rat option) act"

text \<open>
  The struct \<open>Relay\<close>.  \<open>rl_ctx_done\<close> and \<open>rl_pass_done\<close> ask whether the process was told to
  stop and whether the pass was abandoned, \<open>rl_sleep\<close> is the timer's select, \<open>rl_log\<close> writes
  one line.
\<close>

record 'w RelayWorker =
  rl_publish :: "('w, PublishResult \<times> gerr option) act"
  rl_wake :: "'w Waiter option"
  rl_jitter :: "('w, rat) act"
  rl_policy :: RelayPolicy
  rl_ctx_done :: "('w, bool) act"
  rl_pass_done :: "('w, bool) act"
  rl_sleep :: "duration \<Rightarrow> 'w \<Rightarrow> 'w"
  rl_log :: "log_line \<Rightarrow> 'w \<Rightarrow> 'w"

text \<open>\<open>NewRelay\<close> starts the idle backoff, the loop's one mutable field, at \<open>IdleMin\<close>.\<close>

definition NewRelay_idle :: "RelayPolicy \<Rightarrow> duration" where
  "NewRelay_idle p = IdleMin p"

subsection \<open>The wait\<close>

definition nextWait :: "RelayPolicy \<Rightarrow> PublishResult \<Rightarrow> duration \<Rightarrow> duration \<times> duration" where
  "nextWait p res idle =
     (if Full res then (0, IdleMin p)
      else if length (res_Transient res) > 0 then (IdleMax p, IdleMin p)
      else if res_Claimed res > 0 then (IdleMin p, IdleMin p)
      else (idle, min (i64 (idle * 2)) (IdleMax p)))"

definition wait :: "'w RelayWorker \<Rightarrow> duration \<Rightarrow> duration \<Rightarrow> 'w \<Rightarrow> duration \<times> 'w" where
  "wait r d idle w =
     (if d \<le> 0 then (idle, w)
      else (let (j, w) = rl_jitter r w; d = jittered d j
            in case rl_wake r of
                 None \<Rightarrow> (idle, rl_sleep r d w)
               | Some wk \<Rightarrow>
                   (case Wait wk d w of
                      ((woken, None), w) \<Rightarrow> (if woken then IdleMin (rl_policy r) else idle, w)
                    | ((woken, Some err), w) \<Rightarrow>
                        (idle, rl_sleep r d
                          (rl_log r (line LevelWarn ''outbox wakeup unavailable; polling instead''
                             [(''error'', AErr err)]) w)))))"

subsection \<open>The lines of a pass\<close>

definition failed_pass_line :: "PublishResult \<Rightarrow> gerr \<Rightarrow> log_line" where
  "failed_pass_line res err =
     line LevelError ''relay pass rolled back; every row it claimed is still pending''
       [(''error'', AErr err), (''claimed'', AInt (res_Claimed res)),
        (''republish_on_retry'', AInt (res_Published res)),
        (''batch_ms'', AInt (Milliseconds (res_Duration res)))]"

definition stats_attrs :: "PublishResult \<Rightarrow> (string \<times> attr) list" where
  "stats_attrs res =
     (case res_StatsErr res of
        Some e \<Rightarrow> [(''stats_error'', AStr (error_text e))]
      | None \<Rightarrow>
          [(''backlog'', AInt (Backlog (res_Stats res))),
           (''oldest_pending_age_ms'', AInt (Milliseconds (OldestPendingAge (res_Stats res)))),
           (''failed_rows'', AInt (FailedRows (res_Stats res))),
           (''stuck_rows'', AInt (StuckRows (res_Stats res)))])"

definition pass_line :: "PublishResult \<Rightarrow> rat option \<Rightarrow> log_line" where
  "pass_line res usage =
     line (if res_Claimed res > 0 then LevelInfo else LevelDebug) ''relay pass''
       ([(''claimed'', AInt (res_Claimed res)), (''published'', AInt (res_Published res)),
         (''transient_failures'', AInt (int (length (res_Transient res)))),
         (''permanent_failures'', AInt (int (length (res_Permanent res)))),
         (''batch_ms'', AInt (Milliseconds (res_Duration res)))] @ stats_attrs res @
        (case usage of None \<Rightarrow> [] | Some u \<Rightarrow> [(''notify_queue_usage'', AFloat u)]))"

definition failure_line :: "level \<Rightarrow> string \<Rightarrow> Failure \<Rightarrow> log_line" where
  "failure_line l m f = line l m
     [(''outbox_id'', AInt (OutboxID f)), (''event_id'', AStr (uuid_text (fail_EventID f))),
      (''reason'', AStr (Reason f))]"

definition pass_lines :: "PublishResult \<Rightarrow> rat option \<Rightarrow> log_line list" where
  "pass_lines res usage =
     [pass_line res usage] @
     (case usage of
        Some u \<Rightarrow>
          if u > notifyQueueWarnAt
          then [line LevelWarn ''postgres notify queue is filling; NOTIFY can start failing commits''
                  [(''usage'', AFloat u), (''warn_at'', AFloat notifyQueueWarnAt)]]
          else []
      | None \<Rightarrow> []) @
     map (failure_line LevelError ''outbox row parked as failed; a human has to look at it'')
       (res_Permanent res) @
     map (failure_line LevelWarn
            ''publish failed transiently; the row stays pending and will be retried'')
       (res_Transient res) @
     (if StuckRows (res_Stats res) > 0
      then [line LevelWarn ''outbox rows are past the attempt threshold and still retrying''
              [(''stuck_rows'', AInt (StuckRows (res_Stats res)))]]
      else [])"

definition logPass :: "'w RelayWorker \<Rightarrow> PublishResult \<Rightarrow> 'w \<Rightarrow> 'w" where
  "logPass r res w =
     (let (usage, w) = (case rl_wake r of None \<Rightarrow> (None, w) | Some wk \<Rightarrow> Usage wk w)
      in fold (rl_log r) (pass_lines res usage) w)"

subsection \<open>The loop\<close>

definition stopping :: "'w RelayWorker \<Rightarrow> 'w \<Rightarrow> 'w" where
  "stopping r w =
     (case rl_pass_done r w of
        (True, w) \<Rightarrow>
          rl_log r (line LevelWarn (''relay loop stopped, but the drain grace expired with a pass still in '' @
            ''flight; it rolled back, and whatever it had already published will be published again'')
            [(''drain_grace'', ADur (DrainGrace (rl_policy r)))]) w
      | (False, w) \<Rightarrow> rl_log r (line LevelInfo ''relay loop stopped'' []) w)"

text \<open>
  The body of the \<open>for\<close>: \<open>Inl\<close> is a return from \<open>Run\<close>, whose error is always nil, and
  \<open>Inr\<close> the next turn with its idle backoff.
\<close>

definition run_body :: "'w RelayWorker \<Rightarrow> duration \<Rightarrow> 'w \<Rightarrow> (gerr option \<times> 'w) + (duration \<times> 'w)" where
  "run_body r idle w =
     (case rl_ctx_done r w of
        (True, w) \<Rightarrow> Inl (None, stopping r w)
      | (False, w) \<Rightarrow>
          (case rl_publish r w of
             ((res, Some err), w) \<Rightarrow>
               (case rl_ctx_done r (rl_log r (failed_pass_line res err) w) of
                  (True, w) \<Rightarrow> Inl (None, stopping r w)
                | (False, w) \<Rightarrow> Inr (wait r (IdleMax (rl_policy r)) idle w))
           | ((res, None), w) \<Rightarrow>
               (let (d, idle) = nextWait (rl_policy r) res idle
                in Inr (wait r d idle (logPass r res w)))))"

text \<open>The value \<open>None\<close> is a loop that never stops.\<close>

partial_function (option) run_loop :: "'w RelayWorker \<Rightarrow> duration \<Rightarrow> 'w \<Rightarrow> (gerr option \<times> 'w) option" where
  "run_loop r idle w =
     (case run_body r idle w of
        Inl result \<Rightarrow> Some result
      | Inr (idle, w) \<Rightarrow> run_loop r idle w)"

definition Run :: "'w RelayWorker \<Rightarrow> 'w \<Rightarrow> (gerr option \<times> 'w) option" where
  "Run r w =
     run_loop r (NewRelay_idle (rl_policy r))
       (rl_log r (line LevelInfo ''relay started''
          [(''idle_min'', ADur (IdleMin (rl_policy r))), (''idle_max'', ADur (IdleMax (rl_policy r))),
           (''drain_grace'', ADur (DrainGrace (rl_policy r))), (''wakeup'', ABool (rl_wake r \<noteq> None))]) w)"

subsection \<open>The idle backoff\<close>

definition policy_ok :: "RelayPolicy \<Rightarrow> bool" where
  "policy_ok p \<longleftrightarrow> 0 < IdleMin p \<and> IdleMin p \<le> IdleMax p \<and> IdleMax p * 2 \<le> max_i64"

definition found_nothing :: "PublishResult \<Rightarrow> bool" where
  "found_nothing res \<longleftrightarrow> \<not> Full res \<and> res_Transient res = [] \<and> res_Claimed res \<le> 0"

text \<open>
  C15: The wait chosen after a pass.  With \<open>0 < IdleMin \<le> IdleMax\<close> and an \<open>IdleMax\<close> whose double
  fits 64 bits, the idle backoff always stays between the two, and so does the wait, except that a
  full batch, and nothing else, is followed by no wait at all.
\<close>

theorem next_wait_in_range:
  assumes "policy_ok p" "IdleMin p \<le> idle" "idle \<le> IdleMax p" "nextWait p res idle = (d, idle')"
  shows "IdleMin p \<le> idle' \<and> idle' \<le> IdleMax p \<and>
    (if Full res then d = 0 else IdleMin p \<le> d \<and> d \<le> IdleMax p)"
proof -
  have "i64 (idle * 2) = idle * 2" using assms(1-3) by (intro i64_id) (auto simp: policy_ok_def)
  with assms show ?thesis by (auto simp: nextWait_def policy_ok_def split: if_splits)
qed

definition sample_policy :: RelayPolicy where
  "sample_policy = \<lparr>IdleMin = 50000000, IdleMax = 2000000000, DrainGrace = 15000000000\<rparr>"

lemma next_wait_in_range_witness:
  "nextWait sample_policy empty_result 1600000000 = (1600000000, 2000000000) \<and>
   IdleMin sample_policy \<le> 2000000000 \<and> 2000000000 \<le> IdleMax sample_policy \<and>
   (if Full empty_result then (1600000000 :: int) = 0
    else IdleMin sample_policy \<le> 1600000000 \<and> 1600000000 \<le> IdleMax sample_policy)"
proof -
  have run: "nextWait sample_policy empty_result 1600000000 = (1600000000, 2000000000)" by code_simp
  have "policy_ok sample_policy" "IdleMin sample_policy \<le> 1600000000" "1600000000 \<le> IdleMax sample_policy"
    by code_simp+
  from next_wait_in_range [OF this run] run show ?thesis by simp
qed

text \<open>
  C25: The idle ladder.  After \<open>n\<close> passes in a row that found nothing, the idle backoff is
  \<open>min IdleMax (IdleMin * 2 ^ n)\<close>.
\<close>

theorem idle_backoff_ladder:
  assumes "policy_ok p" "found_nothing res"
  shows "((\<lambda>i. snd (nextWait p res i)) ^^ n) (NewRelay_idle p) = ladder (IdleMin p) (IdleMax p) n"
proof (induction n)
  case 0
  then show ?case using assms(1) by (simp add: NewRelay_idle_def ladder_def policy_ok_def)
next
  case (Suc n)
  let ?l = "ladder (IdleMin p) (IdleMax p) n"
  have "0 < ?l" "?l \<le> IdleMax p" using assms(1) by (simp_all add: ladder_def policy_ok_def)
  then have "i64 (?l * 2) = ?l * 2" using assms(1) by (intro i64_id) (auto simp: policy_ok_def)
  moreover have "min (?l * 2) (IdleMax p) = ladder (IdleMin p) (IdleMax p) (Suc n)"
    using assms(1) by (auto simp: ladder_def policy_ok_def min_def)
  ultimately show ?case using Suc assms(2) by (simp add: nextWait_def found_nothing_def)
qed

lemma idle_backoff_ladder_witness:
  "((\<lambda>i. snd (nextWait sample_policy empty_result i)) ^^ 7) (NewRelay_idle sample_policy) =
     ladder (IdleMin sample_policy) (IdleMax sample_policy) 7 \<and>
   ladder (IdleMin sample_policy) (IdleMax sample_policy) 7 = 2000000000"
proof -
  have "policy_ok sample_policy" "found_nothing empty_result" by code_simp+
  from idle_backoff_ladder [OF this, of 7] show ?thesis
    by (simp only: simp_thms) code_simp
qed

lemma idle_backoff_wraps:
  "let p = \<lparr>IdleMin = 2 ^ 62, IdleMax = max_i64, DrainGrace = 1\<rparr>;
       idle = snd (nextWait p empty_result (NewRelay_idle p))
   in idle = - (2 ^ 63) \<and> wait r (fst (nextWait p empty_result idle)) idle w = (idle, w)"
  by (simp add: nextWait_def NewRelay_idle_def wait_def Full_def empty_result_def i64_def Let_def)

lemma nonpositive_idle_spins:
  assumes "IdleMax (rl_policy r) \<le> 0"
    and "rl_ctx_done r w = (False, w1)" "rl_publish r w1 = ((res, Some err), w2)"
    and "rl_ctx_done r (rl_log r (failed_pass_line res err) w2) = (False, w3)"
  shows "run_body r idle w = Inr (idle, w3)"
  using assms by (simp add: run_body_def wait_def)

text \<open>
  C28: Both bounds on \<open>IdleMax\<close> are needed, and the loop checks neither.  With one that is not
  positive a pass that fails is followed by the next pass at once, with no sleep and no wait on the
  waiter, as long as the process is not told to stop.  And the doubling comes before the clamp, so with
  one near the largest duration an idle relay's backoff wraps to a negative number, and \<open>wait\<close> then
  returns at once without looking at the waiter or the timer.
\<close>

theorem unchecked_idle_max_spins:
  assumes "IdleMax (rl_policy r) \<le> 0"
    and "rl_ctx_done r w = (False, w1)" "rl_publish r w1 = ((res, Some err), w2)"
    and "rl_ctx_done r (rl_log r (failed_pass_line res err) w2) = (False, w3)"
  shows "run_body r idle w = Inr (idle, w3) \<and>
    (let p = \<lparr>IdleMin = 2 ^ 62, IdleMax = max_i64, DrainGrace = 1\<rparr>;
         idle' = snd (nextWait p empty_result (NewRelay_idle p))
     in idle' = - (2 ^ 63) \<and> wait r (fst (nextWait p empty_result idle')) idle' w = (idle', w))"
proof
  show "run_body r idle w = Inr (idle, w3)" using assms by (rule nonpositive_idle_spins)
qed (rule idle_backoff_wraps)

definition stuck_worker :: "log_line list RelayWorker" where
  "stuck_worker =
     \<lparr>rl_publish = (\<lambda>w. ((empty_result, Some (Ext ''down'')), w)), rl_wake = None,
      rl_jitter = (\<lambda>w. (1, w)), rl_policy = \<lparr>IdleMin = 50000000, IdleMax = 0, DrainGrace = 1\<rparr>,
      rl_ctx_done = (\<lambda>w. (False, w)), rl_pass_done = (\<lambda>w. (False, w)), rl_sleep = (\<lambda>d w. w),
      rl_log = (\<lambda>l w. w @ [l])\<rparr>"

lemma unchecked_idle_max_spins_witness:
  "run_body stuck_worker 50000000 [] = Inr (50000000, [failed_pass_line empty_result (Ext ''down'')])"
proof (rule unchecked_idle_max_spins [THEN conjunct1])
  show "rl_ctx_done stuck_worker [] = (False, [])" by (simp add: stuck_worker_def)
  show "rl_publish stuck_worker [] = ((empty_result, Some (Ext ''down'')), [])"
    by (simp add: stuck_worker_def)
qed (simp_all add: stuck_worker_def)

subsection \<open>What the log says\<close>

lemma line_simps [simp]: "ll_level (line l m as) = l" "ll_msg (line l m as) = m" "ll_attrs (line l m as) = as"
  by (simp_all add: line_def)

lemma failure_line_simps [simp]: "ll_level (failure_line l m f) = l" "ll_msg (failure_line l m f) = m"
  by (simp_all add: failure_line_def)

lemma pass_line_level: "ll_level (pass_line res usage) = (if res_Claimed res > 0 then LevelInfo else LevelDebug)"
  by (simp add: pass_line_def)

lemma pass_line_attrs:
  "map_of (ll_attrs (pass_line res usage)) ''claimed'' = Some (AInt (res_Claimed res))"
  "map_of (ll_attrs (pass_line res usage)) ''published'' = Some (AInt (res_Published res))"
  "map_of (ll_attrs (pass_line res usage)) ''transient_failures'' = Some (AInt (int (length (res_Transient res))))"
  "map_of (ll_attrs (pass_line res usage)) ''permanent_failures'' = Some (AInt (int (length (res_Permanent res))))"
  "map_of (ll_attrs (pass_line res usage)) ''backlog'' =
     (if res_StatsErr res = None then Some (AInt (Backlog (res_Stats res))) else None)"
  "map_of (ll_attrs (pass_line res usage)) ''stats_error'' = map_option (\<lambda>e. AStr (error_text e)) (res_StatsErr res)"
  by (simp_all add: pass_line_def stats_attrs_def split: option.split)

lemma filter_all_or_none:
  "(\<And>f. P (g f) = b) \<Longrightarrow> filter P (map g fs) = (if b then map g fs else [])"
  by (induction fs) simp_all

lemma parked_lines:
  "filter (\<lambda>l. ll_level l = LevelError) (tl (pass_lines res usage)) =
     map (\<lambda>f. line LevelError ''outbox row parked as failed; a human has to look at it''
            [(''outbox_id'', AInt (OutboxID f)), (''event_id'', AStr (uuid_text (fail_EventID f))),
             (''reason'', AStr (Reason f))]) (res_Permanent res)"
  unfolding failure_line_def [symmetric] pass_lines_def
  by (simp add: filter_all_or_none [where b = True] filter_all_or_none [where b = False] split: option.split)

lemma transient_lines:
  "filter (\<lambda>l. ll_msg l = ''publish failed transiently; the row stays pending and will be retried'')
       (tl (pass_lines res usage)) =
     map (\<lambda>f. line LevelWarn ''publish failed transiently; the row stays pending and will be retried''
            [(''outbox_id'', AInt (OutboxID f)), (''event_id'', AStr (uuid_text (fail_EventID f))),
             (''reason'', AStr (Reason f))]) (res_Transient res)"
  unfolding failure_line_def [symmetric] pass_lines_def
  by (simp add: filter_all_or_none [where b = True] filter_all_or_none [where b = False] split: option.split)

lemma warning_lines:
  "(\<exists>l \<in> set (tl (pass_lines res usage)). ll_msg l = ''postgres notify queue is filling; NOTIFY can start failing commits'') \<longleftrightarrow>
     (\<exists>u. usage = Some u \<and> 1 / 4 < u)"
  "(\<exists>l \<in> set (tl (pass_lines res usage)). ll_msg l = ''outbox rows are past the attempt threshold and still retrying'') \<longleftrightarrow>
     0 < StuckRows (res_Stats res)"
  by (cases usage; auto simp: pass_lines_def notifyQueueWarnAt_def)+

text \<open>
  C26: The log of a pass.  \<open>logPass\<close> reads the notify queue's usage once and then writes, to a logger
  that keeps its lines, the pass line first: at level info exactly when rows were claimed, with the counts
  of the pass, and with the backlog exactly when the statistics could be read, the reason otherwise.
  Behind it there is one error line for every parked row and one warning for every transient failure,
  each with the row's ids and reason, in the order of the batch; and a warning exactly when the notify
  queue is more than a quarter full, and when rows are stuck.
\<close>

theorem pass_log_is_complete:
  assumes "\<And>l v. logged (rl_log r l v) = logged v @ [l]"
    and "(case rl_wake r of None \<Rightarrow> (None, w) | Some wk \<Rightarrow> Usage wk w) = (usage, w1)"
  shows "\<exists>first rest. logged (logPass r res w) = logged w1 @ first # rest \<and>
    ll_level first = (if res_Claimed res > 0 then LevelInfo else LevelDebug) \<and>
    map_of (ll_attrs first) ''claimed'' = Some (AInt (res_Claimed res)) \<and>
    map_of (ll_attrs first) ''published'' = Some (AInt (res_Published res)) \<and>
    map_of (ll_attrs first) ''transient_failures'' = Some (AInt (int (length (res_Transient res)))) \<and>
    map_of (ll_attrs first) ''permanent_failures'' = Some (AInt (int (length (res_Permanent res)))) \<and>
    map_of (ll_attrs first) ''backlog'' =
      (if res_StatsErr res = None then Some (AInt (Backlog (res_Stats res))) else None) \<and>
    map_of (ll_attrs first) ''stats_error'' = map_option (\<lambda>e. AStr (error_text e)) (res_StatsErr res) \<and>
    filter (\<lambda>l. ll_level l = LevelError) rest =
      map (\<lambda>f. line LevelError ''outbox row parked as failed; a human has to look at it''
             [(''outbox_id'', AInt (OutboxID f)), (''event_id'', AStr (uuid_text (fail_EventID f))),
              (''reason'', AStr (Reason f))]) (res_Permanent res) \<and>
    filter (\<lambda>l. ll_msg l = ''publish failed transiently; the row stays pending and will be retried'') rest =
      map (\<lambda>f. line LevelWarn ''publish failed transiently; the row stays pending and will be retried''
             [(''outbox_id'', AInt (OutboxID f)), (''event_id'', AStr (uuid_text (fail_EventID f))),
              (''reason'', AStr (Reason f))]) (res_Transient res) \<and>
    ((\<exists>l \<in> set rest. ll_msg l = ''postgres notify queue is filling; NOTIFY can start failing commits'') \<longleftrightarrow>
      (\<exists>u. usage = Some u \<and> 1 / 4 < u)) \<and>
    ((\<exists>l \<in> set rest. ll_msg l = ''outbox rows are past the attempt threshold and still retrying'') \<longleftrightarrow>
      0 < StuckRows (res_Stats res))"
proof -
  let ?rest = "tl (pass_lines res usage)"
  have fold: "logged (fold (rl_log r) ls v) = logged v @ ls" for ls v
    by (induction ls arbitrary: v) (simp_all add: assms(1))
  have all: "logged (logPass r res w) = logged w1 @ pass_line res usage # ?rest"
    using fold [of "pass_lines res usage" w1] assms(2) by (simp add: logPass_def pass_lines_def)
  note head = pass_line_level [of res usage] pass_line_attrs [of res usage]
    and tail = parked_lines [of res usage] transient_lines [of res usage] warning_lines [of res usage]
  show ?thesis by (intro exI conjI) (rule all head tail)+
qed

text \<open>The witness: a pass that parked one row and could not read the statistics.\<close>

definition list_worker :: "log_line list RelayWorker" where
  "list_worker =
     \<lparr>rl_publish = (\<lambda>w. ((empty_result, None), w)),
      rl_wake = Some \<lparr>Wait = (\<lambda>d w. ((False, None), w)), Usage = (\<lambda>w. (Some (1 / 2), w))\<rparr>,
      rl_jitter = (\<lambda>w. (1, w)), rl_policy = sample_policy,
      rl_ctx_done = (\<lambda>w. (False, w)), rl_pass_done = (\<lambda>w. (False, w)), rl_sleep = (\<lambda>d w. w),
      rl_log = (\<lambda>l w. w @ [l])\<rparr>"

definition parked_result :: PublishResult where
  "parked_result = empty_result\<lparr>res_Claimed := 1, res_StatsErr := Some (Ext ''down''),
     res_Permanent := [\<lparr>OutboxID = 7, fail_EventID = UUID ''e'', Reason = ''too large''\<rparr>]\<rparr>"

lemma pass_log_is_complete_witness:
  "\<exists>first rest. logPass list_worker parked_result [] = first # rest \<and> ll_level first = LevelInfo \<and>
     map_of (ll_attrs first) ''stats_error'' = Some (AStr ''down'') \<and>
     filter (\<lambda>l. ll_level l = LevelError) rest =
       [line LevelError ''outbox row parked as failed; a human has to look at it''
          [(''outbox_id'', AInt 7), (''event_id'', AStr ''e''), (''reason'', AStr ''too large'')]]"
proof -
  have "(case rl_wake list_worker of None \<Rightarrow> (None, []) | Some wk \<Rightarrow> Usage wk []) = (Some (1 / 2), [])"
    by (simp add: list_worker_def)
  from pass_log_is_complete [where logged = "\<lambda>w. w" and r = list_worker and res = parked_result, OF _ this]
  show ?thesis by (auto simp: list_worker_def parked_result_def empty_result_def)
qed

subsection \<open>The loop stops\<close>

text \<open>
  The contract of what the loop drives: time, counted by \<open>now\<close>, does not go back, a pass takes time,
  the context is done from \<open>stop\<close> on, and every operation keeps the relation \<open>I\<close>.
\<close>

definition forward :: "('w \<Rightarrow> nat) \<Rightarrow> ('w \<Rightarrow> 'w \<Rightarrow> bool) \<Rightarrow> 'w \<Rightarrow> 'w \<Rightarrow> bool" where
  "forward now I w w' \<longleftrightarrow> now w \<le> now w' \<and> I w w'"

locale stopping_worker =
  fixes r :: "'w RelayWorker" and now :: "'w \<Rightarrow> nat" and stop :: nat and I :: "'w \<Rightarrow> 'w \<Rightarrow> bool"
  assumes ctx: "rl_ctx_done r w = (b, w') \<Longrightarrow> w' = w \<and> b = (stop \<le> now w)"
    and pass_ctx: "rl_pass_done r w = (b, w') \<Longrightarrow> w' = w"
    and publish: "rl_publish r w = (x, w') \<Longrightarrow> now w < now w' \<and> I w w'"
    and jitter: "rl_jitter r w = (j, w') \<Longrightarrow> forward now I w w'"
    and waits: "rl_wake r = Some wk \<Longrightarrow> Wait wk d w = (y, w') \<Longrightarrow> forward now I w w'"
    and usage: "rl_wake r = Some wk \<Longrightarrow> Usage wk w = (q, w') \<Longrightarrow> forward now I w w'"
    and sleep: "forward now I w (rl_sleep r d w)"
    and log: "forward now I w (rl_log r l w)"
    and refl: "I w w" and trans: "I u v \<Longrightarrow> I v w \<Longrightarrow> I u w"
begin

lemma fwd_refl: "forward now I w w"
  by (simp add: forward_def refl)

lemma fwd_trans: "forward now I u v \<Longrightarrow> forward now I v w \<Longrightarrow> forward now I u w"
  by (auto simp: forward_def intro: trans)

lemma wait_fwd:
  assumes "wait r d idle w = (idle', w')"
  shows "forward now I w w'"
proof (cases "d \<le> 0")
  case False
  obtain j w1 where j: "rl_jitter r w = (j, w1)" by (metis prod.exhaust)
  show ?thesis
  proof (cases "rl_wake r")
    case None
    with assms False j show ?thesis
      using fwd_trans [OF jitter [OF j] sleep] by (auto simp: wait_def)
  next
    case (Some wk)
    obtain b e w2 where w: "Wait wk (jittered d j) w1 = ((b, e), w2)" by (metis prod.exhaust)
    let ?l = "line LevelWarn ''outbox wakeup unavailable; polling instead'' [(''error'', AErr (the e))]"
    from assms False j Some w have "w' = w2 \<or> w' = rl_sleep r (jittered d j) (rl_log r ?l w2)"
      by (cases e) (auto simp: wait_def)
    moreover have w2: "forward now I w w2" by (rule fwd_trans [OF jitter [OF j] waits [OF Some w]])
    moreover have "forward now I w2 (rl_sleep r (jittered d j) (rl_log r ?l w2))"
      by (rule fwd_trans [OF log sleep])
    ultimately show ?thesis using fwd_trans by blast
  qed
qed (use assms fwd_refl in \<open>simp add: wait_def\<close>)

lemma fold_log_fwd: "forward now I w (fold (rl_log r) ls w)"
  by (induction ls arbitrary: w) (auto intro: fwd_refl fwd_trans [OF log])

lemma logPass_fwd: "forward now I w (logPass r res w)"
proof (cases "rl_wake r")
  case (Some wk)
  obtain u v where u: "Usage wk w = (u, v)" by (metis prod.exhaust)
  from fwd_trans [OF usage [OF Some u] fold_log_fwd] Some u show ?thesis by (simp add: logPass_def)
qed (simp add: logPass_def fold_log_fwd)

lemma stopping_fwd: "forward now I w (stopping r w)"
  using log by (auto simp: stopping_def dest: pass_ctx split: prod.split bool.split)

lemma body:
  "(case run_body r idle w of
      Inl (err, w') \<Rightarrow> err = None \<and> I w w'
    | Inr (idle', w') \<Rightarrow> now w < stop \<and> now w < now w' \<and> I w w')"
proof -
  obtain c where c: "rl_ctx_done r w = (c, w)" using ctx by (metis prod.exhaust)
  obtain res err w2 where p: "rl_publish r w = ((res, err), w2)" by (metis prod.exhaust)
  note pt = publish [OF p]
  show ?thesis
  proof (cases c)
    case True
    with c stopping_fwd [of w] show ?thesis by (simp add: run_body_def forward_def)
  next
    case False
    with ctx [OF c] have lt: "now w < stop" by simp
    have after: "now w < now w' \<and> I w w'" if "forward now I w2 w'" for w'
      using pt that by (auto simp: forward_def intro: trans)
    show ?thesis
    proof (cases err)
      case None
      obtain d i where d: "nextWait (rl_policy r) res idle = (d, i)" by (metis prod.exhaust)
      obtain i' w' where w: "wait r d i (logPass r res w2) = (i', w')" by (metis prod.exhaust)
      from after [OF fwd_trans [OF logPass_fwd wait_fwd [OF w]]] None False c p d w lt
      show ?thesis by (simp add: run_body_def)
    next
      case (Some e)
      let ?l = "rl_log r (failed_pass_line res e) w2"
      obtain c2 where c2: "rl_ctx_done r ?l = (c2, ?l)" using ctx by (metis prod.exhaust)
      obtain i' w' where w: "wait r (IdleMax (rl_policy r)) idle ?l = (i', w')" by (metis prod.exhaust)
      note after [OF fwd_trans [OF log wait_fwd [OF w]]] after [OF fwd_trans [OF log stopping_fwd]]
      then show ?thesis using Some False c p c2 w lt by (cases c2) (simp_all add: run_body_def)
    qed
  qed
qed

lemma loop_stops: "\<exists>w'. run_loop r idle w = Some (None, w') \<and> I w w'"
proof (induction "stop - now w" arbitrary: idle w rule: less_induct)
  case less
  show ?case
  proof (cases "run_body r idle w")
    case (Inl x)
    with body [where idle = idle and w = w] show ?thesis by (cases x) (simp add: run_loop.simps [of r idle w])
  next
    case (Inr x)
    obtain idle' v where x: "x = (idle', v)" by (cases x)
    with Inr body [where idle = idle and w = w] have v: "now w < stop" "now w < now v" "I w v" by simp_all
    then have "stop - now v < stop - now w" by linarith
    from less [OF this, of idle'] obtain w' where "run_loop r idle' v = Some (None, w')" "I v w'" by blast
    with v Inr x show ?thesis by (auto simp: run_loop.simps [of r idle w] intro: trans)
  qed
qed

lemma Run_stops: "\<exists>w'. Run r w = Some (None, w') \<and> I w w'"
proof -
  let ?s = "line LevelInfo ''relay started''
    [(''idle_min'', ADur (IdleMin (rl_policy r))), (''idle_max'', ADur (IdleMax (rl_policy r))),
     (''drain_grace'', ADur (DrainGrace (rl_policy r))), (''wakeup'', ABool (rl_wake r \<noteq> None))]"
  have "I w (rl_log r ?s w)" using log [of w ?s] by (simp add: forward_def)
  with loop_stops [of "NewRelay_idle (rl_policy r)" "rl_log r ?s w"] show ?thesis
    unfolding Run_def by (blast intro: trans)
qed

end

end
