(* ===== verification/Drain.thy ===== *)
theory Drain
  imports RelayLoop
begin

text \<open>
  The two contexts of a graceful shutdown, \<open>draining\<close> in
  \<open>internal/accounts/presentation/worker/relay.go\<close>.  \<open>ctx\<close> ends when the process is told to
  stop; \<open>pass\<close> is cancelled by the grace timer that the callback on \<open>ctx\<close> starts, or by \<open>Run\<close>
  on its way out.  The callbacks run on goroutines of their own, so their steps interleave freely
  with time, with the end of \<open>ctx\<close> and with \<open>Run\<close>'s return.
\<close>

record drain_state =
  dr_now :: time
  dr_ctx :: "time option"
  dr_registered :: bool
  dr_timer :: "time option"
  dr_watch :: bool
  dr_pass_done :: bool
  dr_returning :: bool

text \<open>
  \<open>draining\<close> itself: a pass context of its own, one callback registered on \<open>ctx\<close>.  If \<open>ctx\<close> has
  ended already, the callback is started at once, like any other.
\<close>

definition draining :: "time \<Rightarrow> time option \<Rightarrow> drain_state" where
  "draining now ctx =
     \<lparr>dr_now = now, dr_ctx = ctx, dr_registered = True, dr_timer = None, dr_watch = False,
      dr_pass_done = False, dr_returning = False\<rparr>"

text \<open>
  \<open>callback\<close> is the function passed to \<open>AfterFunc\<close>: it starts the grace timer and registers the
  clean-up on \<open>pass\<close>.  \<open>expire\<close> is the timer's call of \<open>abandon\<close>, \<open>clean\<close> the clean-up.  The
  returned function is \<open>unregister\<close> (\<open>stop()\<close>) followed by \<open>abandon\<close>.
\<close>

inductive drain_step :: "duration \<Rightarrow> drain_state \<Rightarrow> drain_state \<Rightarrow> bool" for grace where
  time: "dr_now d \<le> t \<Longrightarrow> drain_step grace d (d\<lparr>dr_now := t\<rparr>)"
| ctx_ends: "dr_ctx d = None \<Longrightarrow> drain_step grace d (d\<lparr>dr_ctx := Some (dr_now d)\<rparr>)"
| callback: "dr_ctx d \<noteq> None \<Longrightarrow> dr_registered d \<Longrightarrow>
    drain_step grace d (d\<lparr>dr_registered := False, dr_timer := Some (dr_now d + grace), dr_watch := True\<rparr>)"
| expire: "dr_timer d = Some t \<Longrightarrow> t \<le> dr_now d \<Longrightarrow>
    drain_step grace d (d\<lparr>dr_timer := None, dr_pass_done := True\<rparr>)"
| clean: "dr_watch d \<Longrightarrow> dr_pass_done d \<Longrightarrow>
    drain_step grace d (d\<lparr>dr_watch := False, dr_timer := None\<rparr>)"
| unregister: "\<not> dr_returning d \<Longrightarrow>
    drain_step grace d (d\<lparr>dr_registered := False, dr_returning := True\<rparr>)"
| abandon: "dr_returning d \<Longrightarrow> drain_step grace d (d\<lparr>dr_pass_done := True\<rparr>)"

inductive_cases drain_stepE: "drain_step grace d d'"

definition drain_inv :: "duration \<Rightarrow> drain_state \<Rightarrow> bool" where
  "drain_inv grace d \<longleftrightarrow>
     (case dr_ctx d of
        None \<Rightarrow> dr_timer d = None \<and> \<not> dr_watch d \<and> (dr_pass_done d \<longrightarrow> dr_returning d) \<and>
          (\<not> dr_registered d \<longrightarrow> dr_returning d)
      | Some c \<Rightarrow> c \<le> dr_now d \<and>
          (\<forall>t. dr_timer d = Some t \<longrightarrow> c + grace \<le> t \<and> t \<le> dr_now d + grace) \<and>
          (dr_pass_done d \<longrightarrow> dr_returning d \<or> c + grace \<le> dr_now d) \<and>
          (dr_registered d \<longrightarrow> dr_timer d = None) \<and>
          (\<not> dr_registered d \<and> \<not> dr_returning d \<and> \<not> dr_pass_done d \<longrightarrow> dr_timer d \<noteq> None))"

lemma drain_inv_start: "(\<And>c. ctx = Some c \<Longrightarrow> c \<le> now) \<Longrightarrow> drain_inv grace (draining now ctx)"
  by (auto simp: drain_inv_def draining_def split: option.split)

lemma drain_inv_step: "drain_step grace d d' \<Longrightarrow> drain_inv grace d \<Longrightarrow> drain_inv grace d'"
  by (erule drain_stepE) (auto simp: drain_inv_def split: option.splits)

lemma drain_inv_reachable:
  "(drain_step grace)\<^sup>*\<^sup>* (draining now ctx) d \<Longrightarrow> (\<And>c. ctx = Some c \<Longrightarrow> c \<le> now) \<Longrightarrow> drain_inv grace d"
  by (induction rule: rtranclp_induct) (auto intro: drain_inv_start drain_inv_step)

text \<open>When nothing else happens, the timer of a pass in flight runs to its end.\<close>

lemma timer_expires:
  assumes "dr_timer d = Some t"
  shows "(drain_step grace)\<^sup>*\<^sup>* d (d\<lparr>dr_now := max t (dr_now d), dr_timer := None, dr_pass_done := True\<rparr>)"
proof -
  let ?d = "d\<lparr>dr_now := max t (dr_now d)\<rparr>"
  have "drain_step grace d ?d" by (rule time) simp
  moreover have "drain_step grace ?d (?d\<lparr>dr_timer := None, dr_pass_done := True\<rparr>)"
    using assms by (intro expire [where t = t]) simp_all
  ultimately show ?thesis by (metis (no_types, lifting) converse_rtranclp_into_rtranclp r_into_rtranclp drain_state.surjective drain_state.update_convs)
qed

text \<open>
  C33: The drain grace.  However the callbacks, the timer, the signal and \<open>Run\<close> interleave, a pass
  whose context is cancelled while \<open>Run\<close> has not returned had the whole grace: the process was told
  to stop, and \<open>DrainGrace\<close> has passed since.  And the grace is bounded: once the process was told to
  stop, and as long as \<open>Run\<close> does not return first, steps of the runtime alone cancel the pass at the
  latest \<open>DrainGrace\<close> from now.
\<close>

theorem pass_gets_the_grace:
  assumes "(drain_step grace)\<^sup>*\<^sup>* (draining now ctx) d"
    and "\<And>c. ctx = Some c \<Longrightarrow> c \<le> now" and "\<not> dr_returning d"
  shows "(dr_pass_done d \<longrightarrow> (\<exists>c. dr_ctx d = Some c \<and> c + grace \<le> dr_now d)) \<and>
    (dr_ctx d \<noteq> None \<longrightarrow> (\<exists>d'. (drain_step grace)\<^sup>*\<^sup>* d d' \<and> dr_pass_done d' \<and>
       \<not> dr_returning d' \<and> dr_now d' \<le> max (dr_now d) (dr_now d + grace)))"
proof -
  note inv = drain_inv_reachable [OF assms(1,2)]
  have "\<exists>d'. (drain_step grace)\<^sup>*\<^sup>* d d' \<and> dr_pass_done d' \<and> \<not> dr_returning d' \<and>
      dr_now d' \<le> max (dr_now d) (dr_now d + grace)" if ctx: "dr_ctx d \<noteq> None"
  proof (cases "dr_pass_done d")
    case True
    then show ?thesis using assms(3) by auto
  next
    case False
    show ?thesis
    proof (cases "dr_registered d")
      case True
      let ?d = "d\<lparr>dr_registered := False, dr_timer := Some (dr_now d + grace), dr_watch := True\<rparr>"
      have "drain_step grace d ?d" using ctx True by (rule callback)
      moreover note timer_expires [of ?d "dr_now d + grace" grace]
      ultimately show ?thesis using assms(3)
        by (intro exI conjI) (rule converse_rtranclp_into_rtranclp, assumption, simp, simp_all)
    next
      case False
      with inv ctx assms(3) \<open>\<not> dr_pass_done d\<close> obtain t where "dr_timer d = Some t" "t \<le> dr_now d + grace"
        by (auto simp: drain_inv_def)
      with timer_expires [of d t grace] assms(3) show ?thesis
        by (intro exI [of _ "d\<lparr>dr_now := max t (dr_now d), dr_timer := None, dr_pass_done := True\<rparr>"]) auto
    qed
  qed
  moreover have "\<exists>c. dr_ctx d = Some c \<and> c + grace \<le> dr_now d" if "dr_pass_done d"
    using inv that assms(3) by (auto simp: drain_inv_def split: option.splits)
  ultimately show ?thesis by blast
qed

lemma pass_gets_the_grace_witness:
  "\<exists>d. (drain_step 15)\<^sup>*\<^sup>* (draining 0 None) d \<and> dr_pass_done d \<and> (\<exists>c. dr_ctx d = Some c \<and> c + 15 \<le> dr_now d)"
proof -
  let ?d0 = "draining 0 None"
  let ?d1 = "?d0\<lparr>dr_ctx := Some 0\<rparr>"
  have "drain_step 15 ?d0 (?d0\<lparr>dr_ctx := Some (dr_now ?d0)\<rparr>)" by (rule ctx_ends) (simp add: draining_def)
  then have s1: "(drain_step 15)\<^sup>*\<^sup>* ?d0 ?d1" by (simp add: draining_def r_into_rtranclp)
  have r: "\<not> dr_returning ?d1" "dr_ctx ?d1 \<noteq> None" by (simp_all add: draining_def)
  from pass_gets_the_grace [OF s1 _ r(1)] r(2) obtain d' where
    d: "(drain_step 15)\<^sup>*\<^sup>* ?d1 d'" "dr_pass_done d'" "\<not> dr_returning d'" by blast
  with s1 have s2: "(drain_step 15)\<^sup>*\<^sup>* ?d0 d'" by (simp add: rtranclp_trans)
  from pass_gets_the_grace [OF s2 _ d(3)] d(2) s2 show ?thesis by blast
qed

end
