(* ===== verification/GoParse.thy ===== *)
theory GoParse
  imports GoErrors GoText Float64
begin

text \<open>
  The parsers of the standard library that the configuration hands its variables to:
  \<open>strconv.Atoi\<close>, \<open>strconv.ParseBool\<close>, \<open>time.ParseDuration\<close> and the level parser of
  \<open>log/slog\<close>, and the printing of a \<open>Duration\<close>.  An \<open>int\<close> has 64 bits.
\<close>

subsection \<open>\<open>strconv\<close>\<close>

definition digit :: "char \<Rightarrow> bool" where
  "digit c \<longleftrightarrow> 48 \<le> byte c \<and> byte c \<le> 57"

definition digit_value :: "char \<Rightarrow> int" where
  "digit_value c = int (byte c) - 48"

definition ErrSyntax :: gerr where "ErrSyntax = New ''invalid syntax''"
definition ErrRange :: gerr where "ErrRange = New ''value out of range''"

definition NumError :: "string \<Rightarrow> string \<Rightarrow> gerr \<Rightarrow> gerr" where
  "NumError f num err = Errorf (''strconv.'' @ f @ '': parsing '' @ fmt_q num @ '': '' @ error_text err) [err]"

text \<open>The digit loop of \<open>ParseUint\<close>: the first bad byte or the first overflow ends it.\<close>

fun uint_digits :: "int \<Rightarrow> string \<Rightarrow> gerr + int" where
  "uint_digits n [] = Inr n"
| "uint_digits n (c # cs) =
     (if \<not> digit c then Inl ErrSyntax
      else if n * 10 + digit_value c \<ge> 2 ^ 64 then Inl ErrRange
      else uint_digits (n * 10 + digit_value c) cs)"

definition split_sign :: "string \<Rightarrow> bool \<times> string" where
  "split_sign s =
     (case s of [] \<Rightarrow> (False, [])
      | c # cs \<Rightarrow> if c = CHR ''-'' then (True, cs) else if c = CHR ''+'' then (False, cs) else (False, s))"

definition Atoi :: "string \<Rightarrow> gerr + int" where
  "Atoi s =
     (let (neg, ds) = split_sign s
      in if ds = [] then Inl (NumError ''Atoi'' s ErrSyntax)
         else (case uint_digits 0 ds of
             Inl err \<Rightarrow> Inl (NumError ''Atoi'' s err)
           | Inr n \<Rightarrow>
               (let v = if neg then - n else n
                in if in_i64 v then Inr v else Inl (NumError ''Atoi'' s ErrRange))))"

definition ParseBool :: "string \<Rightarrow> gerr + bool" where
  "ParseBool s =
     (if s \<in> {''1'', ''t'', ''T'', ''true'', ''TRUE'', ''True''} then Inr True
      else if s \<in> {''0'', ''f'', ''F'', ''false'', ''FALSE'', ''False''} then Inr False
      else Inl (NumError ''ParseBool'' s ErrSyntax))"

subsection \<open>Durations\<close>

definition time_quote :: "string \<Rightarrow> string" where
  "time_quote s = CHR 0x22 # concat (map (\<lambda>c.
     if byte c \<ge> 128 \<or> byte c < 32 then [CHR 0x5C, CHR ''x'', hex_digit (byte c div 16), hex_digit (byte c mod 16)]
     else if c = CHR 0x22 \<or> c = CHR 0x5C then [CHR 0x5C, c] else [c]) s) @ [CHR 0x22]"

definition unit_ns :: "string \<Rightarrow> int option" where
  "unit_ns u =
     (if u = ''ns'' then Some 1
      else if u \<in> {''us'', [CHR 0xC2, CHR 0xB5, CHR ''s''], [CHR 0xCE, CHR 0xBC, CHR ''s'']} then Some 1000
      else if u = ''ms'' then Some 1000000
      else if u = ''s'' then Some 1000000000
      else if u = ''m'' then Some 60000000000
      else if u = ''h'' then Some 3600000000000
      else None)"

fun leadingInt :: "int \<Rightarrow> string \<Rightarrow> (int \<times> string) option" where
  "leadingInt x [] = Some (x, [])"
| "leadingInt x (c # cs) =
     (if \<not> digit c then Some (x, c # cs)
      else if x > 2 ^ 63 div 10 then None
      else if x * 10 + digit_value c > 2 ^ 63 then None
      else leadingInt (x * 10 + digit_value c) cs)"

text \<open>Digits that no longer fit are read and ignored.\<close>

fun leadingFraction :: "int \<Rightarrow> rat \<Rightarrow> bool \<Rightarrow> string \<Rightarrow> int \<times> rat \<times> string" where
  "leadingFraction x scale full [] = (x, scale, [])"
| "leadingFraction x scale full (c # cs) =
     (if \<not> digit c then (x, scale, c # cs)
      else if full \<or> x > (2 ^ 63 - 1) div 10 \<or> x * 10 + digit_value c > 2 ^ 63
        then leadingFraction x scale True cs
      else leadingFraction (x * 10 + digit_value c) (f_mul scale 10) False cs)"

definition invalid_duration :: "string \<Rightarrow> gerr" where
  "invalid_duration orig = New (''time: invalid duration '' @ time_quote orig)"

definition in_number :: "char \<Rightarrow> bool" where
  "in_number c \<longleftrightarrow> c = CHR ''.'' \<or> digit c"

text \<open>One component \<open>[0-9]*(\.[0-9]*)?[a-z]+\<close>: its nanoseconds and the rest.\<close>

definition duration_part :: "string \<Rightarrow> string \<Rightarrow> gerr + int \<times> string" where
  "duration_part orig s =
     (if \<not> (s \<noteq> [] \<and> in_number (hd s)) then Inl (invalid_duration orig)
      else (case leadingInt 0 s of
          None \<Rightarrow> Inl (invalid_duration orig)
        | Some (v, s1) \<Rightarrow>
            (let pre = length s1 \<noteq> length s;
                 dot = s1 \<noteq> [] \<and> hd s1 = CHR ''.'';
                 s2 = if dot then tl s1 else s1;
                 (f, scale, s3) = if dot then leadingFraction 0 1 False s2 else (0, 1, s1);
                 post = dot \<and> length s3 \<noteq> length s2;
                 u = takeWhile (\<lambda>c. \<not> in_number c) s3;
                 s4 = dropWhile (\<lambda>c. \<not> in_number c) s3
             in if \<not> pre \<and> \<not> post then Inl (invalid_duration orig)
                else if u = [] then Inl (New (''time: missing unit in duration '' @ time_quote orig))
                else (case unit_ns u of
                    None \<Rightarrow> Inl (New (''time: unknown unit '' @ time_quote u @ '' in duration '' @ time_quote orig))
                  | Some k \<Rightarrow>
                      if v > 2 ^ 63 div k then Inl (invalid_duration orig)
                      else (let n = v * k + (if f > 0
                                  then \<lfloor>f_mul (f_of_int f) (f_div (f_of_int k) scale)\<rfloor> else 0)
                            in if n > 2 ^ 63 then Inl (invalid_duration orig) else Inr (n, s4))))))"

lemma leadingInt_length: "leadingInt x s = Some (v, s') \<Longrightarrow> length s' \<le> length s"
  by (induction x s rule: leadingInt.induct) (force split: if_splits)+

lemma leadingFraction_length: "leadingFraction x k b s = (v, k', s') \<Longrightarrow> length s' \<le> length s"
  by (induction x k b s rule: leadingFraction.induct) (force split: if_splits)+

lemma duration_part_shorter:
  assumes "duration_part orig s = Inr (n, s')"
  shows "length s' < length s"
proof -
  have shrink: "takeWhile P xs \<noteq> [] \<Longrightarrow> length (dropWhile P xs) < length xs" for P :: "char \<Rightarrow> bool" and xs
    by (cases xs) (auto simp: less_Suc_eq_le length_dropWhile_le split: if_splits)
  from assms obtain v s1 where l: "leadingInt 0 s = Some (v, s1)"
    by (auto simp: duration_part_def split: if_splits option.splits)
  obtain f scale s3 where f: "leadingFraction 0 1 False (tl s1) = (f, scale, s3)" by (metis prod_cases3)
  have "length s3 \<le> length s1" using leadingFraction_length [OF f] by simp
  with assms l f shrink [of "\<lambda>c. \<not> in_number c"] leadingInt_length [OF l] show ?thesis
    by (fastforce simp: duration_part_def Let_def split: if_splits option.splits prod.splits)
qed

function duration_parts :: "string \<Rightarrow> int \<Rightarrow> string \<Rightarrow> gerr + int" where
  "duration_parts orig d s =
     (if s = [] then Inr d
      else (case duration_part orig s of
          Inl err \<Rightarrow> Inl err
        | Inr (n, s') \<Rightarrow>
            if d + n > 2 ^ 63 then Inl (invalid_duration orig) else duration_parts orig (d + n) s'))"
  by auto
termination
  by (relation "measure (\<lambda>(orig, d, s). length s)") (auto dest: duration_part_shorter)

declare duration_parts.simps [simp del]

definition ParseDuration :: "string \<Rightarrow> gerr + duration" where
  "ParseDuration orig =
     (let (neg, s) = split_sign orig
      in if s = ''0'' then Inr 0
         else if s = [] then Inl (invalid_duration orig)
         else (case duration_parts orig 0 s of
             Inl err \<Rightarrow> Inl err
           | Inr d \<Rightarrow>
               if neg then Inr (- d)
               else if d > 2 ^ 63 - 1 then Inl (invalid_duration orig) else Inr d))"

text \<open>\<open>Duration.String\<close>, which the \<open>%v\<close> verb prints.\<close>

definition frac_text :: "nat \<Rightarrow> nat \<Rightarrow> string" where
  "frac_text prec u =
     (let ds = dec_digits (u mod 10 ^ prec);
          ds = replicate (prec - length ds) CHR ''0'' @ ds;
          ds = rev (dropWhile (\<lambda>c. c = CHR ''0'') (rev ds))
      in if ds = [] then [] else CHR ''.'' # ds)"

definition Duration_String :: "duration \<Rightarrow> string" where
  "Duration_String d =
     (let u = nat \<bar>d\<bar>;
          txt = (if u = 0 then ''0s''
            else if u < 1000 then dec_digits u @ ''ns''
            else if u < 1000000 then dec_digits (u div 1000) @ frac_text 3 u @ [CHR 0xC2, CHR 0xB5, CHR ''s'']
            else if u < 1000000000 then dec_digits (u div 1000000) @ frac_text 6 u @ ''ms''
            else (let secs = u div 1000000000; mins = secs div 60
                  in (if mins div 60 > 0 then dec_digits (mins div 60) @ ''h'' else []) @
                     (if mins > 0 then dec_digits (mins mod 60) @ ''m'' else []) @
                     dec_digits (secs mod 60) @ frac_text 9 u @ ''s''))
      in if d < 0 then CHR ''-'' # txt else txt)"

subsection \<open>Levels\<close>

text \<open>
  \<open>slog.Level\<close> is an \<open>int\<close>; \<open>UnmarshalText\<close> takes a name in any case and an offset.
  \<open>strings.ToUpper\<close> on text beyond ASCII maps runes through the Unicode case tables, the
  argument \<open>upr\<close>.
\<close>

definition upper_char :: "char \<Rightarrow> char" where
  "upper_char c = (if 97 \<le> byte c \<and> byte c \<le> 122 then char_of (byte c - 32) else c)"

definition ToUpper :: "(string \<Rightarrow> string) \<Rightarrow> string \<Rightarrow> string" where
  "ToUpper upr s = (if list_all ascii s then map upper_char s else upr s)"

definition level_number :: "string \<Rightarrow> int option" where
  "level_number name =
     (if name = ''DEBUG'' then Some (- 4) else if name = ''INFO'' then Some 0
      else if name = ''WARN'' then Some 4 else if name = ''ERROR'' then Some 8 else None)"

definition Level_parse :: "(string \<Rightarrow> string) \<Rightarrow> string \<Rightarrow> gerr + int" where
  "Level_parse upr s =
     (let sign = (\<lambda>c. c = CHR ''+'' \<or> c = CHR ''-'');
          bad = (\<lambda>err. Inl (wrapf (''slog: level string '' @ fmt_q s) err));
          name = takeWhile (\<lambda>c. \<not> sign c) s; off = dropWhile (\<lambda>c. \<not> sign c) s
      in case (if off = [] then Inr 0 else Atoi off) of
           Inl err \<Rightarrow> bad err
         | Inr offset \<Rightarrow>
             (case level_number (ToUpper upr name) of
                None \<Rightarrow> bad (New ''unknown name'')
              | Some l \<Rightarrow> Inr (i64 (l + offset))))"

subsection \<open>Ranges and round trips\<close>

lemma Atoi_range: "Atoi s = Inr v \<Longrightarrow> in_i64 v"
  by (auto simp: Atoi_def Let_def split: prod.splits if_splits sum.splits)

lemma uint_digits_nonneg: "uint_digits n s = Inr v \<Longrightarrow> 0 \<le> n \<Longrightarrow> 0 \<le> v"
  by (induction n s rule: uint_digits.induct) (auto simp: digit_def digit_value_def split: if_splits)

lemma duration_parts_range:
  "duration_parts orig d s = Inr v \<Longrightarrow> d \<le> 2 ^ 63 \<Longrightarrow> v \<le> 2 ^ 63"
proof (induction orig d s rule: duration_parts.induct)
  case (1 orig d s)
  from "1.prems" show ?case
    by (subst (asm) duration_parts.simps) (auto split: if_splits sum.splits prod.splits dest: "1.IH")
qed

lemma dec_digits_nonempty: "dec_digits n \<noteq> []"
  by (subst dec_digits.simps) simp

lemma dec_digits_digit: "c \<in> set (dec_digits n) \<Longrightarrow> digit c"
proof (induction n rule: dec_digits.induct)
  case (1 n)
  show ?case
  proof (cases "n < 10")
    case True
    with "1.prems" show ?thesis by (simp add: dec_digits.simps [of n] digit_def)
  next
    case False
    with "1.prems" have "c \<in> set (dec_digits (n div 10)) \<or> c = char_of (n mod 10 + 48)"
      by (auto simp: dec_digits.simps [of n])
    with "1.IH" [OF False] show ?thesis by (auto simp: digit_def)
  qed
qed

text \<open>The digit loop reads back what \<open>strconv.Itoa\<close> printed.\<close>

lemma uint_digits_append:
  "uint_digits n (xs @ [c]) =
     (case uint_digits n xs of Inl e \<Rightarrow> Inl e
      | Inr v \<Rightarrow> if \<not> digit c then Inl ErrSyntax
                 else if v * 10 + digit_value c \<ge> 2 ^ 64 then Inl ErrRange else Inr (v * 10 + digit_value c))"
  by (induction n xs rule: uint_digits.induct) auto

lemma uint_digits_dec: "int n < 2 ^ 64 \<Longrightarrow> uint_digits 0 (dec_digits n) = Inr (int n)"
proof (induction n rule: dec_digits.induct)
  case (1 n)
  show ?case
  proof (cases "n < 10")
    case True
    then show ?thesis by (subst dec_digits.simps) (simp add: digit_def digit_value_def)
  next
    case False
    from "1.prems" have "int (n div 10) < 2 ^ 64" by simp
    note IH = "1.IH" [OF False this]
    have "int (n div 10) * 10 + int (n mod 10) = int n" by presburger
    with False IH "1.prems" show ?thesis
      by (subst dec_digits.simps) (simp add: uint_digits_append digit_def digit_value_def)
  qed
qed

lemma Atoi_Itoa: "in_i64 i \<Longrightarrow> Atoi (Itoa i) = Inr i"
proof -
  assume i: "in_i64 i"
  have sign: "split_sign (dec_digits n) = (False, dec_digits n)" for n
    using dec_digits_nonempty [of n] dec_digits_digit [of "hd (dec_digits n)" n]
    by (cases "dec_digits n") (auto simp: split_sign_def digit_def)
  show ?thesis
    using i uint_digits_dec [of "nat i"] uint_digits_dec [of "nat (- i)"] dec_digits_nonempty
    by (auto simp: Atoi_def Itoa_def sign) (auto simp: split_sign_def)
qed

text \<open>A duration and an offset level, read by the definitions.\<close>

lemma ParseDuration_example: "ParseDuration ''1m30s'' = Inr 90000000000"
  by code_simp

lemma Level_parse_example: "Level_parse upr ''info+2'' = Inr 2"
  by code_simp

end
