(* ===== verification/Config.thy ===== *)
theory Config
  imports GoParse
begin

text \<open>
  The configuration of the processes (\<open>internal/platform/config/config.go\<close>), loaded from the
  environment once at startup.  \<open>getenv\<close> is the argument of the \<open>Load\<close> functions, a pure
  function here as in the tests; an unset variable reads as the empty string.  \<open>upr\<close> is the
  Unicode upper-case mapping of \<open>slog\<close>'s level parser on text beyond ASCII.
\<close>

definition ErrMissing :: gerr where "ErrMissing = New ''config: required variable is empty''"
definition ErrInvalid :: gerr where "ErrInvalid = New ''config: invalid value''"

subsection \<open>Single variables\<close>

definition value_of :: "(string \<Rightarrow> string) \<Rightarrow> string \<Rightarrow> string \<Rightarrow> string" where
  "value_of getenv key fallback =
     (let v = TrimSpace (getenv key) in if v \<noteq> [] then v else fallback)"

definition required :: "string \<Rightarrow> string \<Rightarrow> gerr option" where
  "required key v =
     (if v = [] then Some (Errorf (error_text ErrMissing @ '': '' @ key) [ErrMissing]) else None)"

definition invalid_value :: "string \<Rightarrow> string \<Rightarrow> gerr \<Rightarrow> gerr" where
  "invalid_value key raw err =
     Errorf (error_text ErrInvalid @ '': '' @ key @ ''='' @ fmt_q raw @ '': '' @ error_text err) [ErrInvalid, err]"

definition logLevel :: "(string \<Rightarrow> string) \<Rightarrow> (string \<Rightarrow> string) \<Rightarrow> gerr + int" where
  "logLevel upr getenv =
     (let raw = value_of getenv ''LOG_LEVEL'' ''info''
      in case Level_parse upr raw of
           Inl err \<Rightarrow> Inl (invalid_value ''LOG_LEVEL'' raw err)
         | Inr level \<Rightarrow> Inr level)"

text \<open>\<open>list\<close> is named \<open>list_of\<close>, \<open>value\<close> \<open>value_of\<close>.\<close>

definition list_of :: "(string \<Rightarrow> string) \<Rightarrow> string \<Rightarrow> string \<Rightarrow> string list" where
  "list_of getenv key fallback =
     filter (\<lambda>part. part \<noteq> []) (map TrimSpace (Split (value_of getenv key fallback) CHR '',''))"

definition parsed ::
    "(string \<Rightarrow> string) \<Rightarrow> string \<Rightarrow> 'a \<Rightarrow> (string \<Rightarrow> gerr + 'a) \<Rightarrow> gerr + 'a" where
  "parsed getenv key fallback parse =
     (let raw = value_of getenv key []
      in if raw = [] then Inr fallback
         else (case parse raw of
             Inl err \<Rightarrow> Inl (invalid_value key raw err)
           | Inr v \<Rightarrow> Inr v))"

text \<open>\<open>positive\<close> for counts and durations, which print differently.\<close>

definition positive :: "(int \<Rightarrow> string) \<Rightarrow> string \<Rightarrow> int \<Rightarrow> gerr option" where
  "positive show_v key v =
     (if v \<le> 0
      then Some (Errorf (error_text ErrInvalid @ '': '' @ key @ ''='' @ show_v v @ '' must be positive'') [ErrInvalid])
      else None)"

subsection \<open>The API and the migration command\<close>

record API =
  api_AccountsDatabaseURL :: string
  api_HTTPAddr :: string
  api_AdminAddr :: string
  api_LogLevel :: int

record Migrate =
  mig_AccountsDatabaseURL :: string
  mig_NotificationsDatabaseURL :: string
  mig_LogLevel :: int

definition LoadAPI :: "(string \<Rightarrow> string) \<Rightarrow> (string \<Rightarrow> string) \<Rightarrow> gerr + API" where
  "LoadAPI upr getenv =
     (case logLevel upr getenv of
        Inl err \<Rightarrow> Inl err
      | Inr level \<Rightarrow>
          (let cfg = \<lparr>api_AccountsDatabaseURL = value_of getenv ''ACCOUNTS_DATABASE_URL'' [],
                      api_HTTPAddr = value_of getenv ''HTTP_ADDR'' '':8080'',
                      api_AdminAddr = value_of getenv ''ADMIN_ADDR'' ''127.0.0.1:8081'',
                      api_LogLevel = level\<rparr>
           in case required ''ACCOUNTS_DATABASE_URL'' (api_AccountsDatabaseURL cfg) of
                Some err \<Rightarrow> Inl err
              | None \<Rightarrow> Inr cfg))"

definition LoadMigrate :: "(string \<Rightarrow> string) \<Rightarrow> (string \<Rightarrow> string) \<Rightarrow> gerr + Migrate" where
  "LoadMigrate upr getenv =
     (case logLevel upr getenv of
        Inl err \<Rightarrow> Inl err
      | Inr level \<Rightarrow>
          (let cfg = \<lparr>mig_AccountsDatabaseURL = value_of getenv ''ACCOUNTS_DATABASE_URL'' [],
                      mig_NotificationsDatabaseURL = value_of getenv ''NOTIFICATIONS_DATABASE_URL'' [],
                      mig_LogLevel = level\<rparr>
           in case required ''ACCOUNTS_DATABASE_URL'' (mig_AccountsDatabaseURL cfg) of
                Some err \<Rightarrow> Inl err
              | None \<Rightarrow>
                  (case required ''NOTIFICATIONS_DATABASE_URL'' (mig_NotificationsDatabaseURL cfg) of
                     Some err \<Rightarrow> Inl err
                   | None \<Rightarrow> Inr cfg)))"

subsection \<open>The relay\<close>

record RelayConfig =
  cf_AccountsDatabaseURL :: string
  cf_KafkaBrokers :: "string list"
  cf_KafkaTopic :: string
  cf_AdminAddr :: string
  cf_LogLevel :: int
  cf_BatchSize :: int
  cf_IdleMin :: duration
  cf_IdleMax :: duration
  cf_BackoffBase :: duration
  cf_BackoffCap :: duration
  cf_MaxAttempts :: int
  cf_UseNotify :: bool
  cf_DrainGrace :: duration
  cf_PurgeInterval :: duration
  cf_OutboxRetention :: duration
  cf_PurgeBatch :: int

text \<open>A parse that failed leaves the zero value in the variable and one problem behind.\<close>

definition or_zero :: "'a \<Rightarrow> gerr + 'a \<Rightarrow> 'a" where
  "or_zero zero r = (case r of Inl _ \<Rightarrow> zero | Inr v \<Rightarrow> v)"

definition problem_of :: "gerr + 'a \<Rightarrow> gerr list" where
  "problem_of r = (case r of Inl err \<Rightarrow> [err] | Inr _ \<Rightarrow> [])"

definition problem :: "gerr option \<Rightarrow> gerr list" where
  "problem e = (case e of None \<Rightarrow> [] | Some err \<Rightarrow> [err])"

definition not_below ::
    "string \<Rightarrow> duration \<Rightarrow> string \<Rightarrow> duration \<Rightarrow> gerr list" where
  "not_below hi_key hi lo_key lo =
     (if lo > 0 \<and> hi > 0 \<and> hi < lo
      then [Errorf (error_text ErrInvalid @ '': '' @ hi_key @ ''='' @ Duration_String hi @
                    '' is below '' @ lo_key @ ''='' @ Duration_String lo) [ErrInvalid]]
      else [])"

text \<open>The checks behind the parses, on the configuration as it was assembled.\<close>

definition relay_problems :: "RelayConfig \<Rightarrow> gerr list" where
  "relay_problems cfg =
     problem (required ''ACCOUNTS_DATABASE_URL'' (cf_AccountsDatabaseURL cfg)) @
     (if cf_KafkaBrokers cfg = []
      then [Errorf (error_text ErrMissing @ '': KAFKA_BROKERS'') [ErrMissing]] else []) @
     problem (required ''KAFKA_TOPIC'' (cf_KafkaTopic cfg)) @
     problem (positive Itoa ''RELAY_BATCH_SIZE'' (cf_BatchSize cfg)) @
     problem (positive Itoa ''RELAY_MAX_ATTEMPTS'' (cf_MaxAttempts cfg)) @
     problem (positive Itoa ''PURGE_BATCH'' (cf_PurgeBatch cfg)) @
     problem (positive Duration_String ''RELAY_IDLE_MIN'' (cf_IdleMin cfg)) @
     problem (positive Duration_String ''RELAY_BACKOFF_BASE'' (cf_BackoffBase cfg)) @
     problem (positive Duration_String ''RELAY_DRAIN_GRACE'' (cf_DrainGrace cfg)) @
     problem (positive Duration_String ''PURGE_INTERVAL'' (cf_PurgeInterval cfg)) @
     problem (positive Duration_String ''OUTBOX_RETENTION'' (cf_OutboxRetention cfg)) @
     not_below ''RELAY_IDLE_MAX'' (cf_IdleMax cfg) ''RELAY_IDLE_MIN'' (cf_IdleMin cfg) @
     not_below ''RELAY_BACKOFF_CAP'' (cf_BackoffCap cfg) ''RELAY_BACKOFF_BASE'' (cf_BackoffBase cfg)"

definition LoadRelay :: "(string \<Rightarrow> string) \<Rightarrow> (string \<Rightarrow> string) \<Rightarrow> gerr + RelayConfig" where
  "LoadRelay upr getenv =
     (let level = logLevel upr getenv;
          batchSize = parsed getenv ''RELAY_BATCH_SIZE'' 100 Atoi;
          idleMin = parsed getenv ''RELAY_IDLE_MIN'' 50000000 ParseDuration;
          idleMax = parsed getenv ''RELAY_IDLE_MAX'' 2000000000 ParseDuration;
          backoffBase = parsed getenv ''RELAY_BACKOFF_BASE'' 1000000000 ParseDuration;
          backoffCap = parsed getenv ''RELAY_BACKOFF_CAP'' 300000000000 ParseDuration;
          maxAttempts = parsed getenv ''RELAY_MAX_ATTEMPTS'' 10 Atoi;
          useNotify = parsed getenv ''RELAY_USE_NOTIFY'' True ParseBool;
          drainGrace = parsed getenv ''RELAY_DRAIN_GRACE'' 15000000000 ParseDuration;
          purgeInterval = parsed getenv ''PURGE_INTERVAL'' 60000000000 ParseDuration;
          outboxRetention = parsed getenv ''OUTBOX_RETENTION'' 86400000000000 ParseDuration;
          purgeBatch = parsed getenv ''PURGE_BATCH'' 1000 Atoi;
          cfg = \<lparr>cf_AccountsDatabaseURL = value_of getenv ''ACCOUNTS_DATABASE_URL'' [],
                 cf_KafkaBrokers = list_of getenv ''KAFKA_BROKERS'' ''localhost:9092'',
                 cf_KafkaTopic = value_of getenv ''KAFKA_TOPIC'' ''accounts.user.v1'',
                 cf_AdminAddr = value_of getenv ''ADMIN_ADDR'' ''127.0.0.1:8082'',
                 cf_LogLevel = or_zero 0 level, cf_BatchSize = or_zero 0 batchSize,
                 cf_IdleMin = or_zero 0 idleMin, cf_IdleMax = or_zero 0 idleMax,
                 cf_BackoffBase = or_zero 0 backoffBase, cf_BackoffCap = or_zero 0 backoffCap,
                 cf_MaxAttempts = or_zero 0 maxAttempts, cf_UseNotify = or_zero False useNotify,
                 cf_DrainGrace = or_zero 0 drainGrace, cf_PurgeInterval = or_zero 0 purgeInterval,
                 cf_OutboxRetention = or_zero 0 outboxRetention, cf_PurgeBatch = or_zero 0 purgeBatch\<rparr>;
          problems = problem_of level @ problem_of batchSize @ problem_of idleMin @ problem_of idleMax @
            problem_of backoffBase @ problem_of backoffCap @ problem_of maxAttempts @
            problem_of useNotify @ problem_of drainGrace @ problem_of purgeInterval @
            problem_of outboxRetention @ problem_of purgeBatch @ relay_problems cfg
      in case errors_Join problems of
           Some err \<Rightarrow> Inl err
         | None \<Rightarrow> Inr cfg)"

end
