(* ===== verification/Migrations.thy ===== *)
theory Migrations
  imports Config Logging
begin

text \<open>
  The embedded migrations and the readiness rule, \<open>migrations/embed.go\<close>, and the migration command,
  \<open>cmd/migrate\<close>.  The embedded file system is the argument \<open>files\<close>, the file names in each
  directory; the library \<open>goose\<close> and \<open>database/sql\<close> are a record of operations on the world \<open>'w\<close>
  with database handles \<open>'d\<close>.
\<close>

subsection \<open>Contexts\<close>

definition Accounts :: string where "Accounts = ''accounts''"
definition Notifications :: string where "Notifications = ''notifications''"

definition ErrUnknownContext :: gerr where "ErrUnknownContext = New ''migrations: unknown context''"
definition ErrSchemaBehind :: gerr where
  "ErrSchemaBehind = New ''migrations: schema is behind the expected version''"

definition Contexts :: "string list" where "Contexts = [Accounts, Notifications]"

definition Parse :: "string \<Rightarrow> gerr + string" where
  "Parse name =
     (if name \<notin> set Contexts
      then Inl (Errorf (error_text ErrUnknownContext @ '': '' @ fmt_q name) [ErrUnknownContext])
      else Inr name)"

text \<open>The migrations of a context, as the names at the root of its file system.\<close>

definition FS :: "(string \<Rightarrow> string list) \<Rightarrow> string \<Rightarrow> gerr + string list" where
  "FS files c = (case Parse c of Inl err \<Rightarrow> Inl err | Inr dir \<Rightarrow> Inr (files dir))"

definition sql_files :: "string list \<Rightarrow> string list" where
  "sql_files names = filter (\<lambda>n. suffix ''.sql'' n) names"

definition Latest ::
    "(string \<Rightarrow> string list) \<Rightarrow> (string \<Rightarrow> gerr + int) \<Rightarrow> string \<Rightarrow> gerr + int" where
  "Latest files numeric c =
     (case FS files c of
        Inl err \<Rightarrow> Inl err
      | Inr f \<Rightarrow>
          (let names = sql_files f
           in if names = [] then Inl (Errorf (''migrations: no .sql files embedded for '' @ c) [])
              else (let newest = last (sort names)
                    in case numeric newest of
                         Inl err \<Rightarrow> Inl (wrapf (''migrations: '' @ newest) err)
                       | Inr v \<Rightarrow> Inr v)))"

subsection \<open>Applying\<close>

record ('w, 'd) goose =
  gs_SetBaseFS :: "string list \<Rightarrow> 'w \<Rightarrow> 'w"
  gs_SetLogger :: "'w \<Rightarrow> 'w"
  gs_SetDialect :: "string \<Rightarrow> ('w, gerr option) act"
  gs_Up :: "'d \<Rightarrow> string \<Rightarrow> ('w, gerr option) act"
  gs_GetDBVersion :: "'d \<Rightarrow> ('w, gerr + int) act"
  gs_NumericComponent :: "string \<Rightarrow> gerr + int"
  gs_TableName :: string

definition Apply :: "('w, 'd) goose \<Rightarrow> (string \<Rightarrow> string list) \<Rightarrow> 'd \<Rightarrow> string \<Rightarrow> ('w, gerr option) act" where
  "Apply g files db c w =
     (case FS files c of
        Inl err \<Rightarrow> (Some err, w)
      | Inr f \<Rightarrow>
          (case gs_SetDialect g ''postgres'' (gs_SetLogger g (gs_SetBaseFS g f w)) of
             (Some err, w) \<Rightarrow> (Some (wrapf ''migrations: dialect'' err), w)
           | (None, w) \<Rightarrow>
               (case gs_Up g db ''.'' w of
                  (Some err, w) \<Rightarrow> (Some (wrapf (''migrations: up '' @ c) err), w)
                | (None, w) \<Rightarrow> (None, w))))"

definition Version :: "('w, 'd) goose \<Rightarrow> 'd \<Rightarrow> ('w, gerr + int) act" where
  "Version g db w =
     (case gs_SetDialect g ''postgres'' w of
        (Some err, w) \<Rightarrow> (Inl (wrapf ''migrations: dialect'' err), w)
      | (None, w) \<Rightarrow>
          (case gs_GetDBVersion g db w of
             (Inl err, w) \<Rightarrow> (Inl (wrapf ''migrations: version'' err), w)
           | (Inr v, w) \<Rightarrow> (Inr v, w)))"

text \<open>\<open>query\<close> is \<open>QueryRow\<close> and \<open>Scan\<close> on the pool.\<close>

definition Ready :: "string \<Rightarrow> (string \<Rightarrow> ('w, gerr + int) act) \<Rightarrow> int \<Rightarrow> ('w, gerr option) act" where
  "Ready table query expected w =
     (case query (''SELECT coalesce(max(version_id), 0) FROM '' @ table) w of
        (Inl err, w) \<Rightarrow> (Some (wrapf ''migrations: read schema version'' err), w)
      | (Inr applied, w) \<Rightarrow>
          if applied < expected
          then (Some (Errorf (error_text ErrSchemaBehind @ '': applied '' @ Itoa applied @ '', expected '' @
                 Itoa expected) [ErrSchemaBehind]), w)
          else (None, w))"

subsection \<open>The command\<close>

record ('w, 'd) migrate_deps =
  md_goose :: "('w, 'd) goose"
  md_files :: "string \<Rightarrow> string list"
  md_Open :: "string \<Rightarrow> ('w, gerr + 'd) act"
  md_Close :: "'d \<Rightarrow> ('w, gerr option) act"
  md_log :: "log_line \<Rightarrow> 'w \<Rightarrow> 'w"

definition migrate_act :: "('w, 'd) migrate_deps \<Rightarrow> 'd \<Rightarrow> string \<Rightarrow> string \<Rightarrow> ('w, gerr option) act" where
  "migrate_act m db c action w =
     (if action = ''up'' then
        (case Apply (md_goose m) (md_files m) db c w of
           (Some err, w) \<Rightarrow> (Some err, w)
         | (None, w) \<Rightarrow>
             (case Version (md_goose m) db w of
                (Inl err, w) \<Rightarrow> (Some err, w)
              | (Inr v, w) \<Rightarrow>
                  (None, md_log m (line LevelInfo ''migrated'' [(''context'', AStr c), (''version'', AInt v)]) w)))
      else if action = ''version'' then
        (case Version (md_goose m) db w of
           (Inl err, w) \<Rightarrow> (Some err, w)
         | (Inr v, w) \<Rightarrow>
             (case Latest (md_files m) (gs_NumericComponent (md_goose m)) c of
                Inl err \<Rightarrow> (Some err, w)
              | Inr latest \<Rightarrow>
                  (None, md_log m (line LevelInfo ''version''
                     [(''context'', AStr c), (''applied'', AInt v), (''latest'', AInt latest)]) w)))
      else (Some (Errorf (''unknown action '' @ fmt_q action @ '' (want up or version)'') []), w))"

definition selected :: "string \<Rightarrow> gerr + string list" where
  "selected name =
     (if name = ''all'' then Inr Contexts
      else (case Parse name of Inl err \<Rightarrow> Inl err | Inr c \<Rightarrow> Inr [c]))"

definition dsnFor :: "Migrate \<Rightarrow> string \<Rightarrow> gerr + string" where
  "dsnFor cfg c =
     (if c = Accounts then Inr (mig_AccountsDatabaseURL cfg)
      else if c = Notifications then Inr (mig_NotificationsDatabaseURL cfg)
      else Inl (Errorf (error_text ErrUnknownContext @ '': '' @ fmt_q c) [ErrUnknownContext]))"

text \<open>The loop over the targets; the database is closed before the action's error is looked at.\<close>

fun migrate_targets ::
    "('w, 'd) migrate_deps \<Rightarrow> Migrate \<Rightarrow> string \<Rightarrow> string list \<Rightarrow> ('w, gerr option) act" where
  "migrate_targets m cfg action [] w = (None, w)"
| "migrate_targets m cfg action (c # cs) w =
     (case dsnFor cfg c of
        Inl err \<Rightarrow> (Some err, w)
      | Inr dsn \<Rightarrow>
          (case md_Open m dsn w of
             (Inl err, w) \<Rightarrow> (Some (wrapf (''open '' @ c) err), w)
           | (Inr db, w) \<Rightarrow>
               (let (err, w) = migrate_act m db c action w;
                    (closeErr, w) = md_Close m db w
                in case err of
                     Some err \<Rightarrow> (Some err, w)
                   | None \<Rightarrow>
                       (case closeErr of
                          Some err \<Rightarrow> (Some (wrapf (''close '' @ c) err), w)
                        | None \<Rightarrow> migrate_targets m cfg action cs w))))"

definition migrate_run ::
    "(string \<Rightarrow> string) \<Rightarrow> ('w, 'd) migrate_deps \<Rightarrow> (string \<Rightarrow> string) \<Rightarrow> string \<Rightarrow> string \<Rightarrow>
     ('w, gerr option) act" where
  "migrate_run upr m getenv contextFlag action w =
     (case LoadMigrate upr getenv of
        Inl err \<Rightarrow> (Some err, w)
      | Inr cfg \<Rightarrow>
          (case selected contextFlag of
             Inl err \<Rightarrow> (Some err, w)
           | Inr targets \<Rightarrow> migrate_targets m cfg action targets w))"

subsection \<open>The newest migration\<close>

text \<open>The value of a string of digits.\<close>

fun digits_value :: "string \<Rightarrow> int" where
  "digits_value [] = 0"
| "digits_value (c # cs) = digit_value c * 10 ^ length cs + digits_value cs"

lemma digits_value_bounds:
  "list_all digit ds \<Longrightarrow> 0 \<le> digits_value ds \<and> digits_value ds < 10 ^ length ds"
proof (induction ds)
  case (Cons c cs)
  then have c: "0 \<le> digit_value c" "digit_value c \<le> 9" and cs: "0 \<le> digits_value cs" "digits_value cs < 10 ^ length cs"
    by (auto simp: digit_def digit_value_def)
  from c(2) have "digit_value c * 10 ^ length cs \<le> 9 * 10 ^ length cs" by (intro mult_right_mono) simp_all
  moreover have "0 \<le> digit_value c * 10 ^ length cs" using c(1) by simp
  ultimately show ?case using cs by (simp, linarith)
qed simp

text \<open>Among digit strings of one width the lexical order is the numeric one.\<close>

lemma lex_digits:
  assumes "length xs = length ys" "list_all digit xs" "list_all digit ys" "xs @ r \<le> ys @ s"
  shows "digits_value xs \<le> digits_value ys"
  using assms
proof (induction xs ys rule: list_induct2)
  case (Cons x xs y ys)
  show ?case
  proof (cases "x = y")
    case True
    with Cons show ?thesis by simp
  next
    case False
    with Cons.prems have "x < y" by simp
    then have "digit_value x + 1 \<le> digit_value y" by (simp add: less_char_def digit_value_def)
    then have "(digit_value x + 1) * 10 ^ length xs \<le> digit_value y * 10 ^ length xs"
      by (intro mult_right_mono) simp_all
    with digits_value_bounds [of xs] digits_value_bounds [of ys] Cons show ?thesis
      by (simp add: algebra_simps)
  qed
qed simp

definition numbered_name :: "nat \<Rightarrow> (string \<Rightarrow> gerr + int) \<Rightarrow> string \<Rightarrow> bool" where
  "numbered_name k numeric n \<longleftrightarrow>
     (\<exists>ds rest. n = ds @ CHR ''_'' # rest \<and> length ds = k \<and> list_all digit ds \<and>
        numeric n = Inr (digits_value ds))"

lemma numbered_nameI:
  "n = ds @ CHR ''_'' # rest \<Longrightarrow> length ds = k \<Longrightarrow> list_all digit ds \<Longrightarrow>
     numeric n = Inr (digits_value ds) \<Longrightarrow> numbered_name k numeric n"
  by (auto simp: numbered_name_def)

text \<open>
  The expected schema version.  When the migration files carry zero-padded numbers of one width,
  as \<open>goose\<close> reads them, \<open>Latest\<close> is the largest of them; it is derived from the names, whatever
  their order in the file system.
\<close>

lemma latest_is_newest:
  assumes "Latest files numeric c = Inr v"
    and "\<forall>n \<in> set (sql_files (files c)). numbered_name k numeric n"
  shows "(\<exists>n \<in> set (sql_files (files c)). numeric n = Inr v) \<and>
    (\<forall>n \<in> set (sql_files (files c)). \<exists>u. numeric n = Inr u \<and> u \<le> v)"
proof -
  let ?names = "sql_files (files c)"
  from assms(1) have ne: "?names \<noteq> []" and v: "numeric (last (sort ?names)) = Inr v"
    by (auto simp: Latest_def FS_def Parse_def Let_def split: if_splits sum.splits)
  have last: "last (sort ?names) \<in> set ?names" using ne by (metis last_in_set set_empty set_sort)
  with assms(2) obtain ds rest where d: "last (sort ?names) = ds @ CHR ''_'' # rest" "length ds = k"
    "list_all digit ds" "v = digits_value ds" using v by (force simp: numbered_name_def)
  have "\<exists>u. numeric n = Inr u \<and> u \<le> v" if n: "n \<in> set ?names" for n
  proof -
    from n assms(2) obtain es r where e: "n = es @ CHR ''_'' # r" "length es = k" "list_all digit es"
      "numeric n = Inr (digits_value es)" by (force simp: numbered_name_def)
    have "n \<le> last (sort ?names)"
    proof -
      from n obtain i where i: "i < length (sort ?names)" "sort ?names ! i = n"
        by (metis in_set_conv_nth set_sort)
      have "sort ?names ! i \<le> sort ?names ! (length (sort ?names) - 1)"
        by (rule sorted_nth_mono) (use i in auto)
      moreover have "sort ?names \<noteq> []" using ne by (metis set_empty set_sort)
      ultimately show ?thesis using i by (simp add: last_conv_nth)
    qed
    with e d lex_digits [of es ds] show ?thesis by auto
  qed
  with last v show ?thesis by blast
qed

text \<open>The files of the repository, out of order, and the numeric prefix as \<open>goose\<close> reads it.\<close>

definition repository_files :: "string \<Rightarrow> string list" where
  "repository_files c =
     (if c = Accounts then [''0002_outbox_relay_indexes.sql'', ''README.md'', ''0001_init.sql'']
      else if c = Notifications then [''0001_init.sql''] else [])"

definition numeric_prefix :: "string \<Rightarrow> gerr + int" where
  "numeric_prefix n =
     (case Cut n CHR ''_'' of
        Some (ds, _) \<Rightarrow> if list_all digit ds then Inr (digits_value ds) else Inl (Ext ''no prefix'')
      | None \<Rightarrow> Inl (Ext ''no separator''))"

lemma latest_is_newest_witness:
  "Latest repository_files numeric_prefix Accounts = Inr 2 \<and>
   (\<exists>u. numeric_prefix ''0001_init.sql'' = Inr u \<and> u \<le> 2)"
proof -
  have l: "Latest repository_files numeric_prefix Accounts = Inr 2" by code_simp
  have names: "sql_files (repository_files Accounts) = [''0002_outbox_relay_indexes.sql'', ''0001_init.sql'']"
    by code_simp
  have "numbered_name 4 numeric_prefix ''0002_outbox_relay_indexes.sql''"
    by (rule numbered_nameI [where ds = "''0002''" and rest = "''outbox_relay_indexes.sql''"]) code_simp+
  moreover have "numbered_name 4 numeric_prefix ''0001_init.sql''"
    by (rule numbered_nameI [where ds = "''0001''" and rest = "''init.sql''"]) code_simp+
  ultimately have "\<forall>n \<in> set (sql_files (repository_files Accounts)). numbered_name 4 numeric_prefix n"
    unfolding names list.set by blast
  from latest_is_newest [OF l this] l show ?thesis by (simp add: names)
qed

end
