(* ===== verification/Admin.thy ===== *)
theory Admin
  imports HttpApi Migrations
begin

text \<open>
  The routes and the operator surface: \<open>NewRouter\<close> of the public listener and
  \<open>internal/platform/admin\<close> with the liveness and the readiness probe.  \<open>http.ServeMux\<close> is modelled
  as far as the code uses it: patterns \<open>METHOD /path\<close> on cleaned paths, where \<open>GET\<close> matches \<open>HEAD\<close>
  too; its own answers (405 for a known path with another method, 404 otherwise) are the argument
  \<open>std\<close> applied to their status.
\<close>

type_synonym 'w handler = "request \<Rightarrow> ('w, response) act"

type_synonym 'w mux = "(string \<times> string \<times> 'w handler) list"

definition method_matches :: "string \<Rightarrow> string \<Rightarrow> bool" where
  "method_matches pattern method \<longleftrightarrow> pattern = method \<or> pattern = ''GET'' \<and> method = ''HEAD''"

definition ServeHTTP :: "(int \<Rightarrow> response) \<Rightarrow> 'w mux \<Rightarrow> string \<Rightarrow> string \<Rightarrow> 'w handler" where
  "ServeHTTP std mux method path r w =
     (case find (\<lambda>(m, p, h). p = path \<and> method_matches m method) mux of
        Some (m, p, h) \<Rightarrow> h r w
      | None \<Rightarrow> (std (if \<exists>(m, p, h) \<in> set mux. p = path then 405 else 404), w))"

subsection \<open>Probes\<close>

definition text_response :: "int \<Rightarrow> string \<Rightarrow> response" where
  "text_response status txt =
     no_response\<lparr>rs_Header := Header_Set ''Content-Type'' ''text/plain; charset=utf-8'' [],
       rs_Status := Some status, rs_Body := txt @ [CHR 0x0A]\<rparr>"

definition Healthz :: "'w handler" where
  "Healthz r w = (text_response 200 ''ok'', w)"

definition readyTimeout :: duration where "readyTimeout = 2000000000"

text \<open>\<open>ready\<close> gets the time limit of its context.\<close>

definition readyz :: "(duration \<Rightarrow> ('w, gerr option) act) \<Rightarrow> 'w handler" where
  "readyz ready r w =
     (case ready readyTimeout w of
        (Some err, w) \<Rightarrow> (text_response 503 (error_text err), w)
      | (None, w) \<Rightarrow> (text_response 200 ''ready'', w))"

definition Router :: "(duration \<Rightarrow> ('w, gerr option) act) \<Rightarrow> 'w mux" where
  "Router ready = [(''GET'', ''/healthz'', Healthz), (''GET'', ''/readyz'', readyz ready)]"

definition NewRouter :: "'w Handler \<Rightarrow> 'w handler \<Rightarrow> 'w mux" where
  "NewRouter h health = [(''POST'', ''/users'', Handler_RegisterUser h), (''GET'', ''/healthz'', health)]"

subsection \<open>Servers\<close>

definition serverReadHeaderTimeout :: duration where "serverReadHeaderTimeout = 5000000000"

record 'w server =
  sv_Addr :: string
  sv_Handler :: "'w mux"
  sv_ReadHeaderTimeout :: duration

definition NewServer :: "string \<Rightarrow> (duration \<Rightarrow> ('w, gerr option) act) \<Rightarrow> 'w server" where
  "NewServer addr ready =
     \<lparr>sv_Addr = addr, sv_Handler = Router ready, sv_ReadHeaderTimeout = serverReadHeaderTimeout\<rparr>"

definition ErrServerClosed :: gerr where "ErrServerClosed = Ext ''http: Server closed''"

text \<open>
  \<open>serve\<close> is \<open>ListenAndServe\<close>; both mains wrap its error with the listener's name, and drop the one
  that follows a \<open>Shutdown\<close>.
\<close>

definition listen_result :: "string \<Rightarrow> gerr option \<Rightarrow> gerr option" where
  "listen_result name err =
     (case err of
        Some err \<Rightarrow> if errors_Is err ErrServerClosed then None else Some (wrapf (name @ '' listener'') err)
      | None \<Rightarrow> None)"

definition Listen :: "string \<Rightarrow> ('w server \<Rightarrow> ('w, gerr option) act) \<Rightarrow> 'w server \<Rightarrow> ('w, gerr option) act" where
  "Listen name serve srv w = (let (err, w) = serve srv w in (listen_result name err, w))"

subsection \<open>What the probes say\<close>

text \<open>
  C40: Readiness.  \<open>GET /readyz\<close> answers 200 exactly when the database answers with a schema version
  that is at least the expected one, and 503 with the reason otherwise; an older schema is an
  \<open>ErrSchemaBehind\<close>.  \<open>GET /healthz\<close> answers 200 on both listeners without touching anything.
\<close>

theorem readiness_follows_the_schema:
  "rs_Status (fst (ServeHTTP std (Router (\<lambda>_. Ready table query expected)) ''GET'' ''/readyz'' r w)) =
     (case fst (query (''SELECT coalesce(max(version_id), 0) FROM '' @ table) w) of
        Inr applied \<Rightarrow> if expected \<le> applied then Some 200 else Some 503
      | Inl _ \<Rightarrow> Some 503) \<and>
   (\<forall>applied. fst (query (''SELECT coalesce(max(version_id), 0) FROM '' @ table) w) = Inr applied \<longrightarrow>
      applied < expected \<longrightarrow>
      (\<exists>err. fst (Ready table query expected w) = Some err \<and> errors_Is err ErrSchemaBehind \<and>
         rs_Body (fst (ServeHTTP std (Router (\<lambda>_. Ready table query expected)) ''GET'' ''/readyz'' r w)) =
           error_text err @ [CHR 0x0A])) \<and>
   ServeHTTP std (Router (\<lambda>_. Ready table query expected)) ''GET'' ''/healthz'' r w = (text_response 200 ''ok'', w) \<and>
   ServeHTTP std (NewRouter h Healthz) ''GET'' ''/healthz'' r w = (text_response 200 ''ok'', w)"
proof -
  obtain y v where y: "query (''SELECT coalesce(max(version_id), 0) FROM '' @ table) w = (y, v)"
    by (metis prod.exhaust)
  show ?thesis
    by (cases y) (use y in \<open>auto simp: ServeHTTP_def Router_def NewRouter_def method_matches_def readyz_def
        Ready_def text_response_def no_response_def Healthz_def\<close>)
qed

lemma readiness_follows_the_schema_witness:
  "rs_Status (fst (ServeHTTP (\<lambda>s. no_response) (Router (\<lambda>_. Ready ''goose_db_version'' (\<lambda>q w. (Inr 1, w)) 2))
     ''GET'' ''/readyz'' (\<lparr>rq_Header = [], rq_Body = []\<rparr>) ())) = Some 503 \<and>
   (\<exists>err. fst (Ready ''goose_db_version'' (\<lambda>q w. (Inr 1, w)) 2 ()) = Some err \<and> errors_Is err ErrSchemaBehind)"
  using readiness_follows_the_schema [of "\<lambda>s. no_response" "''goose_db_version''" "\<lambda>q w. (Inr 1, w)" 2 _ "()"]
  by auto

end
