(* ===== verification/Platform.thy ===== *)
theory Platform
  imports Config
begin

text \<open>
  The tuning of the two clients and their constructors: \<open>internal/platform/postgres/config.go\<close>,
  \<open>NewPool\<close> of \<open>pool.go\<close>, and \<open>internal/platform/kafka\<close>.  The drivers' own constructors are the
  fields of a record; what this code hands them and how it treats their answers is modelled.
\<close>

subsection \<open>PostgreSQL\<close>

record PoolConfig =
  pc_DSN :: string
  pc_MaxConns :: int
  pc_MinConns :: int
  pc_MaxConnLifetime :: duration
  pc_MaxConnIdleTime :: duration
  pc_HealthCheckPeriod :: duration

definition DefaultPoolConfig :: "string \<Rightarrow> int \<Rightarrow> PoolConfig" where
  "DefaultPoolConfig dsn maxConns =
     \<lparr>pc_DSN = dsn, pc_MaxConns = maxConns, pc_MinConns = 2, pc_MaxConnLifetime = 3600000000000,
      pc_MaxConnIdleTime = 300000000000, pc_HealthCheckPeriod = 30000000000\<rparr>"

definition problem_if :: "bool \<Rightarrow> string \<Rightarrow> gerr list" where
  "problem_if bad msg = (if bad then [Errorf msg []] else [])"

definition pool_problems :: "PoolConfig \<Rightarrow> gerr list" where
  "pool_problems c =
     (if pc_DSN c = [] then [New ''DSN is empty''] else []) @
     problem_if (pc_MaxConns c \<le> 0) (''MaxConns must be positive, got '' @ Itoa (pc_MaxConns c)) @
     problem_if (pc_MinConns c < 0) (''MinConns must not be negative, got '' @ Itoa (pc_MinConns c)) @
     problem_if (pc_MaxConns c > 0 \<and> pc_MinConns c > pc_MaxConns c)
       (''MinConns '' @ Itoa (pc_MinConns c) @ '' exceeds MaxConns '' @ Itoa (pc_MaxConns c)) @
     problem_if (pc_MaxConnLifetime c \<le> 0)
       (''MaxConnLifetime must be positive, got '' @ Duration_String (pc_MaxConnLifetime c)) @
     problem_if (pc_MaxConnIdleTime c \<le> 0)
       (''MaxConnIdleTime must be positive, got '' @ Duration_String (pc_MaxConnIdleTime c)) @
     problem_if (pc_MaxConnLifetime c > 0 \<and> pc_MaxConnIdleTime c > pc_MaxConnLifetime c)
       (''MaxConnIdleTime '' @ Duration_String (pc_MaxConnIdleTime c) @ '' exceeds MaxConnLifetime '' @
        Duration_String (pc_MaxConnLifetime c)) @
     problem_if (pc_HealthCheckPeriod c \<le> 0)
       (''HealthCheckPeriod must be positive, got '' @ Duration_String (pc_HealthCheckPeriod c))"

definition validate_pool :: "PoolConfig \<Rightarrow> gerr option" where
  "validate_pool c =
     (case errors_Join (pool_problems c) of
        None \<Rightarrow> None
      | Some err \<Rightarrow> Some (wrapf ''postgres: pool config'' err))"

text \<open>The driver: the parsed configuration \<open>'k\<close>, the pool \<open>'p\<close>.\<close>

record ('w, 'k, 'p) pgxpool =
  pl_ParseConfig :: "string \<Rightarrow> gerr + 'k"
  pl_tune :: "PoolConfig \<Rightarrow> 'k \<Rightarrow> 'k"
  pl_NewWithConfig :: "'k \<Rightarrow> ('w, gerr + 'p) act"
  pl_Ping :: "'p \<Rightarrow> ('w, gerr option) act"
  pl_Close :: "'p \<Rightarrow> 'w \<Rightarrow> 'w"

definition NewPool :: "('w, 'k, 'p) pgxpool \<Rightarrow> PoolConfig \<Rightarrow> ('w, gerr + 'p) act" where
  "NewPool d poolCfg w =
     (case validate_pool poolCfg of
        Some err \<Rightarrow> (Inl err, w)
      | None \<Rightarrow>
          (case pl_ParseConfig d (pc_DSN poolCfg) of
             Inl err \<Rightarrow> (Inl (wrapf ''postgres: parse dsn'' err), w)
           | Inr cfg \<Rightarrow>
               (case pl_NewWithConfig d (pl_tune d poolCfg cfg) w of
                  (Inl err, w) \<Rightarrow> (Inl (wrapf ''postgres: pool'' err), w)
                | (Inr pool, w) \<Rightarrow>
                    (case pl_Ping d pool w of
                       (Some err, w) \<Rightarrow> (Inl (wrapf ''postgres: ping'' err), pl_Close d pool w)
                     | (None, w) \<Rightarrow> (Inr pool, w)))))"

subsection \<open>Kafka\<close>

definition ErrNoBrokers :: gerr where "ErrNoBrokers = New ''kafka: no brokers configured''"

record ProducerConfig =
  kc_Brokers :: "string list"
  kc_RequestTimeoutOverhead :: duration

definition DefaultProducerConfig :: "string list \<Rightarrow> ProducerConfig" where
  "DefaultProducerConfig brokers = \<lparr>kc_Brokers = brokers, kc_RequestTimeoutOverhead = 10000000000\<rparr>"

fun blank_seeds :: "nat \<Rightarrow> string list \<Rightarrow> gerr list" where
  "blank_seeds i [] = []"
| "blank_seeds i (b # bs) =
     (if TrimSpace b = [] then [Errorf (''blank seed at Brokers['' @ Itoa (int i) @ '']'') []] else []) @
     blank_seeds (Suc i) bs"

definition producer_problems :: "ProducerConfig \<Rightarrow> gerr list" where
  "producer_problems c =
     (if kc_Brokers c = [] then [Errorf (error_text ErrNoBrokers @ '': Brokers is empty, set KAFKA_BROKERS'')
        [ErrNoBrokers]] else []) @
     blank_seeds 0 (kc_Brokers c) @
     problem_if (kc_RequestTimeoutOverhead c \<le> 0)
       (''RequestTimeoutOverhead must be positive, got '' @ Duration_String (kc_RequestTimeoutOverhead c))"

definition validate_producer :: "ProducerConfig \<Rightarrow> gerr option" where
  "validate_producer c =
     (case errors_Join (producer_problems c) of
        None \<Rightarrow> None
      | Some err \<Rightarrow> Some (wrapf ''kafka: producer config'' err))"

text \<open>The options \<open>NewProducer\<close> passes; the last three are decisions, not settings.\<close>

datatype kgo_opt =
    SeedBrokers "string list"
  | RequestTimeoutOverhead duration
  | RequiredAcksAllISR
  | RecordRetries nat
  | ProducerBatchCompressionZstd

definition NewProducer :: "(kgo_opt list \<Rightarrow> gerr + 'c) \<Rightarrow> ProducerConfig \<Rightarrow> gerr + 'c" where
  "NewProducer new_client cfg =
     (case validate_producer cfg of
        Some err \<Rightarrow> Inl err
      | None \<Rightarrow>
          (case new_client [SeedBrokers (kc_Brokers cfg),
               RequestTimeoutOverhead (kc_RequestTimeoutOverhead cfg), RequiredAcksAllISR,
               RecordRetries 0, ProducerBatchCompressionZstd] of
             Inl err \<Rightarrow> Inl (wrapf ''kafka: producer'' err)
           | Inr client \<Rightarrow> Inr client))"

subsection \<open>What the checks accept\<close>

lemma problem_if_Nil [simp]: "problem_if b m = [] \<longleftrightarrow> \<not> b"
  by (simp add: problem_if_def)

lemma blank_seeds_Nil [simp]: "blank_seeds i bs = [] \<longleftrightarrow> (\<forall>b \<in> set bs. TrimSpace b \<noteq> [])"
  by (induction bs arbitrary: i) auto

lemma wrapped_join: "(case errors_Join ps of None \<Rightarrow> None | Some err \<Rightarrow> Some (wrapf p err)) = None \<longleftrightarrow> ps = []"
  by (simp add: errors_Join_def)

definition pool_ok :: "PoolConfig \<Rightarrow> bool" where
  "pool_ok c \<longleftrightarrow> pc_DSN c \<noteq> [] \<and> 0 < pc_MaxConns c \<and> 0 \<le> pc_MinConns c \<and> pc_MinConns c \<le> pc_MaxConns c \<and>
     0 < pc_MaxConnIdleTime c \<and> pc_MaxConnIdleTime c \<le> pc_MaxConnLifetime c \<and> 0 < pc_HealthCheckPeriod c"

lemma validate_pool_iff: "validate_pool c = None \<longleftrightarrow> pool_ok c"
  by (auto simp: validate_pool_def wrapped_join pool_problems_def pool_ok_def)

lemma validate_producer_iff:
  "validate_producer c = None \<longleftrightarrow>
     kc_Brokers c \<noteq> [] \<and> (\<forall>b \<in> set (kc_Brokers c). TrimSpace b \<noteq> []) \<and> 0 < kc_RequestTimeoutOverhead c"
  by (auto simp: validate_producer_def wrapped_join producer_problems_def)

text \<open>
  The constructor of the pool.  The driver is asked for a pool only with a configuration that is
  consistent (a warm floor within the cap, an idle timeout that can fire, positive periods); a pool
  is returned only after it answered a ping, and one that did not answer is closed.
\<close>

lemma pool_is_checked_and_pinged:
  assumes "NewPool d c w = (x, w')"
  shows "(\<exists>pool k w1. x = Inr pool \<and> pool_ok c \<and> pl_ParseConfig d (pc_DSN c) = Inr k \<and>
        pl_NewWithConfig d (pl_tune d c k) w = (Inr pool, w1) \<and> pl_Ping d pool w1 = (None, w')) \<or>
    (\<exists>err pool k e w1 w2. x = Inl err \<and> pool_ok c \<and> pl_ParseConfig d (pc_DSN c) = Inr k \<and>
        pl_NewWithConfig d (pl_tune d c k) w = (Inr pool, w1) \<and> pl_Ping d pool w1 = (Some e, w2) \<and>
        w' = pl_Close d pool w2) \<or>
    (\<exists>err k e. x = Inl err \<and> pool_ok c \<and> pl_ParseConfig d (pc_DSN c) = Inr k \<and>
        pl_NewWithConfig d (pl_tune d c k) w = (Inl e, w')) \<or>
    (\<exists>err. x = Inl err \<and> w' = w \<and> (pool_ok c \<longrightarrow> (\<exists>e. pl_ParseConfig d (pc_DSN c) = Inl e)))"
proof (cases "pool_ok c")
  case False
  then have "validate_pool c \<noteq> None" by (simp add: validate_pool_iff)
  with assms False show ?thesis by (auto simp: NewPool_def)
next
  case True
  then have v: "validate_pool c = None" by (simp add: validate_pool_iff)
  show ?thesis
  proof (cases "pl_ParseConfig d (pc_DSN c)")
    case (Inl e)
    with v assms show ?thesis by (auto simp: NewPool_def)
  next
    case k: (Inr k)
    obtain y w1 where y: "pl_NewWithConfig d (pl_tune d c k) w = (y, w1)" by (metis prod.exhaust)
    show ?thesis
    proof (cases y)
      case (Inl e)
      with v k y True assms show ?thesis by (auto simp: NewPool_def)
    next
      case (Inr pool)
      obtain e w2 where e: "pl_Ping d pool w1 = (e, w2)" by (metis prod.exhaust)
      show ?thesis
      proof (cases e)
        case None
        with v k y Inr e assms have "x = Inr pool" "w' = w2" by (simp_all add: NewPool_def)
        with True k y Inr e None show ?thesis by blast
      next
        case (Some z)
        with v k y Inr e assms have "\<exists>err. x = Inl err" "w' = pl_Close d pool w2" by (auto simp: NewPool_def)
        with True k y Inr e Some show ?thesis by blast
      qed
    qed
  qed
qed

text \<open>A driver that counts open pools and whose server does not answer.\<close>

definition mute_driver :: "(int, unit, unit) pgxpool" where
  "mute_driver =
     \<lparr>pl_ParseConfig = (\<lambda>dsn. Inr ()), pl_tune = (\<lambda>c k. k), pl_NewWithConfig = (\<lambda>k n. (Inr (), n + 1)),
      pl_Ping = (\<lambda>p n. (Some (Ext ''no answer''), n)), pl_Close = (\<lambda>p n. n - 1)\<rparr>"

lemma pool_is_checked_and_pinged_witness:
  "\<exists>err. NewPool mute_driver (DefaultPoolConfig ''db'' 5) 0 = (Inl err, 0)"
proof -
  let ?run = "NewPool mute_driver (DefaultPoolConfig ''db'' 5) 0"
  from pool_is_checked_and_pinged [OF prod.collapse [symmetric, of ?run]]
  have "(\<exists>err. fst ?run = Inl err) \<and> snd ?run = 0" by (auto simp: mute_driver_def)
  then show ?thesis by (metis prod.collapse)
qed

text \<open>
  The producer.  Every client is built with acks from all in-sync replicas, no client-side
  retries and the configured brokers, none of them blank; a configuration with no broker, a blank
  one or no timeout is refused before the client is built, and with no broker the error is an
  \<open>ErrNoBrokers\<close>.
\<close>

lemma producer_decisions:
  "(NewProducer new_client c = Inr client \<longrightarrow>
      (\<exists>opts. new_client opts = Inr client \<and> RequiredAcksAllISR \<in> set opts \<and> RecordRetries 0 \<in> set opts \<and>
         SeedBrokers (kc_Brokers c) \<in> set opts \<and> kc_Brokers c \<noteq> [] \<and>
         (\<forall>b \<in> set (kc_Brokers c). TrimSpace b \<noteq> []) \<and> 0 < kc_RequestTimeoutOverhead c)) \<and>
   (kc_Brokers c = [] \<longrightarrow> (\<exists>err. NewProducer new_client c = Inl err \<and> errors_Is err ErrNoBrokers))"
proof
  show "NewProducer new_client c = Inr client \<longrightarrow>
      (\<exists>opts. new_client opts = Inr client \<and> RequiredAcksAllISR \<in> set opts \<and> RecordRetries 0 \<in> set opts \<and>
         SeedBrokers (kc_Brokers c) \<in> set opts \<and> kc_Brokers c \<noteq> [] \<and>
         (\<forall>b \<in> set (kc_Brokers c). TrimSpace b \<noteq> []) \<and> 0 < kc_RequestTimeoutOverhead c)"
    using validate_producer_iff [of c]
    by (auto simp: NewProducer_def split: option.splits sum.splits)
  show "kc_Brokers c = [] \<longrightarrow> (\<exists>err. NewProducer new_client c = Inl err \<and> errors_Is err ErrNoBrokers)"
    by (auto simp: NewProducer_def validate_producer_def producer_problems_def errors_Join_def)
qed

lemma producer_decisions_witness:
  "NewProducer (\<lambda>opts. Inr (length opts)) (DefaultProducerConfig [''a:9092'']) = Inr 5 \<and>
   (\<exists>opts :: kgo_opt list. length opts = 5 \<and> RequiredAcksAllISR \<in> set opts \<and> RecordRetries 0 \<in> set opts) \<and>
   (\<exists>err. NewProducer (\<lambda>opts. Inr (length opts)) (DefaultProducerConfig []) = Inl err \<and> errors_Is err ErrNoBrokers)"
proof -
  have "TrimSpace ''a:9092'' \<noteq> []" by code_simp
  then have "validate_producer (DefaultProducerConfig [''a:9092'']) = None"
    by (simp add: validate_producer_iff DefaultProducerConfig_def)
  then have run: "NewProducer (\<lambda>opts. Inr (length opts)) (DefaultProducerConfig [''a:9092'']) = Inr 5"
    by (simp add: NewProducer_def)
  from run producer_decisions [of "\<lambda>opts. Inr (length opts)" "DefaultProducerConfig [''a:9092'']" 5]
    producer_decisions [of "\<lambda>opts. Inr (length opts)" "DefaultProducerConfig []" 0]
  show ?thesis by (auto simp: DefaultProducerConfig_def)
qed

end
