(* ===== verification/Listener.thy ===== *)
theory Listener
  imports RelayLoop WritePath
begin

text \<open>
  The relay's half of the wakeup, \<open>internal/accounts/infrastructure/wakeup/listen.go\<close>: one
  connection with \<open>LISTEN\<close> outstanding, built by the first \<open>Wait\<close>, dropped after a failure and
  rebuilt by the next.  The driver \<open>pgx\<close> is the argument \<open>P\<close>: connections are handles of any
  type, and what an operation on one answers is up to the driver and the server.
\<close>

record ('w, 'c) pgx =
  px_Connect :: "string \<Rightarrow> ('w, gerr + 'c) act"
  px_Exec :: "'c \<Rightarrow> string \<Rightarrow> ('w, gerr option) act"
  px_WaitForNotification :: "'c \<Rightarrow> duration \<Rightarrow> ('w, gerr option) act"
  px_QueryUsage :: "'c \<Rightarrow> string \<Rightarrow> ('w, gerr + rat) act"
  px_Close :: "'c \<Rightarrow> ('w, gerr option) act"
  px_IsClosed :: "'c \<Rightarrow> 'w \<Rightarrow> bool"
  px_Sanitize :: "string list \<Rightarrow> string"
  px_ctx_Err :: "('w, gerr option) act"
  px_log :: "log_line \<Rightarrow> 'w \<Rightarrow> 'w"

definition context_DeadlineExceeded :: gerr where
  "context_DeadlineExceeded = Ext ''context deadline exceeded''"

record 'c Listener =
  ln_dsn :: string
  ln_conn :: "'c option"

definition NewListener :: "string \<Rightarrow> 'c Listener" where
  "NewListener dsn = \<lparr>ln_dsn = dsn, ln_conn = None\<rparr>"

text \<open>The guard \<open>conn != nil && !conn.IsClosed()\<close>.\<close>

definition live :: "('w, 'c) pgx \<Rightarrow> 'c Listener \<Rightarrow> 'w \<Rightarrow> bool" where
  "live P l w = (case ln_conn l of None \<Rightarrow> False | Some c \<Rightarrow> \<not> px_IsClosed P c w)"

definition Listener_listen :: "('w, 'c) pgx \<Rightarrow> 'c Listener \<Rightarrow> ('w, gerr option \<times> 'c Listener) act" where
  "Listener_listen P l w =
     (if live P l w then ((None, l), w)
      else (case px_Connect P (ln_dsn l) w of
          (Inl err, w) \<Rightarrow> ((Some (wrapf ''wakeup: listen connection'' err), l), w)
        | (Inr conn, w) \<Rightarrow>
            (case px_Exec P conn (''LISTEN '' @ px_Sanitize P [ChannelOutboxNew]) w of
               (Some err, w) \<Rightarrow>
                 (let (_, w) = px_Close P conn w
                  in ((Some (wrapf (''wakeup: listen '' @ ChannelOutboxNew) err), l), w))
             | (None, w) \<Rightarrow>
                 ((None, l\<lparr>ln_conn := Some conn\<rparr>),
                  px_log P (line LevelInfo ''listening for outbox wakeups''
                    [(''channel'', AStr ChannelOutboxNew)]) w))))"

definition Listener_drop :: "('w, 'c) pgx \<Rightarrow> 'c Listener \<Rightarrow> 'w \<Rightarrow> 'c Listener \<times> 'w" where
  "Listener_drop P l w =
     (case ln_conn l of
        None \<Rightarrow> (l, w)
      | Some c \<Rightarrow> (let (_, w) = px_Close P c w in (l\<lparr>ln_conn := None\<rparr>, w)))"

text \<open>After a successful \<open>listen\<close> the connection is there (\<open>listen_live\<close> below).\<close>

definition Listener_Wait ::
    "('w, 'c) pgx \<Rightarrow> 'c Listener \<Rightarrow> duration \<Rightarrow> ('w, (bool \<times> gerr option) \<times> 'c Listener) act" where
  "Listener_Wait P l timeout w =
     (case Listener_listen P l w of
        ((Some err, l), w) \<Rightarrow> (((False, Some err), l), w)
      | ((None, l), w) \<Rightarrow>
          (case px_WaitForNotification P (the (ln_conn l)) timeout w of
             (None, w) \<Rightarrow> (((True, None), l), w)
           | (Some err, w) \<Rightarrow>
               (case px_ctx_Err P w of
                  (Some _, w) \<Rightarrow> (((False, None), l), w)
                | (None, w) \<Rightarrow>
                    if errors_Is err context_DeadlineExceeded then (((False, None), l), w)
                    else (let (l, w) = Listener_drop P l w
                          in (((False, Some (wrapf (''wakeup: wait on '' @ ChannelOutboxNew) err)), l), w)))))"

definition Listener_Usage :: "('w, 'c) pgx \<Rightarrow> 'c Listener \<Rightarrow> ('w, rat option) act" where
  "Listener_Usage P l w =
     (if \<not> live P l w then (None, w)
      else (case px_QueryUsage P (the (ln_conn l)) ''SELECT pg_notification_queue_usage()'' w of
          (Inl err, w) \<Rightarrow>
            (None, px_log P (line LevelWarn ''cannot read the notify queue usage'' [(''error'', AErr err)]) w)
        | (Inr usage, w) \<Rightarrow> (Some usage, w)))"

definition Listener_Close :: "('w, 'c) pgx \<Rightarrow> 'c Listener \<Rightarrow> ('w, gerr option \<times> 'c Listener) act" where
  "Listener_Close P l w =
     (if \<not> live P l w then ((None, l), w)
      else (case px_Close P (the (ln_conn l)) w of
          (Some err, w) \<Rightarrow> ((Some (wrapf ''wakeup: close listen connection'' err), l), w)
        | (None, w) \<Rightarrow> ((None, l\<lparr>ln_conn := None\<rparr>), w)))"

text \<open>The listener as the loop's \<open>Waiter\<close>; its state is part of the loop's world.\<close>

definition waiter :: "('w, 'c) pgx \<Rightarrow> ('w \<times> 'c Listener) Waiter" where
  "waiter P =
     \<lparr>Wait = (\<lambda>d (w, l). case Listener_Wait P l d w of ((x, l), w) \<Rightarrow> (x, (w, l))),
      Usage = (\<lambda>(w, l). case Listener_Usage P l w of (x, w) \<Rightarrow> (x, (w, l)))\<rparr>"

subsection \<open>Lemmas\<close>

text \<open>The connection a successful \<open>listen\<close> leaves is the live one, or a new one with a \<open>LISTEN\<close>.\<close>

definition subscribed_by :: "('w, 'c) pgx \<Rightarrow> 'c Listener \<Rightarrow> 'w \<Rightarrow> 'c \<Rightarrow> bool" where
  "subscribed_by P l w c \<longleftrightarrow>
     live P l w \<and> ln_conn l = Some c \<or>
     \<not> live P l w \<and> (\<exists>w1 w2. px_Connect P (ln_dsn l) w = (Inr c, w1) \<and>
       px_Exec P c (''LISTEN '' @ px_Sanitize P [ChannelOutboxNew]) w1 = (None, w2))"

lemma listen_live:
  assumes "Listener_listen P l w = ((None, l'), w')"
  obtains c where "l' = l\<lparr>ln_conn := Some c\<rparr>" "subscribed_by P l w c"
proof (cases "live P l w")
  case True
  then obtain c where "ln_conn l = Some c" by (auto simp: live_def split: option.splits)
  with True assms show thesis by (intro that [of c]) (auto simp: Listener_listen_def subscribed_by_def)
next
  case False
  then obtain c w1 where c: "px_Connect P (ln_dsn l) w = (Inr c, w1)"
    using assms by (auto simp: Listener_listen_def split: prod.splits sum.splits)
  obtain e w2 where e: "px_Exec P c (''LISTEN '' @ px_Sanitize P [ChannelOutboxNew]) w1 = (e, w2)"
    by (metis prod.exhaust)
  with False c assms have "e = None" "l' = l\<lparr>ln_conn := Some c\<rparr>"
    by (auto simp: Listener_listen_def Let_def split: prod.splits option.splits)
  with False c e show thesis by (intro that [of c]) (auto simp: subscribed_by_def)
qed

lemma listen_failed:
  assumes "Listener_listen P l w = ((Some err, l'), w')"
  shows "l' = l" "\<not> live P l w"
  using assms by (auto simp: Listener_listen_def Let_def split: if_splits prod.splits sum.splits option.splits)

text \<open>A relation that every operation of the driver keeps, the listener keeps.\<close>

definition driver_keeps :: "('w, 'c) pgx \<Rightarrow> ('w \<Rightarrow> 'w \<Rightarrow> bool) \<Rightarrow> bool" where
  "driver_keeps P R \<longleftrightarrow> reflp R \<and> transp R \<and>
     (\<forall>d w. R w (snd (px_Connect P d w))) \<and> (\<forall>c q w. R w (snd (px_Exec P c q w))) \<and>
     (\<forall>c d w. R w (snd (px_WaitForNotification P c d w))) \<and> (\<forall>c q w. R w (snd (px_QueryUsage P c q w))) \<and>
     (\<forall>c w. R w (snd (px_Close P c w))) \<and> (\<forall>w. R w (snd (px_ctx_Err P w))) \<and> (\<forall>l w. R w (px_log P l w))"

lemma driver_keepsD:
  assumes "driver_keeps P R"
  shows "R w w" "R u v \<Longrightarrow> R v w' \<Longrightarrow> R u w'"
    "px_Connect P d w = (x, w') \<Longrightarrow> R w w'" "px_Exec P c q w = (y, w') \<Longrightarrow> R w w'"
    "px_WaitForNotification P c t w = (y, w') \<Longrightarrow> R w w'" "px_QueryUsage P c q w = (z, w') \<Longrightarrow> R w w'"
    "px_Close P c w = (y, w') \<Longrightarrow> R w w'" "px_ctx_Err P w = (y, w') \<Longrightarrow> R w w'" "R w (px_log P l w)"
  using assms unfolding driver_keeps_def by (metis reflpE transpE snd_conv)+

lemma listen_keeps:
  assumes "driver_keeps P R" "Listener_listen P l w = (x, w')"
  shows "R w w'"
proof -
  note k = driver_keepsD [OF assms(1)]
  obtain c w1 where c: "px_Connect P (ln_dsn l) w = (c, w1)" by (metis prod.exhaust)
  show ?thesis
  proof (cases c)
    case (Inl e)
    with assms(2) c k(1,3) show ?thesis by (auto simp: Listener_listen_def split: if_splits)
  next
    case (Inr conn)
    obtain e w2 where e: "px_Exec P conn (''LISTEN '' @ px_Sanitize P [ChannelOutboxNew]) w1 = (e, w2)"
      by (metis prod.exhaust)
    obtain y w3 where y: "px_Close P conn w2 = (y, w3)" by (metis prod.exhaust)
    let ?l = "line LevelInfo ''listening for outbox wakeups'' [(''channel'', AStr ChannelOutboxNew)]"
    from assms(2) c Inr e y have "w' \<in> {w, w3, px_log P ?l w2}"
      by (auto simp: Listener_listen_def split: if_splits option.splits)
    with k(3) [OF c] k(4) [OF e] k(7) [OF y] k(9) [of w2 ?l] k(1,2) show ?thesis by blast
  qed
qed

lemma drop_keeps: "driver_keeps P R \<Longrightarrow> Listener_drop P l w = (l', w') \<Longrightarrow> R w w'"
  by (auto simp: Listener_drop_def dest: driver_keepsD(7) intro: driver_keepsD(1) split: option.splits prod.splits)

lemma Wait_keeps:
  assumes "driver_keeps P R" "Listener_Wait P l d w = (x, w')"
  shows "R w w'"
proof -
  note k = driver_keepsD [OF assms(1)]
  obtain e l1 w1 where l: "Listener_listen P l w = ((e, l1), w1)" by (metis prod.exhaust)
  obtain y w2 where y: "px_WaitForNotification P (the (ln_conn l1)) d w1 = (y, w2)" by (metis prod.exhaust)
  obtain z w3 where z: "px_ctx_Err P w2 = (z, w3)" by (metis prod.exhaust)
  obtain l4 w4 where dr: "Listener_drop P l1 w3 = (l4, w4)" by (metis prod.exhaust)
  from assms(2) l y z dr have "w' \<in> {w1, w2, w3, w4}"
    by (cases e; cases y; cases z) (auto simp: Listener_Wait_def split: if_splits)
  with listen_keeps [OF assms(1) l] k(5) [OF y] k(8) [OF z] drop_keeps [OF assms(1) dr] k(2) show ?thesis by blast
qed

lemma Usage_keeps:
  assumes "driver_keeps P R" "Listener_Usage P l w = (x, w')"
  shows "R w w'"
proof -
  note k = driver_keepsD [OF assms(1)]
  obtain y w1 where y: "px_QueryUsage P (the (ln_conn l)) ''SELECT pg_notification_queue_usage()'' w = (y, w1)"
    by (metis prod.exhaust)
  from assms(2) y have "w' = w \<or> w' = w1 \<or> (\<exists>l. w' = px_log P l w1)"
    by (auto simp: Listener_Usage_def split: if_splits sum.splits)
  with k(6) [OF y] k(1,2,9) show ?thesis by blast
qed

text \<open>Why no connection could be built.\<close>

definition cannot_listen :: "('w, 'c) pgx \<Rightarrow> 'c Listener \<Rightarrow> 'w \<Rightarrow> gerr \<Rightarrow> bool" where
  "cannot_listen P l w err \<longleftrightarrow> \<not> live P l w \<and>
     ((\<exists>x w1. px_Connect P (ln_dsn l) w = (Inl x, w1) \<and> err = wrapf ''wakeup: listen connection'' x) \<or>
      (\<exists>c x w1 w2. px_Connect P (ln_dsn l) w = (Inr c, w1) \<and>
         px_Exec P c (''LISTEN '' @ px_Sanitize P [ChannelOutboxNew]) w1 = (Some x, w2) \<and>
         err = wrapf ''wakeup: listen outbox_new'' x))"

lemma listen_refused:
  assumes "Listener_listen P l w = ((Some err, l'), w')"
  shows "l' = l \<and> cannot_listen P l w err"
proof -
  note f = listen_failed [OF assms]
  obtain y w1 where y: "px_Connect P (ln_dsn l) w = (y, w1)" by (metis prod.exhaust)
  show ?thesis
  proof (cases y)
    case (Inl x)
    with assms f y show ?thesis by (simp add: Listener_listen_def cannot_listen_def)
  next
    case (Inr c)
    obtain e w2 where e: "px_Exec P c (''LISTEN '' @ px_Sanitize P [ChannelOutboxNew]) w1 = (e, w2)"
      by (metis prod.exhaust)
    with assms f y Inr show ?thesis
      by (cases e) (auto simp: Listener_listen_def cannot_listen_def ChannelOutboxNew_def Let_def split: prod.splits)
  qed
qed

text \<open>
  C32: One \<open>Wait\<close>, path by path.  Either no connection was live and none could be built: then the answer
  is that error, and the listener is as it was.  Or it waits once, on the connection that was live or on
  a new one that it has subscribed to the channel.  A notification wakes it, and nothing else does.  If
  the wait ends because the caller's context has ended, or with a deadline, the answer is neither a
  wakeup nor an error, and in all three cases the connection is kept.  Any other error is returned with
  its reason, and the connection is closed and forgotten, so the next \<open>Wait\<close> builds a new one.
\<close>

theorem listener_wait_outcomes:
  assumes "Listener_Wait P l timeout w = (((woken, err), l'), w')"
  shows "(\<exists>x. cannot_listen P l w x \<and> \<not> woken \<and> err = Some x \<and> l' = l) \<or>
    (\<exists>c w1 e w2. subscribed_by P l w c \<and> w1 = snd (Listener_listen P l w) \<and>
      px_WaitForNotification P c timeout w1 = (e, w2) \<and>
      (woken \<longleftrightarrow> e = None) \<and>
      (case e of
         None \<Rightarrow> err = None \<and> ln_conn l' = Some c \<and> w' = w2
       | Some x \<Rightarrow>
           if fst (px_ctx_Err P w2) \<noteq> None \<or> errors_Is x context_DeadlineExceeded
           then err = None \<and> ln_conn l' = Some c \<and> w' = snd (px_ctx_Err P w2)
           else err = Some (wrapf ''wakeup: wait on outbox_new'' x) \<and> ln_conn l' = None \<and>
             \<not> live P l' w' \<and> w' = snd (px_Close P c (snd (px_ctx_Err P w2)))))"
proof -
  obtain e1 l1 w1 where l1: "Listener_listen P l w = ((e1, l1), w1)" by (metis prod.exhaust)
  show ?thesis
  proof (cases e1)
    case (Some x)
    with assms l1 listen_refused [of P l w x l1 w1] show ?thesis by (auto simp: Listener_Wait_def)
  next
    case None
    with l1 obtain c where c: "l1 = l\<lparr>ln_conn := Some c\<rparr>" "subscribed_by P l w c"
      by (metis listen_live)
    obtain e w2 where w2: "px_WaitForNotification P c timeout w1 = (e, w2)" by (metis prod.exhaust)
    obtain y w3 where w3: "px_ctx_Err P w2 = (y, w3)" by (metis prod.exhaust)
    obtain z w4 where w4: "px_Close P c w3 = (z, w4)" by (metis prod.exhaust)
    have run: "Listener_Wait P l timeout w =
      (case e of None \<Rightarrow> (((True, None), l1), w2)
       | Some x \<Rightarrow> if y \<noteq> None then (((False, None), l1), w3)
         else if errors_Is x context_DeadlineExceeded then (((False, None), l1), w3)
         else (((False, Some (wrapf ''wakeup: wait on outbox_new'' x)), l1\<lparr>ln_conn := None\<rparr>), w4))"
      using l1 None c w2 w3 w4
      by (simp add: Listener_Wait_def Listener_drop_def ChannelOutboxNew_def split: option.split)
    show ?thesis
    proof (intro disjI2 exI conjI)
      show "subscribed_by P l w c" "px_WaitForNotification P c timeout w1 = (e, w2)" by fact+
      show "w1 = snd (Listener_listen P l w)" using l1 by simp
      show "woken \<longleftrightarrow> e = None" using run assms by (auto split: option.splits if_splits)
      show "case e of
         None \<Rightarrow> err = None \<and> ln_conn l' = Some c \<and> w' = w2
       | Some x \<Rightarrow>
           if fst (px_ctx_Err P w2) \<noteq> None \<or> errors_Is x context_DeadlineExceeded
           then err = None \<and> ln_conn l' = Some c \<and> w' = snd (px_ctx_Err P w2)
           else err = Some (wrapf ''wakeup: wait on outbox_new'' x) \<and> ln_conn l' = None \<and>
             \<not> live P l' w' \<and> w' = snd (px_Close P c (snd (px_ctx_Err P w2)))"
        using run assms c(1) w3 w4 by (auto simp: live_def split: option.splits if_splits)
    qed
  qed
qed

text \<open>A driver whose first wait times out and whose second loses the connection.\<close>

definition flaky_pgx :: "(nat, nat) pgx" where
  "flaky_pgx =
     \<lparr>px_Connect = (\<lambda>dsn n. (Inr n, Suc n)), px_Exec = (\<lambda>c sql n. (None, Suc n)),
      px_WaitForNotification = (\<lambda>c d n.
        (Some (if n < 3 then context_DeadlineExceeded else Ext ''conn closed''), Suc n)),
      px_QueryUsage = (\<lambda>c sql n. (Inr 0, Suc n)), px_Close = (\<lambda>c n. (None, Suc n)),
      px_IsClosed = (\<lambda>c n. False), px_Sanitize = (\<lambda>ids. concat ids),
      px_ctx_Err = (\<lambda>n. (None, n)), px_log = (\<lambda>l n. n)\<rparr>"

lemma listener_wait_outcomes_witness:
  "let ((a1, l1), n1) = Listener_Wait flaky_pgx (NewListener ''dsn'') 5 0;
       ((a2, l2), n2) = Listener_Wait flaky_pgx l1 5 n1
   in a1 = (False, None) \<and> ln_conn l1 = Some 0 \<and> \<not> fst a2 \<and> snd a2 \<noteq> None \<and> ln_conn l2 = None"
proof -
  have run: "Listener_Wait flaky_pgx (NewListener ''dsn'') 5 0 =
      (((False, None), \<lparr>ln_dsn = ''dsn'', ln_conn = Some 0\<rparr>), 3)"
    "Listener_Wait flaky_pgx \<lparr>ln_dsn = ''dsn'', ln_conn = Some 0\<rparr> 5 3 =
      (((False, Some (wrapf ''wakeup: wait on outbox_new'' (Ext ''conn closed''))),
        \<lparr>ln_dsn = ''dsn'', ln_conn = None\<rparr>), 5)"
    by code_simp+
  from listener_wait_outcomes [OF run(1)] listener_wait_outcomes [OF run(2)] run
  show ?thesis by (auto simp: Let_def)
qed

end
