(* ===== verification/Processes.thy ===== *)
theory Processes
  imports Admin Platform Listener
begin

text \<open>
  The two servers' \<open>main\<close> functions, \<open>cmd/api\<close> and \<open>cmd/relay\<close>: the order of the start-up, what is
  closed on every way out, and the exit status.  The drivers are the records of \<open>Platform\<close> and \<open>Migrations\<close>; \<open>serve\<close> is the group of
  goroutines from its start to the return of \<open>g.Wait()\<close>, applied to the wired parts.
\<close>

definition context_Canceled :: gerr where "context_Canceled = Ext ''context canceled''"

text \<open>\<open>g.Wait()\<close> and what \<open>run\<close> makes of its error.\<close>

definition group_result ::
    "string \<Rightarrow> (log_line \<Rightarrow> 'w \<Rightarrow> 'w) \<Rightarrow> gerr option \<times> 'w \<Rightarrow> gerr option \<times> 'w" where
  "group_result stopped lg result =
     (case result of
        (Some err, w) \<Rightarrow>
          if errors_Is err context_Canceled then (None, lg (line LevelInfo stopped []) w) else (Some err, w)
      | (None, w) \<Rightarrow> (None, lg (line LevelInfo stopped []) w))"

record ('w, 'k, 'p, 'c) process_deps =
  pd_upper :: "string \<Rightarrow> string"
  pd_pgxpool :: "('w, 'k, 'p) pgxpool"
  pd_files :: "string \<Rightarrow> string list"
  pd_numeric :: "string \<Rightarrow> gerr + int"
  pd_new_client :: "kgo_opt list \<Rightarrow> gerr + 'c"
  pd_close_client :: "'c \<Rightarrow> 'w \<Rightarrow> 'w"
  pd_log :: "log_line \<Rightarrow> 'w \<Rightarrow> 'w"

text \<open>Opening the pool, and the deferred \<open>pool.Close()\<close>.\<close>

definition with_pool ::
    "('w, 'k, 'p) pgxpool \<Rightarrow> PoolConfig \<Rightarrow> ('p \<Rightarrow> ('w, gerr option) act) \<Rightarrow> ('w, gerr option) act" where
  "with_pool d c body w =
     (case NewPool d c w of
        (Inl err, w) \<Rightarrow> (Some err, w)
      | (Inr pool, w) \<Rightarrow> (let (result, w) = body pool w in (result, pl_Close d pool w)))"

subsection \<open>The api\<close>

definition api_maxDBConns :: int where "api_maxDBConns = 10"

text \<open>\<open>serve\<close> gets the configuration, the pool and the expected schema version.\<close>

definition api_body ::
    "('w, 'k, 'p, 'c) process_deps \<Rightarrow> (API \<Rightarrow> 'p \<Rightarrow> int \<Rightarrow> ('w, gerr option) act) \<Rightarrow>
     API \<Rightarrow> 'p \<Rightarrow> ('w, gerr option) act" where
  "api_body d serve cfg pool w =
     (case Latest (pd_files d) (pd_numeric d) Accounts of
        Inl err \<Rightarrow> (Some err, w)
      | Inr expected \<Rightarrow>
          (let w = pd_log d (line LevelInfo ''api starting''
                 [(''http'', AStr (api_HTTPAddr cfg)), (''admin'', AStr (api_AdminAddr cfg)),
                  (''expected_schema'', AInt expected)]) w
           in group_result ''api stopped'' (pd_log d) (serve cfg pool expected w)))"

definition api_main ::
    "('w, 'k, 'p, 'c) process_deps \<Rightarrow> (API \<Rightarrow> 'p \<Rightarrow> int \<Rightarrow> ('w, gerr option) act) \<Rightarrow>
     (string \<Rightarrow> string) \<Rightarrow> ('w, gerr option) act" where
  "api_main d serve getenv w =
     (case LoadAPI (pd_upper d) getenv of
        Inl err \<Rightarrow> (Some err, w)
      | Inr cfg \<Rightarrow>
          with_pool (pd_pgxpool d) (DefaultPoolConfig (api_AccountsDatabaseURL cfg) api_maxDBConns)
            (api_body d serve cfg) w)"

subsection \<open>The relay\<close>

definition relay_maxDBConns :: int where "relay_maxDBConns = 5"

text \<open>
  \<open>wakeupFor\<close>: the waiter, and the function that closes it.  \<open>close_listener\<close> is the deferred call
  of \<open>Listener.Close\<close> with its time limit of a second.
\<close>

definition wakeupFor ::
    "(log_line \<Rightarrow> 'w \<Rightarrow> 'w) \<Rightarrow> ('w, gerr option) act \<Rightarrow> RelayConfig \<Rightarrow> 'w \<Rightarrow>
     nat Listener option \<times> ('w \<Rightarrow> 'w) \<times> 'w" where
  "wakeupFor lg close_listener cfg w =
     (if \<not> cf_UseNotify cfg
      then (None, (\<lambda>w. w), lg (line LevelInfo ''RELAY_USE_NOTIFY=false; polling only, no LISTEN connection'' []) w)
      else (Some (NewListener (cf_AccountsDatabaseURL cfg)),
            (\<lambda>w. case close_listener w of
                (Some err, w) \<Rightarrow> lg (line LevelWarn ''closing the listen connection'' [(''error'', AErr err)]) w
              | (None, w) \<Rightarrow> w), w))"

definition relay_body ::
    "('w, 'k, 'p, 'c) process_deps \<Rightarrow> ('w, gerr option) act \<Rightarrow>
     (RelayConfig \<Rightarrow> 'p \<Rightarrow> 'c \<Rightarrow> nat Listener option \<Rightarrow> int \<Rightarrow> ('w, gerr option) act) \<Rightarrow>
     RelayConfig \<Rightarrow> 'p \<Rightarrow> ('w, gerr option) act" where
  "relay_body d close_listener serve cfg pool w =
     (case Latest (pd_files d) (pd_numeric d) Accounts of
        Inl err \<Rightarrow> (Some err, w)
      | Inr expected \<Rightarrow>
          (case NewProducer (pd_new_client d) (DefaultProducerConfig (cf_KafkaBrokers cfg)) of
             Inl err \<Rightarrow> (Some err, w)
           | Inr client \<Rightarrow>
               (let (wake, closeWake, w) = wakeupFor (pd_log d) close_listener cfg w;
                    w = pd_log d (line LevelInfo ''relay starting''
                      [(''admin'', AStr (cf_AdminAddr cfg)), (''brokers'', AStrs (cf_KafkaBrokers cfg)),
                       (''topic'', AStr (cf_KafkaTopic cfg)), (''use_notify'', ABool (cf_UseNotify cfg)),
                       (''expected_schema'', AInt expected)]) w;
                    (result, w) = group_result ''relay stopped'' (pd_log d)
                      (serve cfg pool client wake expected w)
                in (result, pd_close_client d client (closeWake w)))))"

definition relay_main ::
    "('w, 'k, 'p, 'c) process_deps \<Rightarrow> ('w, gerr option) act \<Rightarrow>
     (RelayConfig \<Rightarrow> 'p \<Rightarrow> 'c \<Rightarrow> nat Listener option \<Rightarrow> int \<Rightarrow> ('w, gerr option) act) \<Rightarrow>
     (string \<Rightarrow> string) \<Rightarrow> ('w, gerr option) act" where
  "relay_main d close_listener serve getenv w =
     (case LoadRelay (pd_upper d) getenv of
        Inl err \<Rightarrow> (Some err, w)
      | Inr cfg \<Rightarrow>
          with_pool (pd_pgxpool d) (DefaultPoolConfig (cf_AccountsDatabaseURL cfg) relay_maxDBConns)
            (relay_body d close_listener serve cfg) w)"

subsection \<open>Every way out closes the pool\<close>

text \<open>What is relied on of the driver: a pool counts as open from its creation to its \<open>Close\<close>.\<close>

definition pool_accounting :: "('w, 'k, 'p) pgxpool \<Rightarrow> ('w \<Rightarrow> int) \<Rightarrow> bool" where
  "pool_accounting d opened \<longleftrightarrow>
     (\<forall>k w. opened (snd (pl_NewWithConfig d k w)) =
        opened w + (case fst (pl_NewWithConfig d k w) of Inl _ \<Rightarrow> 0 | Inr _ \<Rightarrow> 1)) \<and>
     (\<forall>p w. opened (snd (pl_Ping d p w)) = opened w) \<and>
     (\<forall>p w. opened (pl_Close d p w) = opened w - 1)"

definition keeps_count :: "('w \<Rightarrow> int) \<Rightarrow> ('w \<Rightarrow> 'w) \<Rightarrow> bool" where
  "keeps_count opened f \<longleftrightarrow> (\<forall>w. opened (f w) = opened w)"

lemma NewPool_count:
  assumes "pool_accounting d opened" "NewPool d c w = (x, w')"
  shows "opened w' = opened w + (case x of Inl _ \<Rightarrow> 0 | Inr _ \<Rightarrow> 1)"
proof -
  have new: "opened w' = opened w + (case y of Inl _ \<Rightarrow> 0 | Inr _ \<Rightarrow> 1)"
    if "pl_NewWithConfig d k w = (y, w')" for k w y w'
    using assms(1) that unfolding pool_accounting_def by (metis fst_conv snd_conv)
  have ping: "opened w' = opened w" if "pl_Ping d p w = (e, w')" for p w e w'
    using assms(1) that unfolding pool_accounting_def by (metis snd_conv)
  have close: "opened (pl_Close d p w) = opened w - 1" for p w
    using assms(1) unfolding pool_accounting_def by blast
  show ?thesis
    using assms(2)
    by (auto simp: NewPool_def close dest!: new ping split: option.splits sum.splits prod.splits)
qed

lemma group_result_count:
  assumes "\<forall>l. keeps_count opened (lg l)"
  shows "opened (snd (group_result m lg r)) = opened (snd r)"
  using assms by (auto simp: group_result_def keeps_count_def split: prod.splits option.splits)

lemma with_pool_count:
  assumes "pool_accounting d opened" "\<And>p v. opened (snd (body p v)) = opened v"
  shows "opened (snd (with_pool d c body w)) = opened w"
proof -
  obtain x w1 where pool: "NewPool d c w = (x, w1)" by (metis prod.exhaust)
  have close: "opened (pl_Close d p v) = opened v - 1" for p v
    using assms(1) by (simp add: pool_accounting_def)
  show ?thesis
    using NewPool_count [OF assms(1) pool]
    by (cases x) (simp_all add: with_pool_def pool close assms(2) case_prod_unfold Let_def)
qed

lemma wakeupFor_count:
  assumes "\<forall>l. keeps_count opened (lg l)" "keeps_count opened (\<lambda>w. snd (close_listener w))"
    and "wakeupFor lg close_listener cfg v = (l, f, w')"
  shows "opened w' = opened v \<and> (\<forall>u. opened (f u) = opened u)"
proof -
  have lg: "opened (lg l v) = opened v" for l v using assms(1) by (simp add: keeps_count_def)
  have li: "opened u' = opened u" if "close_listener u = (e, u')" for u e u'
    using assms(2) that by (metis keeps_count_def snd_conv)
  show ?thesis
    using assms(3) by (auto simp: wakeupFor_def lg dest!: li split: if_splits prod.splits option.splits)
qed

text \<open>
  C37: The processes leak no pool.  Whatever step of the start-up of the api or of the relay fails, and
  however its goroutines end, \<open>run\<close> returns with as many pools open as before; and a configuration
  that is refused has touched nothing.
\<close>

theorem servers_close_their_pools:
  assumes "pool_accounting (pd_pgxpool d) opened" "\<forall>l. keeps_count opened (pd_log d l)"
    and "\<forall>c. keeps_count opened (pd_close_client d c)" "keeps_count opened (\<lambda>w. snd (close_listener w))"
    and "\<forall>cfg p c l v. keeps_count opened (\<lambda>w. snd (serve cfg p c l v w))"
    and "\<forall>cfg p v. keeps_count opened (\<lambda>w. snd (api_serve cfg p v w))"
  shows "opened (snd (relay_main d close_listener serve getenv w)) = opened w \<and>
    opened (snd (api_main d api_serve getenv w)) = opened w \<and>
    (\<forall>err. LoadRelay (pd_upper d) getenv = Inl err \<longrightarrow>
      relay_main d close_listener serve getenv w = (Some err, w)) \<and>
    (\<forall>err. LoadAPI (pd_upper d) getenv = Inl err \<longrightarrow> api_main d api_serve getenv w = (Some err, w))"
proof -
  have lg: "opened (pd_log d l v) = opened v" for l v using assms(2) by (simp add: keeps_count_def)
  have cl: "opened (pd_close_client d c v) = opened v" for c v using assms(3) by (simp add: keeps_count_def)
  have gr: "opened w' = opened v" if "group_result m (pd_log d) (f v) = (x, w')" "keeps_count opened (\<lambda>w. snd (f w))"
    for m f v x w'
    using group_result_count [OF assms(2), of m "f v"] that by (simp add: keeps_count_def)
  have relay: "opened (snd (relay_body d close_listener serve cfg p v)) = opened v" for cfg p v
    by (auto simp: relay_body_def Let_def lg cl assms(5) split: sum.splits prod.splits
        dest!: wakeupFor_count [OF assms(2,4)] gr)
  have api: "opened (snd (api_body d api_serve cfg p v)) = opened v" for cfg p v
    using group_result_count [OF assms(2)] assms(6) lg
    by (simp add: api_body_def Let_def keeps_count_def split: sum.splits)
  note pool = with_pool_count [OF assms(1)]
  show ?thesis
    by (cases "LoadRelay (pd_upper d) getenv"; cases "LoadAPI (pd_upper d) getenv")
      (simp_all add: relay_main_def api_main_def pool [OF relay] pool [OF api])
qed

text \<open>A driver that counts the open pools and the pools ever opened; the relay is stopped by a signal.\<close>

definition counting_deps :: "(int \<times> nat, unit, unit, unit) process_deps" where
  "counting_deps =
     \<lparr>pd_upper = (\<lambda>s. s),
      pd_pgxpool = \<lparr>pl_ParseConfig = (\<lambda>dsn. Inr ()), pl_tune = (\<lambda>c k. k),
        pl_NewWithConfig = (\<lambda>k (n, all). (Inr (), (n + 1, Suc all))),
        pl_Ping = (\<lambda>p w. (None, w)), pl_Close = (\<lambda>p (n, all). (n - 1, all))\<rparr>,
      pd_files = (\<lambda>d. [''00001_create.sql'']), pd_numeric = (\<lambda>f. Inr 1),
      pd_new_client = (\<lambda>opts. Inr ()), pd_close_client = (\<lambda>c w. w), pd_log = (\<lambda>l w. w)\<rparr>"

definition one_url :: "string \<Rightarrow> string" where
  "one_url k = (if k = ''ACCOUNTS_DATABASE_URL'' then ''db'' else if k = ''KAFKA_BROKERS'' then ''a'' else [])"

lemma servers_close_their_pools_witness:
  "relay_main counting_deps (\<lambda>w. (None, w)) (\<lambda>cfg p c l v w. (Some context_Canceled, w)) one_url (0, 0) = (None, (0, 1)) \<and>
   fst (snd (api_main counting_deps (\<lambda>cfg p v w. (None, w)) one_url (0, 0))) = 0"
proof -
  have acc: "pool_accounting (pd_pgxpool counting_deps) fst"
    by (simp add: pool_accounting_def counting_deps_def split: prod.splits)
  have "\<forall>l. keeps_count fst (pd_log counting_deps l)" "\<forall>c. keeps_count fst (pd_close_client counting_deps c)"
    "keeps_count fst (\<lambda>w. snd (None, w))" "keeps_count fst (\<lambda>w. snd (x, w))" for x :: "gerr option"
    by (simp_all add: keeps_count_def counting_deps_def)
  then have "fst (snd (relay_main counting_deps (\<lambda>w. (None, w)) (\<lambda>cfg p c l v w. (Some context_Canceled, w)) one_url (0, 0))) = 0 \<and>
    fst (snd (api_main counting_deps (\<lambda>cfg p v w. (None, w)) one_url (0, 0))) = 0"
    using servers_close_their_pools [OF acc, of "\<lambda>w. (None, w)" "\<lambda>cfg p c l v w. (Some context_Canceled, w)"
        "\<lambda>cfg p v w. (None, w)" one_url "(0, 0)"] by (simp add: keeps_count_def)
  moreover have "relay_main counting_deps (\<lambda>w. (None, w)) (\<lambda>cfg p c l v w. (Some context_Canceled, w)) one_url (0, 0) =
    (None, (0, 1))"
  proof -
    have "case LoadRelay (\<lambda>s. s) one_url of Inl _ \<Rightarrow> False
      | Inr cfg \<Rightarrow> cf_AccountsDatabaseURL cfg = ''db'' \<and> cf_KafkaBrokers cfg = [''a'']" by code_simp
    then obtain cfg where cfg: "LoadRelay (\<lambda>s. s) one_url = Inr cfg" "cf_AccountsDatabaseURL cfg = ''db''"
      "cf_KafkaBrokers cfg = [''a'']" by (auto split: sum.splits)
    have "TrimSpace ''a'' \<noteq> []" by code_simp
    then have producer: "validate_producer (DefaultProducerConfig [''a'']) = None"
      by (simp add: validate_producer_iff DefaultProducerConfig_def)
    have pool: "validate_pool (DefaultPoolConfig ''db'' relay_maxDBConns) = None"
      by (simp add: validate_pool_iff pool_ok_def DefaultPoolConfig_def relay_maxDBConns_def)
    have latest: "Latest (\<lambda>d. [''00001_create.sql'']) (\<lambda>f. Inr 1) Accounts = Inr 1" by code_simp
    have canceled: "errors_Is context_Canceled context_Canceled" by code_simp
    show ?thesis
      by (simp add: relay_main_def counting_deps_def cfg with_pool_def NewPool_def pool relay_body_def latest
          NewProducer_def producer wakeupFor_def group_result_def canceled Let_def split: prod.splits)
  qed
  ultimately show ?thesis by blast
qed

end
