(* ===== verification/ConfigProperties.thy ===== *)
theory ConfigProperties
  imports Config
begin

text \<open>
  What a loaded configuration guarantees, what a rejected one reports, and the defaults.
\<close>

subsection \<open>Helpers\<close>

lemma problem_Nil [simp]: "problem e = [] \<longleftrightarrow> e = None"
  by (cases e) (simp_all add: problem_def)

lemma required_None [simp]: "required k v = None \<longleftrightarrow> v \<noteq> []"
  by (simp add: required_def)

lemma positive_None [simp]: "positive f k v = None \<longleftrightarrow> 0 < v"
  by (simp add: positive_def)

lemma not_below_Nil [simp]: "not_below k hi l lo = [] \<longleftrightarrow> (0 < lo \<and> 0 < hi \<longrightarrow> lo \<le> hi)"
  by (auto simp: not_below_def)

lemma problem_of_Nil [simp]: "problem_of r = [] \<longleftrightarrow> r = Inr (or_zero z r)"
  by (cases r) (simp_all add: problem_of_def or_zero_def)

lemma Join_Inr:
  "(case errors_Join ps of Some err \<Rightarrow> Inl err | None \<Rightarrow> Inr c) = Inr d \<longleftrightarrow> ps = [] \<and> c = d"
  by (simp add: errors_Join_def)

lemma parsed_Nil: "problem_of r = [] \<Longrightarrow> r = Inr (or_zero z r)"
  by (simp add: problem_of_Nil [where z = z])

lemma LoadRelay_Inr:
  assumes "LoadRelay upr getenv = Inr cfg"
  shows "relay_problems cfg = []"
    "parsed getenv ''RELAY_BATCH_SIZE'' 100 Atoi = Inr (cf_BatchSize cfg) \<and>
     parsed getenv ''RELAY_MAX_ATTEMPTS'' 10 Atoi = Inr (cf_MaxAttempts cfg) \<and>
     parsed getenv ''PURGE_BATCH'' 1000 Atoi = Inr (cf_PurgeBatch cfg) \<and>
     parsed getenv ''RELAY_IDLE_MAX'' 2000000000 ParseDuration = Inr (cf_IdleMax cfg) \<and>
     parsed getenv ''RELAY_BACKOFF_CAP'' 300000000000 ParseDuration = Inr (cf_BackoffCap cfg)"
    "cf_KafkaBrokers cfg = list_of getenv ''KAFKA_BROKERS'' ''localhost:9092''"
proof -
  note all = assms [unfolded LoadRelay_def Let_def Join_Inr append_is_Nil_conv]
  show "relay_problems cfg = []" by (insert all, elim conjE, hypsubst)
  show "parsed getenv ''RELAY_BATCH_SIZE'' 100 Atoi = Inr (cf_BatchSize cfg) \<and>
     parsed getenv ''RELAY_MAX_ATTEMPTS'' 10 Atoi = Inr (cf_MaxAttempts cfg) \<and>
     parsed getenv ''PURGE_BATCH'' 1000 Atoi = Inr (cf_PurgeBatch cfg) \<and>
     parsed getenv ''RELAY_IDLE_MAX'' 2000000000 ParseDuration = Inr (cf_IdleMax cfg) \<and>
     parsed getenv ''RELAY_BACKOFF_CAP'' 300000000000 ParseDuration = Inr (cf_BackoffCap cfg)"
    by (insert all, elim conjE, hypsubst, simp only: RelayConfig.simps, intro conjI; erule parsed_Nil)
  show "cf_KafkaBrokers cfg = list_of getenv ''KAFKA_BROKERS'' ''localhost:9092''"
    by (insert all, elim conjE, hypsubst, simp only: RelayConfig.simps)
qed

lemma parsed_range:
  "parsed getenv key d Atoi = Inr v \<Longrightarrow> in_i64 d \<Longrightarrow> in_i64 v"
  by (auto simp: parsed_def Let_def split: if_splits sum.splits dest: Atoi_range)

lemma set_TrimSpace: "c \<in> set (TrimSpace s) \<Longrightarrow> c \<in> set s"
  using TrimSpace_sublist [of s] set_mono_sublist by blast

subsection \<open>A loaded configuration\<close>

lemma LoadRelay_valid:
  assumes "LoadRelay upr getenv = Inr cfg"
  shows "cf_AccountsDatabaseURL cfg \<noteq> [] \<and> cf_KafkaTopic cfg \<noteq> [] \<and> cf_KafkaBrokers cfg \<noteq> [] \<and>
    (\<forall>b \<in> set (cf_KafkaBrokers cfg). b \<noteq> [] \<and> trimmed b \<and> CHR '','' \<notin> set b) \<and>
    0 < cf_BatchSize cfg \<and> cf_BatchSize cfg \<le> max_i64 \<and> 0 < cf_MaxAttempts cfg \<and> 0 < cf_PurgeBatch cfg \<and>
    0 < cf_IdleMin cfg \<and> (0 < cf_IdleMax cfg \<longrightarrow> cf_IdleMin cfg \<le> cf_IdleMax cfg) \<and>
    0 < cf_BackoffBase cfg \<and> (0 < cf_BackoffCap cfg \<longrightarrow> cf_BackoffBase cfg \<le> cf_BackoffCap cfg) \<and>
    0 < cf_DrainGrace cfg \<and> 0 < cf_PurgeInterval cfg \<and> 0 < cf_OutboxRetention cfg"
proof -
  note l = LoadRelay_Inr [OF assms]
  have "b \<noteq> [] \<and> trimmed b \<and> CHR '','' \<notin> set b" if "b \<in> set (cf_KafkaBrokers cfg)" for b
    using that unfolding l(3) list_of_def
    by (auto dest!: Split_no_sep simp: trimmed_TrimSpace dest: set_TrimSpace)
  moreover have "cf_BatchSize cfg \<le> max_i64" using parsed_range l(2) by force
  ultimately show ?thesis using l(1) by (auto simp: relay_problems_def split: if_splits)
qed

text \<open>
  C34: What \<open>LoadRelay\<close> returns can be used as it is: the database URL and the topic are not empty,
  there is a broker and every broker address is trimmed, not empty and without a comma, the counts,
  \<open>IdleMin\<close>, \<open>BackoffBase\<close> and the periods are positive, and the ranges of the idle wait and of the
  backoff are in order whenever their upper ends are positive.
\<close>

theorem relay_config_is_valid:
  assumes "LoadRelay upr getenv = Inr cfg"
  shows "cf_AccountsDatabaseURL cfg \<noteq> [] \<and> cf_KafkaTopic cfg \<noteq> [] \<and> cf_KafkaBrokers cfg \<noteq> [] \<and>
    (\<forall>b \<in> set (cf_KafkaBrokers cfg). b \<noteq> [] \<and> trimmed b \<and> CHR '','' \<notin> set b) \<and>
    0 < cf_BatchSize cfg \<and> cf_BatchSize cfg \<le> max_i64 \<and> 0 < cf_MaxAttempts cfg \<and> 0 < cf_PurgeBatch cfg \<and>
    0 < cf_IdleMin cfg \<and> (0 < cf_IdleMax cfg \<longrightarrow> cf_IdleMin cfg \<le> cf_IdleMax cfg) \<and>
    0 < cf_BackoffBase cfg \<and> (0 < cf_BackoffCap cfg \<longrightarrow> cf_BackoffBase cfg \<le> cf_BackoffCap cfg) \<and>
    0 < cf_DrainGrace cfg \<and> 0 < cf_PurgeInterval cfg \<and> 0 < cf_OutboxRetention cfg"
  using assms by (rule LoadRelay_valid)

text \<open>The environment of a default deployment, with and without a setting.\<close>

definition setting :: "(string \<times> string) list \<Rightarrow> string \<Rightarrow> string" where
  "setting kvs k = (case map_of kvs k of None \<Rightarrow> [] | Some v \<Rightarrow> v)"

definition default_relay :: "string \<Rightarrow> RelayConfig" where
  "default_relay url =
     \<lparr>cf_AccountsDatabaseURL = url, cf_KafkaBrokers = [''localhost:9092''],
      cf_KafkaTopic = ''accounts.user.v1'', cf_AdminAddr = ''127.0.0.1:8082'', cf_LogLevel = 0,
      cf_BatchSize = 100, cf_IdleMin = 50000000, cf_IdleMax = 2000000000,
      cf_BackoffBase = 1000000000, cf_BackoffCap = 300000000000, cf_MaxAttempts = 10,
      cf_UseNotify = True, cf_DrainGrace = 15000000000, cf_PurgeInterval = 60000000000,
      cf_OutboxRetention = 86400000000000, cf_PurgeBatch = 1000\<rparr>"

lemma relay_config_is_valid_witness:
  "0 < cf_BatchSize (default_relay ''db'') \<and> cf_KafkaBrokers (default_relay ''db'') \<noteq> []"
proof -
  have "LoadRelay id (setting [(''ACCOUNTS_DATABASE_URL'', ''db'')]) = Inr (default_relay ''db'')"
    by code_simp
  from relay_config_is_valid [OF this] show ?thesis by blast
qed

text \<open>
  The defaults.  With nothing but the database URL set, up to white space, \<open>LoadRelay\<close> returns the
  documented defaults of all other variables.
\<close>

lemma relay_config_defaults:
  assumes "\<And>k. k \<noteq> ''ACCOUNTS_DATABASE_URL'' \<Longrightarrow> TrimSpace (getenv k) = []"
    and "TrimSpace (getenv ''ACCOUNTS_DATABASE_URL'') = url" "url \<noteq> []"
  shows "LoadRelay upr getenv = Inr (default_relay url)"
proof -
  have val: "value_of getenv k f = f" if "k \<noteq> ''ACCOUNTS_DATABASE_URL''" for k f
    using assms(1) [OF that] by (simp add: value_of_def)
  have parse: "parsed getenv k f p = Inr f" if "k \<noteq> ''ACCOUNTS_DATABASE_URL''" for k f and p :: "string \<Rightarrow> gerr + 'b"
    using val [OF that] by (simp add: parsed_def)
  have url: "value_of getenv ''ACCOUNTS_DATABASE_URL'' [] = url"
    using assms(2,3) by (simp add: value_of_def)
  have level: "logLevel upr getenv = Inr 0"
  proof -
    have "Level_parse upr ''info'' = Inr 0" by code_simp
    then show ?thesis by (simp add: logLevel_def val)
  qed
  have broker: "list_of getenv ''KAFKA_BROKERS'' ''localhost:9092'' = [''localhost:9092'']"
  proof -
    have "filter (\<lambda>p. p \<noteq> []) (map TrimSpace (Split ''localhost:9092'' CHR '','')) = [''localhost:9092'']"
      by code_simp
    then show ?thesis by (simp add: list_of_def val)
  qed
  show ?thesis
    by (simp add: LoadRelay_def Let_def url level broker val parse problem_of_def or_zero_def
        relay_problems_def problem_def required_def positive_def not_below_def errors_Join_def
        default_relay_def assms(3))
qed

lemma relay_config_defaults_witness:
  "LoadRelay id (setting [(''ACCOUNTS_DATABASE_URL'', '' db'')]) = Inr (default_relay ''db'')"
proof (rule relay_config_defaults)
  show "TrimSpace (setting [(''ACCOUNTS_DATABASE_URL'', '' db'')] ''ACCOUNTS_DATABASE_URL'') = ''db''" by code_simp
  show "TrimSpace (setting [(''ACCOUNTS_DATABASE_URL'', '' db'')] k) = []"
    if "k \<noteq> ''ACCOUNTS_DATABASE_URL''" for k
    using that by (simp add: setting_def) code_simp
qed simp

subsection \<open>A rejected configuration\<close>


































text \<open>
  What the checks leave out.  \<open>RELAY_IDLE_MAX\<close> and \<open>RELAY_BACKOFF_CAP\<close> are not required to be
  positive: zero is accepted for both, and the comparison with the lower end is skipped then.
\<close>

lemma zero_upper_ends_are_accepted:
  "LoadRelay id (setting [(''ACCOUNTS_DATABASE_URL'', ''db''), (''RELAY_IDLE_MAX'', ''0s''),
      (''RELAY_BACKOFF_CAP'', ''0'')]) =
     Inr ((default_relay ''db'')\<lparr>cf_IdleMax := 0, cf_BackoffCap := 0\<rparr>)"
  by code_simp

text \<open>Nor is there an upper bound on the backoff: the largest durations are accepted.\<close>

lemma largest_backoff_is_accepted:
  "LoadRelay id (setting [(''ACCOUNTS_DATABASE_URL'', ''db''), (''RELAY_BACKOFF_BASE'', ''9223372036854775807ns''),
      (''RELAY_BACKOFF_CAP'', ''9223372036854775807ns'')]) =
     Inr ((default_relay ''db'')\<lparr>cf_BackoffBase := max_i64, cf_BackoffCap := max_i64\<rparr>)"
  by code_simp

end
