(* ===== verification/Purge.thy ===== *)
theory Purge
  imports RelayOutbox SampleWorld
begin

text \<open>
  The purge of published rows, \<open>internal/accounts/application/purge_published.go\<close>: a loop of
  bounded deletes that ends with the first short page.  The loop may not end (a batch size of zero
  never gets a short page), so it is a partial function; the contract of its port, interpreted on
  the PostgreSQL adapter, gives its termination for a positive batch size.
\<close>

subsection \<open>The use case\<close>

type_synonym 'w OutboxPurger = "duration \<Rightarrow> int \<Rightarrow> ('w, gerr + int) act"

record PurgeResult =
  Deleted :: int
  Passes :: int

record 'w PurgePublished =
  pp_outbox :: "'w OutboxPurger"
  pp_retention :: duration
  pp_batch :: int

definition NewPurgePublished :: "'w OutboxPurger \<Rightarrow> duration \<Rightarrow> int \<Rightarrow> 'w PurgePublished" where
  "NewPurgePublished outbox retention batch =
     \<lparr>pp_outbox = outbox, pp_retention = retention, pp_batch = batch\<rparr>"

definition page_done :: "PurgeResult \<Rightarrow> int \<Rightarrow> PurgeResult" where
  "page_done res deleted = res\<lparr>Deleted := Deleted res + deleted, Passes := Passes res + 1\<rparr>"

text \<open>\<open>ctx\<close> is \<open>ctx.Err()\<close>.  The value \<open>None\<close> is a loop that does not end.\<close>

partial_function (option) purge_loop ::
    "'w PurgePublished \<Rightarrow> ('w, gerr option) act \<Rightarrow> PurgeResult \<Rightarrow> 'w \<Rightarrow>
     ((PurgeResult \<times> gerr option) \<times> 'w) option" where
  "purge_loop uc ctx res w =
     (case ctx w of
        (Some err, w) \<Rightarrow> Some ((res, Some err), w)
      | (None, w) \<Rightarrow>
          (case pp_outbox uc (pp_retention uc) (pp_batch uc) w of
             (Inl err, w) \<Rightarrow> Some ((res, Some err), w)
           | (Inr deleted, w) \<Rightarrow>
               if deleted < pp_batch uc then Some ((page_done res deleted, None), w)
               else purge_loop uc ctx (page_done res deleted) w))"

declare purge_loop.simps [code]

definition PurgePublished_Execute ::
    "'w PurgePublished \<Rightarrow> ('w, gerr option) act \<Rightarrow> 'w \<Rightarrow> ((PurgeResult \<times> gerr option) \<times> 'w) option" where
  "PurgePublished_Execute uc ctx w = purge_loop uc ctx \<lparr>Deleted = 0, Passes = 0\<rparr> w"

subsection \<open>The contract of the port\<close>

text \<open>
  \<open>rows\<close> is the size of the table.  A page that succeeds removes as many rows as it says; a page
  that fails may have removed some; nothing adds a row.
\<close>

locale purger =
  fixes uc :: "'w PurgePublished" and ctx :: "('w, gerr option) act" and rows :: "'w \<Rightarrow> nat"
  assumes ctx_rows: "ctx w = (x, w') \<Longrightarrow> rows w' = rows w"
    and page: "pp_outbox uc (pp_retention uc) (pp_batch uc) w = (Inr d, w') \<Longrightarrow>
          0 \<le> d \<and> int (rows w) = int (rows w') + d"
    and failed_page: "pp_outbox uc (pp_retention uc) (pp_batch uc) w = (Inl e, w') \<Longrightarrow> rows w' \<le> rows w"
begin

lemma loop_ends:
  assumes "0 < pp_batch uc"
  shows "\<exists>res' err w'. purge_loop uc ctx res w = Some ((res', err), w') \<and>
    Passes res' \<le> Passes res + int (rows w) div pp_batch uc + 1 \<and>
    Deleted res' \<le> Deleted res + (int (rows w) - int (rows w')) \<and>
    (err = None \<longrightarrow> Deleted res' = Deleted res + (int (rows w) - int (rows w')))"
proof (induction "rows w" arbitrary: res w rule: less_induct)
  case less
  obtain x w1 where x: "ctx w = (x, w1)" by (metis prod.exhaust)
  note r1 = ctx_rows [OF x]
  have div: "0 \<le> int (rows w) div pp_batch uc" using assms by (simp add: pos_imp_zdiv_nonneg_iff)
  show ?case
  proof (cases x)
    case (Some e)
    with x r1 div show ?thesis by (simp add: purge_loop.simps [of uc ctx res w])
  next
    case None
    obtain y w2 where y: "pp_outbox uc (pp_retention uc) (pp_batch uc) w1 = (y, w2)"
      by (metis prod.exhaust)
    show ?thesis
    proof (cases y)
      case (Inl e)
      with y failed_page have "rows w2 \<le> rows w1" by simp
      with Inl y x None r1 div show ?thesis by (simp add: purge_loop.simps [of uc ctx res w])
    next
      case (Inr d)
      with y page have d: "0 \<le> d" "int (rows w1) = int (rows w2) + d" by simp_all
      show ?thesis
      proof (cases "d < pp_batch uc")
        case True
        with Inr y x None r1 d div show ?thesis
          by (simp add: purge_loop.simps [of uc ctx res w] page_done_def)
      next
        case False
        then have lt: "rows w2 < rows w" using d r1 assms by linarith
        have le: "int (rows w2) \<le> int (rows w) - pp_batch uc" using False d r1 by linarith
        have "int (rows w2) div pp_batch uc + 1 = (int (rows w2) + pp_batch uc) div pp_batch uc"
          using assms by simp
        also have "\<dots> \<le> int (rows w) div pp_batch uc"
          using le assms by (intro zdiv_mono1) simp_all
        finally have "int (rows w2) div pp_batch uc + 1 \<le> int (rows w) div pp_batch uc" .
        with less [OF lt, of "page_done res d"] False Inr y x None d r1 show ?thesis
          by (fastforce simp: purge_loop.simps [of uc ctx res w] page_done_def)
      qed
    qed
  qed
qed

end

subsection \<open>The contract holds of the adapter\<close>

definition purge_use_case :: "duration \<Rightarrow> int \<Rightarrow> world PurgePublished" where
  "purge_use_case retention batch = NewPurgePublished OutboxPurger_PurgePublished retention batch"

lemma purge_use_case_simps [port_simps]:
  "pp_outbox (purge_use_case r b) = OutboxPurger_PurgePublished"
  "pp_retention (purge_use_case r b) = r" "pp_batch (purge_use_case r b) = b"
  by (simp_all add: purge_use_case_def NewPurgePublished_def)

lemma ctx_Err_frame: "ctx_Err w = (x, w') \<Longrightarrow> w' = tick w"
  by (simp add: ctx_Err_def)

text \<open>A page either leaves the table alone or filters out the selected rows.\<close>

lemma purge_page:
  assumes "OutboxPurger_PurgePublished retention limit w = (x, w')"
  obtains (none) e where "x = Inl e" "w' = tick w"
  | (page) ids where "0 \<le> limit"
      "ids = purge_ids (env_pg_clock (w_env w) (w_tick w) - env_interval (w_env w) (Seconds retention)) limit (w_outbox w)"
      "w' = (tick w)\<lparr>w_outbox := filter (\<lambda>r. row_id r \<notin> set ids) (w_outbox w)\<rparr>"
      "\<And>d. x = Inr d \<Longrightarrow> d = int (length (w_outbox w)) - int (length (w_outbox w'))"
  using assms
  by (fastforce simp: OutboxPurger_PurgePublished_def on_pool_def purgePublished_def Let_def
      split: pg_reply.splits sum.splits prod.splits if_splits)

interpretation purge: purger "purge_use_case retention batch" ctx_Err "\<lambda>w. length (w_outbox w)"
  for retention batch
proof (unfold_locales, unfold port_simps)
  fix w w' x
  assume "ctx_Err w = (x, w')"
  then show "length (w_outbox w') = length (w_outbox w)" by (auto simp: ctx_Err_def)
next
  fix w w' d
  assume "OutboxPurger_PurgePublished retention batch w = (Inr d, w')"
  then show "0 \<le> d \<and> int (length (w_outbox w)) = int (length (w_outbox w')) + d"
    by (cases rule: purge_page) auto
next
  fix w w' e
  assume "OutboxPurger_PurgePublished retention batch w = (Inl e, w')"
  then show "length (w_outbox w') \<le> length (w_outbox w)"
    by (cases rule: purge_page) auto
qed

subsection \<open>What a purge removes\<close>

definition expired :: "duration \<Rightarrow> env \<Rightarrow> nat \<Rightarrow> outbox_row \<Rightarrow> bool" where
  "expired retention E n r \<longleftrightarrow> purgeable (env_pg_clock E n - env_interval E (Seconds retention)) r"

definition purged :: "duration \<Rightarrow> world \<Rightarrow> world \<Rightarrow> bool" where
  "purged retention w w' \<longleftrightarrow>
     w_env w' = w_env w \<and> w_users w' = w_users w \<and> w_broker w' = w_broker w \<and> w_seq w' = w_seq w \<and>
     subseq (w_outbox w') (w_outbox w) \<and>
     (\<forall>r \<in> set (w_outbox w). r \<notin> set (w_outbox w') \<longrightarrow> (\<exists>n. expired retention (w_env w) n r))"

lemma purged_refl: "same_db w w' \<Longrightarrow> w_broker w' = w_broker w \<Longrightarrow> w_seq w' = w_seq w \<Longrightarrow> purged retention w w'"
  by (simp add: purged_def same_db_def)

lemma purged_trans: "purged retention w v \<Longrightarrow> purged retention v w' \<Longrightarrow> purged retention w w'"
  by (auto simp: purged_def intro: subseq_order.trans)

lemma subseq_distinct_map: "subseq xs ys \<Longrightarrow> distinct (map f ys) \<Longrightarrow> distinct (map f xs)"
  by (induction rule: list_emb.induct) (auto dest: list_emb_set)

lemma set_purge_ids:
  "i \<in> set (purge_ids before limit rows) \<Longrightarrow> \<exists>r \<in> set rows. row_id r = i \<and> purgeable before r"
  unfolding purge_ids_def by (drule in_set_takeD) auto

lemma page_purged:
  assumes "OutboxPurger_PurgePublished retention limit w = (x, w')"
    and d: "distinct (map row_id (w_outbox w))"
  shows "purged retention w w'"
  using assms(1)
proof (cases rule: purge_page)
  case (none e)
  then show ?thesis by (intro purged_refl) (simp_all add: same_db_def)
next
  case (page ids)
  have "expired retention (w_env w) (w_tick w) r"
    if r: "r \<in> set (w_outbox w)" "r \<notin> set (w_outbox w')" for r
  proof -
    from r page(3) have "row_id r \<in> set ids" by auto
    with page(2) obtain r' where r': "r' \<in> set (w_outbox w)" "row_id r' = row_id r"
        "purgeable (env_pg_clock (w_env w) (w_tick w) - env_interval (w_env w) (Seconds retention)) r'"
      using set_purge_ids by blast
    from distinct_fst_eq [OF d r'(1) r(1) r'(2)] r'(3) show ?thesis by (simp add: expired_def)
  qed
  with page(3) show ?thesis by (auto simp: purged_def)
qed

text \<open>An invariant of the loop, which a page and a look at the context keep.\<close>

lemma purge_loop_invariant:
  assumes run: "purge_loop uc ctx res w = Some y" and I: "I w"
    and look: "\<And>v x v'. I v \<Longrightarrow> ctx v = (x, v') \<Longrightarrow> I v'"
    and page: "\<And>v x v'. I v \<Longrightarrow> pp_outbox uc (pp_retention uc) (pp_batch uc) v = (x, v') \<Longrightarrow> I v'"
  shows "I (snd y) \<and> (snd (fst y) = None \<longrightarrow> (\<exists>v d. I v \<and>
    pp_outbox uc (pp_retention uc) (pp_batch uc) v = (Inr d, snd y) \<and> d < pp_batch uc))"
proof -
  let ?G = "\<lambda>y. I (snd y) \<and> (snd (fst y) = None \<longrightarrow> (\<exists>v d. I v \<and>
    pp_outbox uc (pp_retention uc) (pp_batch uc) v = (Inr d, snd y) \<and> d < pp_batch uc))"
  let ?P = "\<lambda>uc' ctx' res w y. uc' = uc \<longrightarrow> ctx' = ctx \<longrightarrow> I w \<longrightarrow> ?G y"
  have "?P uc ctx res w y"
    using run
  proof (rule purge_loop.raw_induct [of ?P, rotated])
    fix f uc' ctx' res w y
    assume IH: "\<And>uc' ctx' res w y. f uc' ctx' res w = Some y \<Longrightarrow> ?P uc' ctx' res w y"
      and body: "(case ctx' w of (None, w) \<Rightarrow>
          (case pp_outbox uc' (pp_retention uc') (pp_batch uc') w of
            (Inl err, w) \<Rightarrow> Some ((res, Some err), w)
          | (Inr deleted, w) \<Rightarrow>
              if deleted < pp_batch uc' then Some ((page_done res deleted, None), w)
              else f uc' ctx' (page_done res deleted) w)
        | (Some err, w) \<Rightarrow> Some ((res, Some err), w)) = Some y"
    show "?P uc' ctx' res w y"
    proof (intro impI)
      assume eq: "uc' = uc" "ctx' = ctx" and "I w"
      obtain x v where x: "ctx w = (x, v)" by (metis prod.exhaust)
      with look \<open>I w\<close> have v: "I v" by blast
      obtain z u where z: "pp_outbox uc (pp_retention uc) (pp_batch uc) v = (z, u)" by (metis prod.exhaust)
      with page v have u: "I u" by blast
      show "?G y"
      proof (cases x)
        case (Some e)
        with body eq x v show ?thesis by auto
      next
        case None
        show ?thesis
        proof (cases z)
          case (Inr d)
          show ?thesis
          proof (cases "d < pp_batch uc")
            case False
            with Inr body eq x z None have "f uc ctx (page_done res d) u = Some y" by simp
            from IH [OF this] u show ?thesis by simp
          next
            case True
            with Inr body eq x z None have "y = ((page_done res d, None), u)" by simp
            with u v z Inr True show ?thesis by auto
          qed
        qed (use body eq x z u None in auto)
      qed
    qed
  qed
  with I show ?thesis by simp
qed

lemma purge_loop_purged:
  assumes "purge_loop (purge_use_case retention batch) ctx_Err res w = Some y"
    and "distinct (map row_id (w_outbox w))"
  shows "purged retention w (snd y) \<and> (snd (fst y) = None \<longrightarrow> (\<exists>v d. purged retention w v \<and>
    OutboxPurger_PurgePublished retention batch v = (Inr d, snd y) \<and> d < batch))"
proof -
  let ?uc = "purge_use_case retention batch"
  have "purged retention w (snd y) \<and> (snd (fst y) = None \<longrightarrow> (\<exists>v d. purged retention w v \<and>
    pp_outbox ?uc (pp_retention ?uc) (pp_batch ?uc) v = (Inr d, snd y) \<and> d < pp_batch ?uc))"
    using assms(1)
  proof (rule purge_loop_invariant)
    fix v x v'
    assume v: "purged retention w v" and "ctx_Err v = (x, v')"
    then have "v' = tick v" by (simp add: ctx_Err_frame)
    then have "purged retention v v'" by (intro purged_refl) (simp_all add: same_db_def)
    with v show "purged retention w v'" by (rule purged_trans)
  next
    fix v x v'
    assume v: "purged retention w v" and "pp_outbox ?uc (pp_retention ?uc) (pp_batch ?uc) v = (x, v')"
    then have p: "OutboxPurger_PurgePublished retention batch v = (x, v')" by (simp add: port_simps)
    from v assms(2) have "distinct (map row_id (w_outbox v))"
      by (auto simp: purged_def intro: subseq_distinct_map)
    with p have "purged retention v v'" by (rule page_purged)
    with v show "purged retention w v'" by (rule purged_trans)
  qed (simp add: purged_refl)
  then show ?thesis by (simp add: port_simps)
qed

text \<open>A short page has taken every expired row.\<close>

lemma removed_count:
  assumes "distinct (map row_id rows)" "set ids \<subseteq> row_id ` set rows" "distinct ids"
  shows "length rows = length (filter (\<lambda>r. row_id r \<notin> set ids) rows) + length ids"
proof -
  have "length (filter (\<lambda>r. row_id r \<in> set ids) rows) = card (row_id ` set (filter (\<lambda>r. row_id r \<in> set ids) rows))"
    using assms(1) by (metis distinct_card distinct_map_filter length_map set_map)
  also have "row_id ` set (filter (\<lambda>r. row_id r \<in> set ids) rows) = set ids" using assms(2) by auto
  finally have "length (filter (\<lambda>r. row_id r \<in> set ids) rows) = length ids"
    using assms(3) by (simp add: distinct_card)
  then show ?thesis using sum_length_filter_compl [of "\<lambda>r. row_id r \<in> set ids" rows] by simp
qed

lemma short_page_exhausts:
  assumes "OutboxPurger_PurgePublished retention limit w = (Inr d, w')" "d < limit"
    and dist: "distinct (map row_id (w_outbox w))"
  shows "\<forall>r \<in> set (w_outbox w'). \<not> expired retention (w_env w) (w_tick w) r"
  using assms(1)
proof (cases rule: purge_page)
  case (page ids)
  let ?b = "env_pg_clock (w_env w) (w_tick w) - env_interval (w_env w) (Seconds retention)"
  let ?all = "sort (map row_id (filter (purgeable ?b) (w_outbox w)))"
  have "distinct ?all" using dist by (simp add: distinct_map_filter)
  then have i: "distinct ids" "set ids \<subseteq> row_id ` set (w_outbox w)"
    using page(2) set_purge_ids [of _ ?b limit "w_outbox w"] by (auto simp: purge_ids_def distinct_take)
  from removed_count [OF dist i(2,1)] page(3) page(4) [OF refl] assms(2)
  have "length ids < nat limit" by simp
  then have "ids = ?all" using page(2) by (simp add: purge_ids_def)
  with page(3) show ?thesis by (auto simp: expired_def)
qed simp

subsection \<open>The properties of a purge\<close>

text \<open>
  C23: A purge ends.  With a positive batch size the loop of bounded deletes returns, after at most
  one page for each batch of rows in the table and one more, and a purge that returns no error has
  counted exactly the rows it removed.
\<close>

theorem purge_terminates:
  assumes "0 < batch"
  shows "\<exists>res err w'.
    PurgePublished_Execute (purge_use_case retention batch) ctx_Err w = Some ((res, err), w') \<and>
    Passes res \<le> int (length (w_outbox w)) div batch + 1 \<and>
    (err = None \<longrightarrow> Deleted res = int (length (w_outbox w)) - int (length (w_outbox w')))"
  using purge.loop_ends [of retention batch "\<lparr>Deleted = 0, Passes = 0\<rparr>" w] assms
  by (auto simp: PurgePublished_Execute_def port_simps)

definition purge_world :: world where
  "purge_world = (sample_world [] [])
     \<lparr>w_outbox := [sample_row 1 StatusPublished 0, sample_row 2 StatusFailed 0, sample_row 3 StatusPublished 0]\<rparr>"

lemma purge_terminates_witness:
  "\<exists>res err w'.
    PurgePublished_Execute (purge_use_case 500000000 1) ctx_Err purge_world = Some ((res, err), w') \<and>
    Passes res \<le> int (length (w_outbox purge_world)) div 1 + 1 \<and>
    (err = None \<longrightarrow> Deleted res = int (length (w_outbox purge_world)) - int (length (w_outbox w')))"
  using purge_terminates [of 1 500000000 purge_world] by simp

text \<open>
  C13: What a purge removes.  It never removes or changes anything but published rows older than the
  retention: pending and failed rows survive every purge, whatever it returns.  A purge that
  returns no error has removed them all: at the time of its last page no expired row is left.
\<close>

theorem purge_removes_exactly_the_expired_rows:
  assumes "PurgePublished_Execute (purge_use_case retention batch) ctx_Err w = Some ((res, err), w')"
    and "distinct (map row_id (w_outbox w))"
  shows "subseq (w_outbox w') (w_outbox w) \<and> w_users w' = w_users w \<and>
    (\<forall>r \<in> set (w_outbox w). r \<notin> set (w_outbox w') \<longrightarrow>
       bk_status r = StatusPublished \<and> (\<exists>n. expired retention (w_env w) n r)) \<and>
    (err = None \<longrightarrow> (\<exists>n. \<forall>r \<in> set (w_outbox w'). \<not> expired retention (w_env w) n r))"
proof -
  from purge_loop_purged [OF assms(1) [unfolded PurgePublished_Execute_def] assms(2)]
  have p: "purged retention w w'"
    and last: "err = None \<Longrightarrow> \<exists>v d. purged retention w v \<and>
      OutboxPurger_PurgePublished retention batch v = (Inr d, w') \<and> d < batch"
    by simp_all
  have "\<exists>n. \<forall>r \<in> set (w_outbox w'). \<not> expired retention (w_env w) n r" if "err = None"
  proof -
    from last [OF that] obtain v d where v: "purged retention w v"
      "OutboxPurger_PurgePublished retention batch v = (Inr d, w')" "d < batch" by blast
    from v(1) assms(2) have "distinct (map row_id (w_outbox v))" "w_env v = w_env w"
      by (auto simp: purged_def intro: subseq_distinct_map)
    with short_page_exhausts [OF v(2,3)] show ?thesis by auto
  qed
  with p show ?thesis by (auto simp: purged_def expired_def purgeable_def)
qed

lemma purge_removes_exactly_the_expired_rows_witness:
  "\<exists>res w'. PurgePublished_Execute (purge_use_case 500000000 1) ctx_Err purge_world = Some ((res, None), w') \<and>
     map row_id (w_outbox w') = [2] \<and> Passes res = 3 \<and>
     (\<exists>n. \<forall>r \<in> set (w_outbox w'). \<not> expired 500000000 (w_env purge_world) n r)"
proof -
  let ?run = "PurgePublished_Execute (purge_use_case 500000000 1) ctx_Err purge_world"
  have "case ?run of None \<Rightarrow> False
      | Some ((res, err), w') \<Rightarrow> err = None \<and> map row_id (w_outbox w') = [2] \<and> Passes res = 3" by code_simp
  then obtain res w' where run: "?run = Some ((res, None), w')" "map row_id (w_outbox w') = [2]" "Passes res = 3"
    by (auto split: option.splits)
  have "distinct (map row_id (w_outbox purge_world))" by code_simp
  from purge_removes_exactly_the_expired_rows [OF run(1) this] run show ?thesis by auto
qed

end
