(* ===== verification/PurgeWorker.thy ===== *)
theory PurgeWorker
  imports Purge
begin

text \<open>
  The purge loop of the relay process, \<open>internal/accounts/presentation/worker/purger.go\<close>: a purge at
  once and one after every tick, until the context ends.  What the loop talks to is a record of
  functions on the world; \<open>pw_select\<close> is the \<open>select\<close> on the context and the ticker, true when the
  context won.
\<close>

record 'w PurgeWorker =
  pw_purge :: "'w \<Rightarrow> ((PurgeResult \<times> gerr option) \<times> 'w) option"
  pw_ctx :: "('w, gerr option) act"
  pw_select :: "('w, bool) act"
  pw_log :: "log_line \<Rightarrow> 'w \<Rightarrow> 'w"
  pw_interval :: duration

definition NewPurger ::
    "('w \<Rightarrow> ((PurgeResult \<times> gerr option) \<times> 'w) option) \<Rightarrow> ('w, gerr option) act \<Rightarrow> ('w, bool) act \<Rightarrow>
     (log_line \<Rightarrow> 'w \<Rightarrow> 'w) \<Rightarrow> duration \<Rightarrow> 'w PurgeWorker" where
  "NewPurger purge ctx sel lg interval =
     \<lparr>pw_purge = purge, pw_ctx = ctx, pw_select = sel, pw_log = lg, pw_interval = interval\<rparr>"

definition purge_counts :: "PurgeResult \<Rightarrow> (string \<times> attr) list" where
  "purge_counts res = [(''deleted'', AInt (Deleted res)), (''passes'', AInt (Passes res))]"

text \<open>What follows the purge: the switch on its result.  \<open>ctx.Err()\<close> is only asked after an error.\<close>

definition purge_outcome :: "'w PurgeWorker \<Rightarrow> PurgeResult \<Rightarrow> gerr option \<Rightarrow> 'w \<Rightarrow> 'w" where
  "purge_outcome p res err w =
     (case err of
        Some e \<Rightarrow>
          (case pw_ctx p w of
             (Some _, w) \<Rightarrow> w
           | (None, w) \<Rightarrow>
               pw_log p (line LevelError ''outbox purge failed'' ((''error'', AErr e) # purge_counts res)) w)
      | None \<Rightarrow>
          if Deleted res > 0 then pw_log p (line LevelInfo ''outbox purged'' (purge_counts res)) w
          else pw_log p (line LevelDebug ''outbox purge found nothing''
                 [(''passes'', AInt (Passes res))]) w)"

definition runOnce :: "'w PurgeWorker \<Rightarrow> 'w \<Rightarrow> 'w option" where
  "runOnce p w =
     (case pw_purge p w of
        None \<Rightarrow> None
      | Some ((res, err), w) \<Rightarrow> Some (purge_outcome p res err w))"

text \<open>One turn of the loop: true is a return from \<open>Run\<close>.\<close>

definition purger_turn :: "'w PurgeWorker \<Rightarrow> 'w \<Rightarrow> (bool \<times> 'w) option" where
  "purger_turn p w =
     (case runOnce p w of
        None \<Rightarrow> None
      | Some w \<Rightarrow>
          (case pw_select p w of
             (True, w) \<Rightarrow> Some (True, pw_log p (line LevelInfo ''outbox purger stopped'' []) w)
           | (False, w) \<Rightarrow> Some (False, w)))"

partial_function (option) purger_loop :: "'w PurgeWorker \<Rightarrow> 'w \<Rightarrow> (gerr option \<times> 'w) option" where
  "purger_loop p w =
     Option.bind (purger_turn p w) (\<lambda>(ended, w). if ended then Some (None, w) else purger_loop p w)"

definition Purger_Run :: "'w PurgeWorker \<Rightarrow> 'w \<Rightarrow> (gerr option \<times> 'w) option" where
  "Purger_Run p w =
     purger_loop p (pw_log p (line LevelInfo ''outbox purger started'' [(''interval'', ADur (pw_interval p))]) w)"

subsection \<open>The contract of the loop\<close>

text \<open>
  For termination: a purge returns, time does not go back, a look at the ticker takes some, and from
  \<open>stop\<close> on the context has ended.  \<open>I\<close> is what every part of a turn keeps.
\<close>

locale purge_worker =
  fixes p :: "'w PurgeWorker" and now :: "'w \<Rightarrow> nat" and stop :: nat and I :: "'w \<Rightarrow> 'w \<Rightarrow> bool"
  assumes purge_returns: "\<exists>res err w'. pw_purge p w = Some ((res, err), w')"
    and purge_time: "pw_purge p w = Some (x, w') \<Longrightarrow> now w \<le> now w'"
    and ctx_time: "pw_ctx p w = (e, w') \<Longrightarrow> now w \<le> now w'"
    and log_time: "now w \<le> now (pw_log p l w)"
    and select_time: "pw_select p w = (b, w') \<Longrightarrow> now w < now w' \<and> (stop \<le> now w \<longrightarrow> b)"
    and I_refl: "I w w" and I_trans: "I u v \<Longrightarrow> I v w \<Longrightarrow> I u w"
    and purge_I: "pw_purge p w = Some (x, w') \<Longrightarrow> I w w'"
    and ctx_I: "pw_ctx p w = (e, w') \<Longrightarrow> I w w'"
    and log_I: "I w (pw_log p l w)"
    and select_I: "pw_select p w = (b, w') \<Longrightarrow> I w w'"
begin

lemma outcome: "now w \<le> now (purge_outcome p res err w) \<and> I w (purge_outcome p res err w)"
proof (cases err)
  case (Some e)
  obtain x v where x: "pw_ctx p w = (x, v)" by (metis prod.exhaust)
  note t = ctx_time [OF x] log_time [of v] and i = ctx_I [OF x]
  show ?thesis
  proof (cases x)
    case None
    then show ?thesis using Some x t i log_I by (auto simp: purge_outcome_def intro: order.trans I_trans)
  qed (use Some x t i in \<open>simp add: purge_outcome_def\<close>)
qed (use log_time log_I in \<open>simp add: purge_outcome_def\<close>)

lemma turn:
  obtains ended w' where "purger_turn p w = Some (ended, w')" "I w w'"
    "ended \<or> now w < stop \<and> now w < now w'"
proof -
  obtain res err v where v: "pw_purge p w = Some ((res, err), v)" using purge_returns by blast
  let ?u = "purge_outcome p res err v"
  obtain b w1 where b: "pw_select p ?u = (b, w1)" by (metis prod.exhaust)
  note o = outcome [of v res err] and pv = purge_time [OF v] purge_I [OF v]
    and s = select_time [OF b] select_I [OF b]
  have i: "I w w1" using o pv(2) s(2) I_trans by blast
  show thesis
  proof (cases b)
    case True
    with v b have "purger_turn p w = Some (True, pw_log p (line LevelInfo ''outbox purger stopped'' []) w1)"
      by (simp add: purger_turn_def runOnce_def)
    moreover have "I w (pw_log p (line LevelInfo ''outbox purger stopped'' []) w1)"
      using i log_I I_trans by blast
    ultimately show thesis by (intro that [of True]) auto
  next
    case False
    with v b have "purger_turn p w = Some (False, w1)" by (simp add: purger_turn_def runOnce_def)
    moreover have "now w < stop" "now w < now w1" using False s o pv by linarith+
    ultimately show thesis using i by (intro that) auto
  qed
qed

lemma loop_ends: "\<exists>w'. purger_loop p w = Some (None, w') \<and> I w w'"
proof (induction "stop - now w" arbitrary: w rule: less_induct)
  case less
  obtain ended v where v: "purger_turn p w = Some (ended, v)" "I w v"
      "ended \<or> now w < stop \<and> now w < now v" by (rule turn)
  show ?case
  proof (cases ended)
    case True
    with v show ?thesis by (simp add: purger_loop.simps [of p w])
  next
    case False
    with v have "stop - now v < stop - now w" by linarith
    from less [OF this] obtain w' where "purger_loop p v = Some (None, w')" "I v w'" by blast
    with False v show ?thesis by (auto simp: purger_loop.simps [of p w] intro: I_trans)
  qed
qed

lemma Run_ends: "\<exists>w'. Purger_Run p w = Some (None, w') \<and> I w w'"
proof -
  let ?v = "pw_log p (line LevelInfo ''outbox purger started'' [(''interval'', ADur (pw_interval p))]) w"
  from loop_ends [of ?v] obtain w' where "purger_loop p ?v = Some (None, w')" "I ?v w'" by blast
  moreover have "I w ?v" by (rule log_I)
  ultimately show ?thesis using I_trans by (auto simp: Purger_Run_def)
qed

end

subsection \<open>The contract holds of the relay process\<close>

text \<open>
  The purger as \<open>cmd/relay\<close> builds it, in a run in which the process is told to stop at interaction
  number \<open>stop\<close>; the ticker ticks at every look before.
\<close>

definition relay_purger :: "duration \<Rightarrow> int \<Rightarrow> duration \<Rightarrow> nat \<Rightarrow> world PurgeWorker" where
  "relay_purger retention batch interval stop =
     NewPurger (PurgePublished_Execute (purge_use_case retention batch) ctx_Err) ctx_Err
       (\<lambda>w. (stop \<le> w_tick w, tick w)) log_write interval"

definition only_purged :: "duration \<Rightarrow> world \<Rightarrow> world \<Rightarrow> bool" where
  "only_purged retention w w' \<longleftrightarrow> distinct (map row_id (w_outbox w)) \<longrightarrow> purged retention w w'"

lemma only_purged_refl: "same_db w w' \<Longrightarrow> w_broker w' = w_broker w \<Longrightarrow> w_seq w' = w_seq w \<Longrightarrow> only_purged r w w'"
  by (simp add: only_purged_def purged_refl)

lemma only_purged_trans: "only_purged r u v \<Longrightarrow> only_purged r v w \<Longrightarrow> only_purged r u w"
  by (auto simp: only_purged_def intro: purged_trans)
    (metis purged_def purged_trans subseq_distinct_map)

lemma purge_ticks:
  assumes "PurgePublished_Execute (purge_use_case retention batch) ctx_Err w = Some y"
  shows "w_tick w \<le> w_tick (snd y)"
proof -
  have "w_tick w \<le> w_tick (snd y) \<and> (snd (fst y) = None \<longrightarrow> (\<exists>v d. w_tick w \<le> w_tick v \<and>
    pp_outbox (purge_use_case retention batch) (pp_retention (purge_use_case retention batch))
      (pp_batch (purge_use_case retention batch)) v = (Inr d, snd y) \<and> d < pp_batch (purge_use_case retention batch)))"
    using assms [unfolded PurgePublished_Execute_def]
  proof (rule purge_loop_invariant)
    fix v x v'
    assume "w_tick w \<le> w_tick v" "ctx_Err v = (x, v')"
    then show "w_tick w \<le> w_tick v'" by (auto simp: ctx_Err_def tick_def)
  next
    fix v x v'
    assume v: "w_tick w \<le> w_tick v" and "pp_outbox (purge_use_case retention batch)
      (pp_retention (purge_use_case retention batch)) (pp_batch (purge_use_case retention batch)) v = (x, v')"
    then have "OutboxPurger_PurgePublished retention batch v = (x, v')" by (simp add: port_simps)
    then show "w_tick w \<le> w_tick v'" using v by (cases rule: purge_page) (auto simp: tick_def)
  qed simp
  then show ?thesis by simp
qed

interpretation purger_run: purge_worker "relay_purger retention (int (Suc n)) interval stop" w_tick stop
    "only_purged retention"
  for retention n interval stop
proof (unfold_locales, unfold relay_purger_def NewPurger_def PurgeWorker.simps)
  show "\<exists>res err w'. PurgePublished_Execute (purge_use_case retention (int (Suc n))) ctx_Err w = Some ((res, err), w')"
    for w
    using purge.loop_ends [of retention "int (Suc n)" "\<lparr>Deleted = 0, Passes = 0\<rparr>" w]
    by (auto simp: PurgePublished_Execute_def port_simps)
next
  show "only_purged retention w w'"
    if "PurgePublished_Execute (purge_use_case retention (int (Suc n))) ctx_Err w = Some (x, w')" for w x w'
    using purge_loop_purged [OF that [unfolded PurgePublished_Execute_def]] by (auto simp: only_purged_def)
qed (auto simp: ctx_Err_def tick_def log_write_def same_db_def dest: purge_ticks
      intro: only_purged_refl only_purged_trans)

text \<open>
  C36: The purge loop as a whole.  With a positive batch size, \<open>Run\<close> returns, and returns nil,
  whenever the process is told to stop; and over its whole life, failing statements included, the
  loop has removed nothing but published rows, each published longer ago than the retention by a
  reading of the server's clock, and has changed nothing else.
\<close>

theorem purger_run_stops_and_only_purges:
  assumes "0 < batch" and "distinct (map row_id (w_outbox w))"
  shows "\<exists>w'. Purger_Run (relay_purger retention batch interval stop) w = Some (None, w') \<and>
    subseq (w_outbox w') (w_outbox w) \<and> w_users w' = w_users w \<and> w_broker w' = w_broker w \<and>
    (\<forall>r \<in> set (w_outbox w). r \<notin> set (w_outbox w') \<longrightarrow> bk_status r = StatusPublished \<and>
       (\<exists>since n. row_published_at r = Some since \<and>
          since < env_pg_clock (w_env w) n - env_interval (w_env w) (Seconds retention)))"
proof -
  from assms(1) obtain n where n: "batch = int (Suc n)"
    by (metis zero_less_imp_eq_int gr0_implies_Suc)
  have old: "bk_status r = StatusPublished \<and> (\<exists>since n. row_published_at r = Some since \<and>
      since < env_pg_clock (w_env w) n - env_interval (w_env w) (Seconds retention))"
    if "\<exists>n. expired retention (w_env w) n r" for r
    using that by (auto simp: expired_def purgeable_def split: option.splits)
  from purger_run.Run_ends [of retention n interval stop w] assms(2) old show ?thesis
    unfolding n only_purged_def purged_def by blast
qed

lemma purger_run_stops_and_only_purges_witness:
  "\<exists>w'. Purger_Run (relay_purger 500000000 1 60000000000 9) purge_world = Some (None, w') \<and>
     subseq (w_outbox w') (w_outbox purge_world)"
proof -
  have "distinct (map row_id (w_outbox purge_world))" by code_simp
  from purger_run_stops_and_only_purges [OF _ this, of 1] show ?thesis by fastforce
qed

end
