(* ===== verification/RelayRun.thy ===== *)
theory RelayRun
  imports Delivery Listener SampleWorld
begin

text \<open>
  The relay process: the driver loop over the use case on its adapters, with the listener as its
  waiter, in one world.  The driver of the listening connection answers from a script, like the
  database and the broker.
\<close>

subsection \<open>The scripted driver\<close>

record listen_script =
  ls_connect :: "nat \<Rightarrow> gerr option"
  ls_exec :: "nat \<Rightarrow> gerr option"
  ls_wait :: "nat \<Rightarrow> gerr option"
  ls_usage :: "nat \<Rightarrow> gerr + rat"
  ls_close :: "nat \<Rightarrow> gerr option"
  ls_closed :: "nat \<Rightarrow> nat \<Rightarrow> bool"
  ls_sanitize :: "string list \<Rightarrow> string"

text \<open>A connection is the number of the interaction that made it.\<close>

definition scripted_pgx :: "listen_script \<Rightarrow> nat \<Rightarrow> (world, nat) pgx" where
  "scripted_pgx s stop =
     \<lparr>px_Connect = (\<lambda>dsn w. (case ls_connect s (w_tick w) of
          Some e \<Rightarrow> (Inl e, tick w) | None \<Rightarrow> (Inr (w_tick w), tick w))),
      px_Exec = (\<lambda>c sql w. (ls_exec s (w_tick w), tick w)),
      px_WaitForNotification = (\<lambda>c d w. (ls_wait s (w_tick w), tick w)),
      px_QueryUsage = (\<lambda>c sql w. (ls_usage s (w_tick w), tick w)),
      px_Close = (\<lambda>c w. (ls_close s (w_tick w), tick w)),
      px_IsClosed = (\<lambda>c w. ls_closed s c (w_tick w)),
      px_Sanitize = ls_sanitize s,
      px_ctx_Err = (\<lambda>w. (if stop \<le> w_tick w then Some (Ext ''context canceled'') else None, w)),
      px_log = log_write\<rparr>"

subsection \<open>The wiring\<close>

definition lifted :: "('w, 'a) act \<Rightarrow> ('w \<times> 's, 'a) act" where
  "lifted f = (\<lambda>(w, l). case f w of (x, w) \<Rightarrow> (x, (w, l)))"

text \<open>
  \<open>stop\<close> is the interaction at which the process is told to stop, \<open>expired\<close> the one at which the
  drain grace is over.  Without \<open>RELAY_USE_NOTIFY\<close> there is no waiter.
\<close>

definition relay_worker ::
    "world PublishPendingBatch \<Rightarrow> RelayPolicy \<Rightarrow> bool \<Rightarrow> (world, nat) pgx \<Rightarrow> nat \<Rightarrow> nat \<Rightarrow>
     (world \<times> nat Listener) RelayWorker" where
  "relay_worker uc rp use_notify P stop expired =
     \<lparr>rl_publish = lifted (Execute uc),
      rl_wake = (if use_notify then Some (waiter P) else None),
      rl_jitter = lifted (Factor rand_Float64),
      rl_policy = rp,
      rl_ctx_done = (\<lambda>s. (stop \<le> w_tick (fst s), s)),
      rl_pass_done = (\<lambda>s. (expired \<le> w_tick (fst s), s)),
      rl_sleep = (\<lambda>d (w, l). (tick w, l)),
      rl_log = (\<lambda>x (w, l). (log_write x w, l))\<rparr>"

subsection \<open>The contract of the loop\<close>

text \<open>What the loop keeps, apart from the passes: the tables and the broker's log.\<close>

definition quiet :: "world \<Rightarrow> world \<Rightarrow> bool" where
  "quiet w w' \<longleftrightarrow> same_db w w' \<and> w_broker w' = w_broker w \<and> w_tick w \<le> w_tick w'"

definition run_keeps :: "Topics \<Rightarrow> world \<Rightarrow> world \<Rightarrow> bool" where
  "run_keeps t w w' \<longleftrightarrow> distinct (map row_id (w_outbox w)) \<longrightarrow> delivers t w w'"

lemma quiet_keeps: "quiet w w' \<Longrightarrow> w_tick w \<le> w_tick w' \<and> run_keeps t w w'"
  by (auto simp: quiet_def run_keeps_def intro: delivers_frame)

lemma run_keeps_trans: "run_keeps t u v \<Longrightarrow> run_keeps t v w \<Longrightarrow> run_keeps t u w"
  using delivers_ids delivers_trans unfolding run_keeps_def by metis

lemma quiet_tick [simp]: "quiet w (tick w)" "quiet w (log_write l w)" "quiet w w"
  by (simp_all add: quiet_def same_db_def log_write_def)

lemma scripted_keeps_quiet: "driver_keeps (scripted_pgx s stop) quiet"
proof -
  have "reflp quiet" by (simp add: reflp_def)
  moreover have "transp quiet" by (auto simp: transp_def quiet_def intro: same_db_trans)
  ultimately show ?thesis by (auto simp: driver_keeps_def scripted_pgx_def split: option.split)
qed

interpretation relay_run: stopping_worker
    "relay_worker (relay stamp t b base cap m) rp use_notify (scripted_pgx s stop) stop expired"
    "\<lambda>x. w_tick (fst x)" stop "\<lambda>x y. run_keeps t (fst x) (fst y)"
  for stamp t b base cap m rp use_notify s stop expired
proof (unfold_locales, unfold relay_worker_def RelayWorker.simps)
  fix w w' x
  assume "lifted (Execute (relay stamp t b base cap m)) w = (x, w')"
  then have "Execute (relay stamp t b base cap m) (fst w) = (x, fst w')"
    by (auto simp: lifted_def split: prod.splits)
  then show "w_tick (fst w) < w_tick (fst w') \<and> run_keeps t (fst w) (fst w')"
    by (auto simp: run_keeps_def dest: Execute_ticks Execute_delivers)
next
  fix w w' wk d and y :: "bool \<times> gerr option"
  assume "(if use_notify then Some (waiter (scripted_pgx s stop)) else None) = Some wk" "Wait wk d w = (y, w')"
  then obtain l' where "Listener_Wait (scripted_pgx s stop) (snd w) d (fst w) = ((y, l'), fst w')"
    by (auto simp: waiter_def split: if_splits prod.splits)
  from Wait_keeps [OF scripted_keeps_quiet this]
  show "forward (\<lambda>x. w_tick (fst x)) (\<lambda>x y. run_keeps t (fst x) (fst y)) w w'"
    unfolding forward_def by (rule quiet_keeps)
next
  fix w w' wk and q :: "rat option"
  assume "(if use_notify then Some (waiter (scripted_pgx s stop)) else None) = Some wk" "Usage wk w = (q, w')"
  then have "Listener_Usage (scripted_pgx s stop) (snd w) (fst w) = (q, fst w')"
    by (auto simp: waiter_def split: if_splits prod.splits)
  from Usage_keeps [OF scripted_keeps_quiet this]
  show "forward (\<lambda>x. w_tick (fst x)) (\<lambda>x y. run_keeps t (fst x) (fst y)) w w'"
    unfolding forward_def by (rule quiet_keeps)
next
  fix w w' j
  assume "lifted (Factor rand_Float64) w = (j, w')"
  then have "fst w' = tick (fst w)"
    by (auto simp: lifted_def Factor_def rand_Float64_def split: prod.splits)
  then show "forward (\<lambda>x. w_tick (fst x)) (\<lambda>x y. run_keeps t (fst x) (fst y)) w w'"
    unfolding forward_def by (intro quiet_keeps) simp
next
  show "forward (\<lambda>x. w_tick (fst x)) (\<lambda>x y. run_keeps t (fst x) (fst y)) w ((\<lambda>(w, l). (tick w, l)) w)" for w
    unfolding forward_def by (intro quiet_keeps) (simp split: prod.split)
  show "forward (\<lambda>x. w_tick (fst x)) (\<lambda>x y. run_keeps t (fst x) (fst y)) w ((\<lambda>(w, y). (log_write l w, y)) w)" for w l
    unfolding forward_def by (intro quiet_keeps) (simp split: prod.split)
  show "run_keeps t (fst w) (fst w)" for w
    using quiet_keeps [OF quiet_tick(3)] by blast
  show "run_keeps t (fst u) (fst v) \<Longrightarrow> run_keeps t (fst v) (fst w) \<Longrightarrow> run_keeps t (fst u) (fst w)" for u v w
    by (rule run_keeps_trans)
qed auto

subsection \<open>A run of the relay\<close>

text \<open>
  C29: The relay as a process.  Whenever it is told to stop, and whatever the database, the broker
  and the listening connection have answered until then, \<open>Run\<close> returns, and returns nil.  Over its
  whole life no row of the outbox was added, removed or altered in its contents, no user was touched,
  and every row that is published has its message in the broker.
\<close>

theorem relay_run_stops_and_delivers:
  assumes "distinct (map row_id (w_outbox w))"
    and "\<forall>r \<in> set (w_outbox w). bk_status r = StatusPublished \<longrightarrow> announced t w r"
  shows "\<exists>w' l'. Run (relay_worker (relay stamp t b base cap m) rp use_notify (scripted_pgx s stop) stop expired)
      (w, l) = Some (None, (w', l')) \<and>
    map content (w_outbox w') = map content (w_outbox w) \<and> w_users w' = w_users w \<and>
    (\<forall>r \<in> set (w_outbox w'). bk_status r = StatusPublished \<longrightarrow> announced t w' r)"
proof -
  from relay_run.Run_stops [of stamp t b base cap m rp use_notify s stop expired "(w, l)"]
  obtain w' l' where r: "Run (relay_worker (relay stamp t b base cap m) rp use_notify (scripted_pgx s stop) stop expired)
      (w, l) = Some (None, (w', l'))" "delivers t w w'"
    using assms(1) by (auto simp: run_keeps_def)
  then have "map content (w_outbox w') = map content (w_outbox w)" "w_users w' = w_users w"
    by (auto simp: delivers_def)
  with r delivers_announced [OF r(2) assms(2)] show ?thesis by blast
qed

definition deaf_script :: listen_script where
  "deaf_script =
     \<lparr>ls_connect = (\<lambda>n. Some (Ext ''refused'')), ls_exec = (\<lambda>n. None), ls_wait = (\<lambda>n. None),
      ls_usage = (\<lambda>n. Inr 0), ls_close = (\<lambda>n. None), ls_closed = (\<lambda>c n. False), ls_sanitize = concat\<rparr>"

lemma relay_run_stops_and_delivers_witness:
  "\<exists>w' l'. Run (relay_worker (relay (\<lambda>t. t) [''User'' \<mapsto> ''accounts.users''] 10 1000000000 60000000000 5)
       sample_policy True (scripted_pgx deaf_script 40) 40 99) (sample_world [] [], NewListener ''dsn'') =
     Some (None, (w', l')) \<and> w_users w' = w_users (sample_world [] [])"
proof -
  have "distinct (map row_id (w_outbox (sample_world [] [])))" by code_simp
  moreover have "\<forall>r \<in> set (w_outbox (sample_world [] [])). bk_status r \<noteq> StatusPublished" by code_simp
  ultimately show ?thesis
    using relay_run_stops_and_delivers [of "sample_world [] []" "[''User'' \<mapsto> ''accounts.users'']"] by blast
qed

end
