(* ===== verification/Wiring.thy ===== *)
theory Wiring
  imports Processes ConfigProperties PurgeWorker RelayRun HttpProperties
begin

text \<open>
  What \<open>run\<close> of \<open>cmd/relay\<close> builds from its configuration: the topics, the publish use case, the
  policy of the loop and the purge use case; and that an accepted configuration is enough for them.
  What \<open>run\<close> of \<open>cmd/api\<close> builds: the public server around the registration, and the admin server.
\<close>

text \<open>The wiring of the relay from its configuration.\<close>

definition wired_topics :: "RelayConfig \<Rightarrow> Topics" where
  "wired_topics cfg = [AggregateTypeUser \<mapsto> cf_KafkaTopic cfg]"

definition wired_publish :: "(time \<Rightarrow> time) \<Rightarrow> RelayConfig \<Rightarrow> world PublishPendingBatch" where
  "wired_publish stamp cfg =
     relay stamp (wired_topics cfg) (cf_BatchSize cfg) (cf_BackoffBase cfg) (cf_BackoffCap cfg) (cf_MaxAttempts cfg)"

definition wired_policy :: "RelayConfig \<Rightarrow> RelayPolicy" where
  "wired_policy cfg = \<lparr>IdleMin = cf_IdleMin cfg, IdleMax = cf_IdleMax cfg, DrainGrace = cf_DrainGrace cfg\<rparr>"

definition wired_purge :: "RelayConfig \<Rightarrow> world PurgePublished" where
  "wired_purge cfg = purge_use_case (cf_OutboxRetention cfg) (cf_PurgeBatch cfg)"

text \<open>The servers of the api: the public one with all its timeouts, and the admin one.\<close>

record 'w public_server = "'w server" +
  sv_ReadTimeout :: duration
  sv_WriteTimeout :: duration
  sv_IdleTimeout :: duration

definition api_public :: "API \<Rightarrow> world Handler \<Rightarrow> world public_server" where
  "api_public cfg h =
     \<lparr>sv_Addr = api_HTTPAddr cfg, sv_Handler = NewRouter h Healthz, sv_ReadHeaderTimeout = 5000000000,
      sv_ReadTimeout = 15000000000, sv_WriteTimeout = 15000000000, sv_IdleTimeout = 60000000000\<rparr>"

definition api_admin :: "API \<Rightarrow> string \<Rightarrow> (string \<Rightarrow> (world, gerr + int) act) \<Rightarrow> int \<Rightarrow> world server" where
  "api_admin cfg table query expected = NewServer (api_AdminAddr cfg) (\<lambda>_. Ready table query expected)"

lemma api_routes:
  "ServeHTTP unmatched (sv_Handler (api_public cfg h)) ''POST'' ''/users'' = Handler_RegisterUser h"
  "ServeHTTP unmatched (sv_Handler (api_public cfg h)) ''GET'' ''/healthz'' = Healthz"
  "ServeHTTP unmatched (sv_Handler (api_admin cfg table query n)) ''GET'' ''/readyz'' =
     readyz (\<lambda>_. Ready table query n)"
  by (simp_all add: fun_eq_iff ServeHTTP_def api_public_def api_admin_def NewRouter_def NewServer_def Router_def
      method_matches_def)

subsection \<open>The configuration reaches the components\<close>

lemma trimmed_TrimSpace_id: "trimmed s \<Longrightarrow> s \<noteq> [] \<Longrightarrow> TrimSpace s \<noteq> []"
  by (simp add: trimmed_def)

text \<open>
  C38: A configuration that \<open>LoadRelay\<close> accepts is accepted by everything it is wired to: the tuning of
  the pool and of the producer pass their own checks, the topics name a topic for the one aggregate
  type there is, every purge it configures ends, and the idle wait has a valid range as soon as
  \<open>RELAY_IDLE_MAX\<close> is positive and can be doubled.
\<close>

theorem accepted_configuration_is_enough:
  assumes "LoadRelay upr getenv = Inr cfg"
  shows "validate_pool (DefaultPoolConfig (cf_AccountsDatabaseURL cfg) relay_maxDBConns) = None \<and>
    validate_producer (DefaultProducerConfig (cf_KafkaBrokers cfg)) = None \<and>
    Topics_For (wired_topics cfg) AggregateTypeUser = Inr (cf_KafkaTopic cfg) \<and> cf_KafkaTopic cfg \<noteq> [] \<and>
    (\<exists>res err w'. PurgePublished_Execute (wired_purge cfg) ctx_Err w = Some ((res, err), w')) \<and>
    (0 < cf_IdleMax cfg \<and> cf_IdleMax cfg * 2 \<le> max_i64 \<longrightarrow> policy_ok (wired_policy cfg))"
proof -
  note valid = LoadRelay_valid [OF assms]
  have "validate_producer (DefaultProducerConfig (cf_KafkaBrokers cfg)) = None"
    using valid by (simp add: validate_producer_iff DefaultProducerConfig_def trimmed_TrimSpace_id)
  moreover have "\<exists>res err w'. PurgePublished_Execute (wired_purge cfg) ctx_Err w = Some ((res, err), w')"
    using purge.loop_ends [of "cf_OutboxRetention cfg" "cf_PurgeBatch cfg" "\<lparr>Deleted = 0, Passes = 0\<rparr>" w] valid
    by (auto simp: PurgePublished_Execute_def wired_purge_def port_simps)
  ultimately show ?thesis
    using valid
    by (simp add: validate_pool_iff pool_ok_def DefaultPoolConfig_def relay_maxDBConns_def wired_topics_def
        Topics_For_def policy_ok_def wired_policy_def)
qed

lemma accepted_configuration_is_enough_witness:
  "Topics_For (wired_topics (default_relay ''db'')) AggregateTypeUser = Inr ''accounts.user.v1'' \<and>
   policy_ok (wired_policy (default_relay ''db''))"
proof -
  have "LoadRelay id (setting [(''ACCOUNTS_DATABASE_URL'', ''db'')]) = Inr (default_relay ''db'')"
    by code_simp
  from accepted_configuration_is_enough [OF this] show ?thesis by (simp add: default_relay_def)
qed

end
