(* ===== verification/System.thy ===== *)
theory System
  imports WriteProperties Purge Delivery
begin

text \<open>
  The whole system over time: registrations, relay passes and purges in any order, each with any
  outcome, and between them a world that changes as it likes.  On every reachable state the event
  of every registered user is in the outbox or in the broker's log.
\<close>

subsection \<open>Steps\<close>

text \<open>
  \<open>registers\<close>, \<open>relays\<close> and \<open>purges\<close> are the use cases as the processes run them; the settings of each
  execution are its own, only the topics stay.  \<open>outside\<close> is everything else: time passes, other
  sessions lock rows, the script of the replies changes, a process is restarted.
\<close>

inductive system_step :: "Topics \<Rightarrow> world \<Rightarrow> world \<Rightarrow> bool" for t where
  registers: "RegisterUser_Execute uni parse (api_uow stamp) stamp cmd w = (x, w') \<Longrightarrow> system_step t w w'"
| relays: "Execute (relay stamp t b base cap m) w = (y, w') \<Longrightarrow> system_step t w w'"
| purges: "PurgePublished_Execute (purge_use_case retention batch) ctx_Err w = Some (z, w') \<Longrightarrow> system_step t w w'"
| outside: "w_users w' = w_users w \<Longrightarrow> w_outbox w' = w_outbox w \<Longrightarrow> w_broker w' = w_broker w \<Longrightarrow>
    w_seq w \<le> w_seq w' \<Longrightarrow> system_step t w w'"

subsection \<open>The event of a user\<close>

text \<open>The outbox row of a user's registration, and the record it is published as.\<close>

definition event_row :: "user_row \<Rightarrow> outbox_row \<Rightarrow> bool" where
  "event_row u r \<longleftrightarrow> row_aggregate_type r = AggregateTypeUser \<and>
     row_aggregate_id r = uuid_text (usr_id u) \<and> row_event_type r = EventTypeUserRegistered"

definition event_record :: "Topics \<Rightarrow> user_row \<Rightarrow> kafka_record \<Rightarrow> bool" where
  "event_record t u k \<longleftrightarrow> Topics_For t AggregateTypeUser = Inr (rec_Topic k) \<and>
     rec_Key k = uuid_text (usr_id u) \<and> map_of (rec_Headers k) HeaderEventType = Some EventTypeUserRegistered"

definition accounted :: "Topics \<Rightarrow> world \<Rightarrow> user_row \<Rightarrow> bool" where
  "accounted t w u \<longleftrightarrow> (\<exists>r \<in> set (w_outbox w). event_row u r) \<or> (\<exists>k \<in> set (w_broker w). event_record t u k)"

text \<open>What survives a step: a row is still in the table with its contents, or its message is out.\<close>

definition traced :: "Topics \<Rightarrow> world \<Rightarrow> outbox_row \<Rightarrow> bool" where
  "traced t w r \<longleftrightarrow> (\<exists>r' \<in> set (w_outbox w). content r' = content r) \<or> announced t w r"

definition preserves :: "Topics \<Rightarrow> world \<Rightarrow> world \<Rightarrow> bool" where
  "preserves t w w' \<longleftrightarrow> prefix (w_broker w) (w_broker w') \<and> set (w_users w) \<subseteq> set (w_users w') \<and>
     (\<forall>r \<in> set (w_outbox w). traced t w' r)"

definition rows_ok :: "Topics \<Rightarrow> world \<Rightarrow> bool" where
  "rows_ok t w \<longleftrightarrow> distinct (map row_id (w_outbox w)) \<and> (\<forall>r \<in> set (w_outbox w). row_id r < w_seq w) \<and>
     (\<forall>r \<in> set (w_outbox w). bk_status r = StatusPublished \<longrightarrow> announced t w r)"

definition system_inv :: "Topics \<Rightarrow> world \<Rightarrow> bool" where
  "system_inv t w \<longleftrightarrow> rows_ok t w \<and> (\<forall>u \<in> set (w_users w). accounted t w u)"

lemma event_row_content: "content r = content s \<Longrightarrow> event_row u r = event_row u s"
  by (simp add: event_row_def content_def)

lemma announced_event: "event_row u r \<Longrightarrow> announced t w r \<Longrightarrow> \<exists>k \<in> set (w_broker w). event_record t u k"
  unfolding announced_def by (rule bexE) (auto simp: carries_def event_row_def event_record_def)

lemma traced_stays:
  assumes "traced t v r" "preserves t v w"
  shows "traced t w r"
  using assms(1) unfolding traced_def [of t v]
proof
  assume "\<exists>r' \<in> set (w_outbox v). content r' = content r"
  then obtain r' where r': "r' \<in> set (w_outbox v)" "content r' = content r" by blast
  with assms(2) have "traced t w r'" by (simp add: preserves_def)
  then show ?thesis unfolding traced_def announced_content [OF r'(2)] r'(2) .
next
  assume "announced t v r"
  with assms(2) announced_grows show ?thesis by (auto simp: preserves_def traced_def)
qed

lemma preserves_trans: "preserves t u v \<Longrightarrow> preserves t v w \<Longrightarrow> preserves t u w"
  using traced_stays by (auto simp: preserves_def)

lemma accounted_stays:
  assumes "accounted t v u" "preserves t v w"
  shows "accounted t w u"
  using assms(1) unfolding accounted_def [of t v]
proof
  assume "\<exists>r \<in> set (w_outbox v). event_row u r"
  then obtain r where r: "r \<in> set (w_outbox v)" "event_row u r" by blast
  with assms(2) have "traced t w r" by (simp add: preserves_def)
  with r(2) show ?thesis
    unfolding traced_def accounted_def using event_row_content announced_event by blast
next
  assume "\<exists>k \<in> set (w_broker v). event_record t u k"
  with assms(2) set_mono_prefix [of "w_broker v" "w_broker w"] show ?thesis
    by (auto simp: accounted_def preserves_def)
qed

subsection \<open>Each step\<close>

lemma step_relay:
  assumes "Execute (relay stamp t b base cap m) w = (x, w')" "rows_ok t w"
  shows "rows_ok t w' \<and> preserves t w w' \<and> w_users w' = w_users w"
proof -
  from assms(2) have d: "distinct (map row_id (w_outbox w))" by (simp add: rows_ok_def)
  note del = Execute_delivers [OF assms(1) d]
  from del obtain g where g: "w_users w' = w_users w" "prefix (w_broker w) (w_broker w')"
    "w_outbox w' = map g (w_outbox w)" "\<And>r. r \<in> set (w_outbox w) \<Longrightarrow> content (g r) = content r"
    unfolding delivers_def by blast
  have "w_seq w \<le> w_seq w'" using Execute_later [OF assms(1)] by (simp add: later_def)
  moreover have "row_id r < w_seq w" if "r \<in> set (w_outbox w')" for r
    using that g(3) content_eqD [OF g(4)] assms(2) by (auto simp: rows_ok_def)
  ultimately have "rows_ok t w'"
    using delivers_announced [OF del] delivers_ids [OF del] d assms(2)
    by (auto simp: rows_ok_def intro: less_le_trans)
  moreover have "preserves t w w'" using g by (auto simp: preserves_def traced_def)
  ultimately show ?thesis using g(1) by simp
qed

lemma step_purge:
  assumes "PurgePublished_Execute (purge_use_case retention batch) ctx_Err w = Some (x, w')" "rows_ok t w"
  shows "rows_ok t w' \<and> preserves t w w' \<and> w_users w' = w_users w"
proof -
  from assms(2) have d: "distinct (map row_id (w_outbox w))" by (simp add: rows_ok_def)
  with purge_loop_purged [OF assms(1) [unfolded PurgePublished_Execute_def]] have p: "purged retention w w'" by simp
  then have sub: "set (w_outbox w') \<subseteq> set (w_outbox w)" by (auto simp: purged_def dest: list_emb_set)
  have same: "announced t w' r = announced t w r" for r using p by (simp add: purged_def announced_def)
  have "rows_ok t w'"
    using assms(2) p sub d by (auto simp: rows_ok_def purged_def same intro: subseq_distinct_map)
  moreover have "traced t w' r" if r: "r \<in> set (w_outbox w)" for r
  proof (cases "r \<in> set (w_outbox w')")
    case False
    with p r have "bk_status r = StatusPublished" by (auto simp: purged_def expired_def purgeable_def)
    with assms(2) r show ?thesis by (simp add: traced_def same rows_ok_def)
  qed (auto simp: traced_def)
  ultimately show ?thesis using p by (auto simp: preserves_def purged_def)
qed

lemma step_same:
  assumes "w_users w' = w_users w" "w_outbox w' = w_outbox w" "w_broker w' = w_broker w" "w_seq w \<le> w_seq w'"
    "rows_ok t w"
  shows "rows_ok t w' \<and> preserves t w w' \<and> w_users w' = w_users w"
  using assms by (auto simp: rows_ok_def preserves_def traced_def announced_def)

lemma step_register:
  assumes "RegisterUser_Execute uni parse (api_uow stamp) stamp cmd w = (x, w')" "rows_ok t w"
  shows "rows_ok t w' \<and> preserves t w w' \<and>
    (\<forall>u \<in> set (w_users w'). u \<in> set (w_users w) \<or> accounted t w' u)"
  using registration_outcome [OF assms(1)]
proof
  assume "(\<exists>e. x = Inl e) \<and> w_users w' = w_users w \<and> w_outbox w' = w_outbox w \<and>
    w_seq w \<le> w_seq w' \<and> w_broker w' = w_broker w \<and> w_notified w' = w_notified w"
  then have "w_users w' = w_users w" "w_outbox w' = w_outbox w" "w_broker w' = w_broker w" "w_seq w \<le> w_seq w'"
    by simp_all
  from step_same [OF this assms(2)] show ?thesis by simp
next
  assume "\<exists>i. registered uni stamp cmd i w w' \<and> (x = Inr i \<or> (\<exists>e. x = Inl (wrapf ''postgres: commit'' e)))"
  then obtain user now env where r: "w_users w' = w_users w @ [user_row_of stamp user]"
      "envelope_of (cmd_Meta cmd) (registered_event user) env"
      "w_outbox w' = w_outbox w @ [outbox_row_of (w_env w) stamp now (w_seq w) env]"
      "w_seq w' = w_seq w + 1" "w_broker w' = w_broker w"
    unfolding registered_def by blast
  let ?r = "outbox_row_of (w_env w) stamp now (w_seq w) env"
  have new: "row_id ?r = w_seq w" "bk_status ?r = StatusPending" by (simp_all add: outbox_row_of_def)
  have "event_row (user_row_of stamp user) ?r"
    using r(2) by (simp add: event_row_def outbox_row_of_def user_row_of_def envelope_of_def registered_event_def)
  then have "accounted t w' (user_row_of stamp user)" by (simp add: accounted_def r(3))
  moreover have "traced t w' q" if "q \<in> set (w_outbox w)" for q
    unfolding traced_def using that r(3) by (intro disjI1 bexI [of _ q]) simp_all
  then have "preserves t w w'" using r(1,5) by (simp add: preserves_def subset_iff)
  moreover have "rows_ok t w'"
    using assms(2) new unfolding rows_ok_def r(3,4) announced_def r(5) by fastforce
  ultimately show ?thesis using r(1) by auto
qed

lemma system_step_keeps:
  assumes "system_step t w w'" "system_inv t w"
  shows "system_inv t w' \<and> preserves t w w'"
proof -
  from assms(2) have ok: "rows_ok t w" by (simp add: system_inv_def)
  from assms(1) have "rows_ok t w' \<and> preserves t w w' \<and>
    (\<forall>u \<in> set (w_users w'). u \<in> set (w_users w) \<or> accounted t w' u)"
  proof cases
    case registers
    from step_register [OF this ok] show ?thesis .
  next
    case relays
    from step_relay [OF this ok] show ?thesis by simp
  next
    case purges
    from step_purge [OF this ok] show ?thesis by simp
  next
    case outside
    from step_same [OF this ok] show ?thesis by simp
  qed
  moreover have "accounted t w' u" if "u \<in> set (w_users w)" "preserves t w w'" for u
    using accounted_stays [OF _ that(2)] that(1) assms(2) by (simp add: system_inv_def)
  ultimately show ?thesis by (auto simp: system_inv_def)
qed

lemma system_run_keeps:
  assumes "(system_step t)\<^sup>*\<^sup>* w w'" "system_inv t w"
  shows "system_inv t w' \<and> preserves t w w'"
  using assms
proof (induction rule: rtranclp_induct)
  case base
  then show ?case by (auto simp: preserves_def traced_def)
next
  case (step v u)
  with system_step_keeps show ?case by (blast intro: preserves_trans)
qed

subsection \<open>No event is lost\<close>

text \<open>
  C1: No event is lost.  Start from empty tables and let registrations, relay passes and purges run
  in any order, each succeeding or failing at any statement, with restarts between them.  Then at any
  moment every registered user has the row of its registration event in the outbox or the record of
  it in the topic; a row that is marked published has its message in the topic; and a row that was
  in the outbox at any earlier moment is there still, with the contents it had, or its message is in
  the topic.
\<close>

theorem no_event_is_lost:
  assumes "w_users start = []" "w_outbox start = []"
    and "(system_step t)\<^sup>*\<^sup>* start v" "(system_step t)\<^sup>*\<^sup>* v w"
  shows "(\<forall>u \<in> set (w_users w). (\<exists>r \<in> set (w_outbox w). event_row u r) \<or>
      (\<exists>k \<in> set (w_broker w). event_record t u k)) \<and>
    (\<forall>r \<in> set (w_outbox w). bk_status r = StatusPublished \<longrightarrow> announced t w r) \<and>
    (\<forall>r \<in> set (w_outbox v). (\<exists>r' \<in> set (w_outbox w). content r' = content r) \<or> announced t w r)"
proof -
  have "system_inv t start" using assms(1,2) by (simp add: system_inv_def rows_ok_def)
  from system_run_keeps [OF assms(3) this] have "system_inv t v" by simp
  from system_run_keeps [OF assms(4) this] show ?thesis
    by (simp add: system_inv_def rows_ok_def accounted_def preserves_def traced_def)
qed

text \<open>
  The witness: a registration whose commit reports an error although it took effect, the pass that
  publishes the event, and a purge that empties the table.
\<close>

definition empty_world :: world where
  "empty_world = (sample_world [(7, PgLost (Ext ''reset''))] [])\<lparr>w_outbox := []\<rparr>"

definition after_registration :: world where
  "after_registration = snd (RegisterUser_Execute (\<lambda>s. s) parse_bare (api_uow (\<lambda>t. t)) (\<lambda>t. t) ada_command empty_world)"

definition accounts_topics :: Topics where
  "accounts_topics = [AggregateTypeUser \<mapsto> ''accounts.user.v1'']"

definition after_pass :: world where
  "after_pass = snd (Execute (relay (\<lambda>t. t) accounts_topics 10 1000000000 60000000000 5) after_registration)"

definition after_purge :: world where
  "after_purge = (case PurgePublished_Execute (purge_use_case 0 10) ctx_Err after_pass of
     None \<Rightarrow> after_pass | Some (_, w) \<Rightarrow> w)"

lemma no_event_is_lost_witness:
  "length (w_users after_purge) = 1 \<and> w_outbox after_purge = [] \<and>
   (\<exists>k \<in> set (w_broker after_purge). event_record accounts_topics (hd (w_users after_purge)) k)"
proof -
  have steps: "system_step accounts_topics empty_world after_registration"
    "system_step accounts_topics after_registration after_pass"
    unfolding after_registration_def after_pass_def
    by (rule system_step.registers system_step.relays, rule prod.collapse [symmetric])+
  have "system_step accounts_topics after_pass after_purge"
  proof (cases "PurgePublished_Execute (purge_use_case 0 10) ctx_Err after_pass")
    case None
    then show ?thesis by (simp add: after_purge_def system_step.outside)
  next
    case (Some y)
    then have "after_purge = snd y" by (simp add: after_purge_def case_prod_unfold)
    with Some show ?thesis by (metis prod.collapse system_step.purges)
  qed
  with steps have run: "(system_step accounts_topics)\<^sup>*\<^sup>* empty_world after_purge" by (meson r_into_rtranclp rtranclp_trans)
  have start: "w_users empty_world = []" "w_outbox empty_world = []"
    by (simp_all add: empty_world_def sample_world_def)
  have "case (after_purge, ()) of (w, _) \<Rightarrow> length (w_users w) = 1 \<and> w_outbox w = []" by code_simp
  then have last: "length (w_users after_purge) = 1" "w_outbox after_purge = []"
    by (simp_all only: prod.case)
  then have "hd (w_users after_purge) \<in> set (w_users after_purge)" by (cases "w_users after_purge") auto
  with no_event_is_lost [OF start run rtranclp.rtrancl_refl] last show ?thesis by simp
qed

end
