(* ===== verification/PassMachine.thy ===== *)
theory PassMachine
  imports RelayPass
begin

text \<open>
  The transaction of a relay pass as a machine of small steps: one statement, one produce or one
  commit per step, so that the steps of several relays can be interleaved (\<open>Cluster\<close>).  The machine
  run alone does what \<open>WithTx\<close> and \<open>publishBatch\<close> do.
\<close>

subsection \<open>The machine\<close>

text \<open>
  Where a pass stands: before \<open>BEGIN\<close>; before the claim; before the next message of the batch;
  with the answer to a produce in hand; at the end of the function, before the commit or the
  rollback; returned.
\<close>

datatype phase =
    Opening PublishResult
  | Claiming PublishResult
  | Publishing "PendingMessage list" PublishResult
  | Settling PendingMessage "gerr option" "PendingMessage list" PublishResult
  | Closing "gerr option" PublishResult
  | Closed "gerr option" PublishResult

fun pass_step :: "world PublishPendingBatch \<Rightarrow> world OutboxRepository \<Rightarrow> phase \<Rightarrow> world \<Rightarrow> phase \<times> world" where
  "pass_step uc outbox (Opening res) w =
     (case pg_begin w of
        (Some err, w) \<Rightarrow> (Closed (Some (wrapf ''postgres: begin'' err)) res, w)
      | (None, w) \<Rightarrow> (Claiming res, w))"
| "pass_step uc outbox (Claiming res) w =
     (case ClaimPending outbox (BatchSize (policy uc)) w of
        (Inl err, w) \<Rightarrow> (Closing (Some err) res, w)
      | (Inr batch, w) \<Rightarrow> (Publishing batch (res\<lparr>res_Claimed := int (length batch)\<rparr>), w))"
| "pass_step uc outbox (Publishing [] res) w = (Closing None res, w)"
| "pass_step uc outbox (Publishing (pending # batch) res) w =
     (let (err, w) = publish uc pending w in (Settling pending err batch res, w))"
| "pass_step uc outbox (Settling pending None batch res) w =
     (let res = res\<lparr>res_Published := res_Published res + 1\<rparr>
      in case MarkPublished outbox (pm_ID pending) w of
           (Some err, w) \<Rightarrow> (Closing (Some err) res, w)
         | (None, w) \<Rightarrow> (Publishing batch res, w))"
| "pass_step uc outbox (Settling pending (Some err) batch res) w =
     (if errors_Is err ErrPermanent then
        (let failure = failureOf pending err
         in case MarkFailed outbox (pm_ID pending) (Reason failure) w of
              (Some err', w) \<Rightarrow> (Closing (Some err') res, w)
            | (None, w) \<Rightarrow> (Publishing batch (res\<lparr>res_Permanent := res_Permanent res @ [failure]\<rparr>), w))
      else if errors_Is err ErrTransient then
        (let failure = failureOf pending err;
             (now, w) = clock uc w;
             (delay, w) = policy_Schedule (policy uc) (pm_Attempts pending) w
         in case Reschedule outbox (pm_ID pending) (now + delay) (Reason failure) w of
              (Some err', w) \<Rightarrow> (Closing (Some err') res, w)
            | (None, w) \<Rightarrow> (Closing None (res\<lparr>res_Transient := res_Transient res @ [failure]\<rparr>), w))
      else (Closing (Some err) res, w))"
| "pass_step uc outbox (Closing (Some err) res) w = (Closed (Some err) res, pg_rollback w)"
| "pass_step uc outbox (Closing None res) w =
     (case pg_commit w of
        (Some err, w) \<Rightarrow> (Closed (Some (wrapf ''postgres: commit'' err)) res, pg_rollback w)
      | (None, w) \<Rightarrow> (Closed None res, pg_rollback w))"
| "pass_step uc outbox (Closed err res) w = (Closed err res, w)"

fun pass_steps :: "nat \<Rightarrow> world PublishPendingBatch \<Rightarrow> world OutboxRepository \<Rightarrow> phase \<Rightarrow> world \<Rightarrow> phase \<times> world" where
  "pass_steps 0 uc outbox ph w = (ph, w)"
| "pass_steps (Suc n) uc outbox ph w = (let (ph, w) = pass_step uc outbox ph w in pass_steps n uc outbox ph w)"

subsection \<open>The machine runs the pass\<close>

lemma pass_steps_add:
  "pass_steps (m + n) uc outbox ph w = (let (ph, w) = pass_steps m uc outbox ph w in pass_steps n uc outbox ph w)"
  by (induction m arbitrary: ph w) (simp_all add: case_prod_unfold Let_def)

lemma steps_then:
  "pass_steps m uc outbox ph w = (ph', w') \<Longrightarrow> pass_steps n uc outbox ph' w' = y \<Longrightarrow>
     pass_steps (m + n) uc outbox ph w = y"
  by (simp add: pass_steps_add)

lemma step_then:
  "pass_step uc outbox ph w = (ph', w') \<Longrightarrow> pass_steps n uc outbox ph' w' = y \<Longrightarrow>
     pass_steps (Suc n) uc outbox ph w = y"
  by simp

text \<open>At most two steps per message of the batch, and one to see that it is empty.\<close>

lemma machine_batch:
  "publishBatch uc outbox batch res w = ((err, res'), w') \<Longrightarrow>
     \<exists>n \<le> 2 * length batch + 1. pass_steps n uc outbox (Publishing batch res) w = (Closing err res', w')"
proof (induction batch arbitrary: res w)
  case Nil
  then have "pass_steps 1 uc outbox (Publishing [] res) w = (Closing err res', w')" by simp
  then show ?case by fastforce
next
  case (Cons m batch)
  obtain x w1 where p: "publish uc m w = (x, w1)" by (metis prod.exhaust)
  then have s1: "pass_step uc outbox (Publishing (m # batch) res) w = (Settling m x batch res, w1)" by simp
  obtain ph w2 where s2: "pass_step uc outbox (Settling m x batch res) w1 = (ph, w2)" by (metis prod.exhaust)
  have two: "pass_steps (Suc (Suc n)) uc outbox (Publishing (m # batch) res) w = pass_steps n uc outbox ph w2" for n
    using step_then [OF s1 step_then [OF s2 refl]] .
  consider (on) r where "ph = Publishing batch r" "publishBatch uc outbox batch r w2 = ((err, res'), w')"
    | (off) "ph = Closing err res'" "w2 = w'"
  proof (cases x)
    case None
    with Cons.prems p s2 show thesis
      by (auto simp: Let_def intro: on off split: prod.splits option.splits)
  next
    case (Some e)
    with Cons.prems p s2 show thesis
      by (cases "errors_Is e ErrPermanent")
        (auto simp: Let_def intro: on off split: prod.splits option.splits if_splits)
  qed
  then show ?case
  proof cases
    case on
    from Cons.IH [OF on(2)] obtain n where
      "n \<le> 2 * length batch + 1" "pass_steps n uc outbox (Publishing batch r) w2 = (Closing err res', w')" by blast
    with two on(1) show ?thesis by (intro exI [of _ "Suc (Suc n)"]) simp
  next
    case off
    with two [of 0] show ?thesis by (intro exI [of _ 2]) (simp add: numeral_2_eq_2)
  qed
qed

lemma machine_body:
  assumes "pass_body uc outbox res w = ((err, res'), w')"
  shows "\<exists>n. pass_steps n uc outbox (Claiming res) w = (Closing err res', w')"
proof -
  obtain y w1 where c: "ClaimPending outbox (BatchSize (policy uc)) w = (y, w1)" by (metis prod.exhaust)
  show ?thesis
  proof (cases y)
    case (Inl e)
    with assms c have "pass_steps 1 uc outbox (Claiming res) w = (Closing err res', w')"
      by (auto simp: pass_body_def)
    then show ?thesis ..
  next
    case (Inr batch)
    with assms c have
      "publishBatch uc outbox batch (res\<lparr>res_Claimed := int (length batch)\<rparr>) w1 = ((err, res'), w')"
      by (simp add: pass_body_def)
    from machine_batch [OF this] obtain n where
      "pass_steps n uc outbox (Publishing batch (res\<lparr>res_Claimed := int (length batch)\<rparr>)) w1 = (Closing err res', w')"
      by blast
    moreover have "pass_step uc outbox (Claiming res) w = (Publishing batch (res\<lparr>res_Claimed := int (length batch)\<rparr>), w1)"
      using c Inr by simp
    ultimately show ?thesis using step_then by blast
  qed
qed

text \<open>
  The machine is the pass: stepped on its own from before \<open>BEGIN\<close>, it comes to an end with the
  error, the result and the world that the unit of work of \<open>Execute\<close> returns around the claim and
  the batch, for every outcome of every statement and every produce.
\<close>

lemma pass_machine_runs_the_pass:
  "\<exists>n err res' w'. PublishUnitOfWork_Do stamp (pass_body uc) res w = ((err, res'), w') \<and>
     pass_steps n uc (NewRelayOutbox stamp) (Opening res) w = (Closed err res', w')"
proof -
  let ?o = "NewRelayOutbox stamp"
  obtain x w1 where b: "pg_begin w = (x, w1)" by (metis prod.exhaust)
  show ?thesis
  proof (cases x)
    case (Some e)
    with b have "pass_steps 1 uc ?o (Opening res) w = (Closed (Some (wrapf ''postgres: begin'' e)) res, w1)" by simp
    moreover from b Some have "PublishUnitOfWork_Do stamp (pass_body uc) res w = ((Some (wrapf ''postgres: begin'' e), res), w1)"
      by (simp add: PublishUnitOfWork_Do_def WithTx_def)
    ultimately show ?thesis by blast
  next
    case None
    with b have s: "pass_step uc ?o (Opening res) w = (Claiming res, w1)" by simp
    obtain err res1 w2 where f: "pass_body uc ?o res w1 = ((err, res1), w2)" by (metis prod.exhaust)
    from machine_body [OF this] obtain n where n: "pass_steps n uc ?o (Claiming res) w1 = (Closing err res1, w2)" by blast
    obtain err' w' where e: "pass_step uc ?o (Closing err res1) w2 = (Closed err' res1, w')"
      and u: "PublishUnitOfWork_Do stamp (pass_body uc) res w = ((err', res1), w')"
      using b None f
      by (cases err; cases "pg_commit w2"; cases "fst (pg_commit w2)")
        (auto simp: PublishUnitOfWork_Do_def WithTx_def)
    from e have "pass_steps 1 uc ?o (Closing err res1) w2 = (Closed err' res1, w')" by simp
    from step_then [OF s steps_then [OF n this]] u show ?thesis by blast
  qed
qed

end
