(* ===== verification/Cluster.thy ===== *)
theory Cluster
  imports PassMachine Delivery WriteProperties
begin

text \<open>
  Several relays on one outbox.  Their passes are interleaved statement by statement, with
  registrations and purges between them; a relay can be killed at any point, and the server then
  drops its transaction.  Every step is labelled with the events it puts at risk of a second
  delivery: the ones whose produce succeeded but whose mark will not be committed.
\<close>

subsection \<open>Sessions\<close>

text \<open>
  A session is a relay process with its own connection: where its pass stands, and its world, of
  which only the transaction and the private parts (clock, script, log) are its own.
\<close>

record session =
  ses_phase :: phase
  ses_world :: world

record cluster =
  cl_outbox :: "outbox_row list"
  cl_broker :: "kafka_record list"
  cl_sessions :: "session list"

definition held :: "txn option \<Rightarrow> int list" where
  "held tx = (case tx of None \<Rightarrow> [] | Some x \<Rightarrow> tx_locks x)"

abbreviation ses_tx :: "session \<Rightarrow> txn option" where
  "ses_tx ses \<equiv> w_tx (ses_world ses)"

definition locked_by_others :: "session list \<Rightarrow> nat \<Rightarrow> int list" where
  "locked_by_others ss s = concat (map (\<lambda>j. held (ses_tx (ss ! j))) (filter (\<lambda>j. j \<noteq> s) [0..<length ss]))"

text \<open>What session \<open>s\<close> sees: the committed table, the topic, and the rows the others have locked.\<close>

definition enter :: "cluster \<Rightarrow> nat \<Rightarrow> world" where
  "enter c s = (ses_world (cl_sessions c ! s))
     \<lparr>w_outbox := cl_outbox c, w_broker := cl_broker c, w_locked := locked_by_others (cl_sessions c) s\<rparr>"

definition leave :: "cluster \<Rightarrow> nat \<Rightarrow> phase \<Rightarrow> world \<Rightarrow> cluster" where
  "leave c s ph w = \<lparr>cl_outbox = w_outbox w, cl_broker = w_broker w,
     cl_sessions = (cl_sessions c)[s := \<lparr>ses_phase = ph, ses_world = w\<rparr>]\<rparr>"

subsection \<open>Deliveries and the events at risk\<close>

definition row_event :: "outbox_row \<Rightarrow> string" where
  "row_event r = uuid_text (row_event_id r)"

definition pm_event :: "PendingMessage \<Rightarrow> string" where
  "pm_event m = uuid_text (env_EventID m)"

text \<open>How often an event is in the topic.\<close>

definition deliveries :: "kafka_record list \<Rightarrow> string \<Rightarrow> nat" where
  "deliveries ks e = length (filter (\<lambda>k. map_of (rec_Headers k) HeaderEventID = Some e) ks)"

text \<open>The rows an open transaction has marked published, which a rollback would make pending again.\<close>

definition unsettled :: "outbox_row list \<Rightarrow> txn option \<Rightarrow> string list" where
  "unsettled rows tx = (case tx of None \<Rightarrow> [] | Some x \<Rightarrow>
     map row_event (filter (\<lambda>r. bk_status r \<noteq> StatusPublished \<and> bk_status (patched x r) = StatusPublished) rows))"

fun acked :: "phase \<Rightarrow> PendingMessage option" where
  "acked (Settling m None ms res) = Some m"
| "acked _ = None"

definition at_stake :: "phase \<Rightarrow> world \<Rightarrow> string list" where
  "at_stake ph w = unsettled (w_outbox w) (w_tx w) @ (case acked ph of None \<Rightarrow> [] | Some m \<Rightarrow> [pm_event m])"

text \<open>
  The risk of a step: a produce that was refused although the record is in the topic, a mark that
  fails behind an acknowledged produce, an end of the transaction that did not change the table.
\<close>

fun risk :: "phase \<Rightarrow> world \<Rightarrow> phase \<Rightarrow> world \<Rightarrow> string list" where
  "risk (Publishing _ _) w (Settling m (Some _) _ _) w' = (if w_broker w' = w_broker w then [] else [pm_event m])"
| "risk (Settling m None _ _) w (Closing (Some _) _) w' = [pm_event m]"
| "risk (Closing _ _) w (Closed _ _) w' = (if w_outbox w' = w_outbox w then unsettled (w_outbox w) (w_tx w) else [])"
| "risk _ w _ w' = []"

subsection \<open>Steps\<close>

text \<open>
  New rows are behind an id no row of the table has, and carry an event id that was not used before:
  what the sequence and a UUID promise.  The order of the ids is free, a registration with a smaller
  id may commit late.
\<close>

definition fresh_rows :: "cluster \<Rightarrow> outbox_row list \<Rightarrow> bool" where
  "fresh_rows c new \<longleftrightarrow> distinct (map row_id (cl_outbox c @ new)) \<and> distinct (map row_event (cl_outbox c @ new)) \<and>
     list_all (\<lambda>r. deliveries (cl_broker c) (row_event r) = 0) new"

text \<open>
  \<open>works\<close>: a session takes the next step of its pass.  \<open>begins\<close>: it starts the next pass, or it was
  killed and another process starts in its place, and what transaction was open is rolled back.
  \<open>idles\<close>: whatever changes in a process besides its transaction.  \<open>purges\<close>: a page of the purge.
\<close>

inductive relay_step :: "Topics \<Rightarrow> cluster \<Rightarrow> string list \<Rightarrow> cluster \<Rightarrow> bool" for t where
  works: "s < length (cl_sessions c) \<Longrightarrow>
     pass_step (relay stamp t b base cap m) (NewRelayOutbox stamp) (ses_phase (cl_sessions c ! s)) (enter c s) = (ph, w) \<Longrightarrow>
     relay_step t c (risk (ses_phase (cl_sessions c ! s)) (enter c s) ph w) (leave c s ph w)"
| begins: "s < length (cl_sessions c) \<Longrightarrow> w_tx w = None \<Longrightarrow>
     relay_step t c (at_stake (ses_phase (cl_sessions c ! s)) (enter c s))
       (c\<lparr>cl_sessions := (cl_sessions c)[s := \<lparr>ses_phase = Opening (first_result b), ses_world = w\<rparr>]\<rparr>)"
| idles: "s < length (cl_sessions c) \<Longrightarrow> w_tx w = ses_tx (cl_sessions c ! s) \<Longrightarrow>
     relay_step t c [] (c\<lparr>cl_sessions := (cl_sessions c)[s := (cl_sessions c ! s)\<lparr>ses_world := w\<rparr>]\<rparr>)"
| purges: "OutboxPurger_PurgePublished retention limit w = (y, w') \<Longrightarrow> w_outbox w = cl_outbox c \<Longrightarrow>
     relay_step t c [] (c\<lparr>cl_outbox := w_outbox w'\<rparr>)"

text \<open>With whole registrations between the steps of the relays.\<close>

inductive cluster_step :: "Topics \<Rightarrow> cluster \<Rightarrow> string list \<Rightarrow> cluster \<Rightarrow> bool" for t where
  relays: "relay_step t c h d \<Longrightarrow> cluster_step t c h d"
| registers: "RegisterUser_Execute uni parse (api_uow stamp) stamp cmd w = (x, w') \<Longrightarrow>
     w_outbox w = cl_outbox c \<Longrightarrow> w_outbox w' = cl_outbox c @ new \<Longrightarrow> fresh_rows c new \<Longrightarrow>
     cluster_step t c [] (c\<lparr>cl_outbox := w_outbox w'\<rparr>)"

inductive cluster_run :: "Topics \<Rightarrow> cluster \<Rightarrow> string list \<Rightarrow> cluster \<Rightarrow> bool" for t c where
  start: "cluster_run t c [] c"
| more: "cluster_run t c hs d \<Longrightarrow> cluster_step t d h d' \<Longrightarrow> cluster_run t c (hs @ h) d'"

end
