(* ===== verification/Interleaving.thy ===== *)
theory Interleaving
  imports Cluster
begin

text \<open>
  The invariant of the interleaved relays.  \<open>move\<close> is the abstract view of one step of a pass, its
  effect on the table, the topic and the session's transaction; every step of the machine is a move.
  A session's own moves keep its invariant, and what the others do only changes rows it has not
  locked.
\<close>

subsection \<open>Observing a phase\<close>

fun idle :: "phase \<Rightarrow> bool" where
  "idle (Opening res) = True"
| "idle (Closed err res) = True"
| "idle _ = False"

fun todo :: "phase \<Rightarrow> PendingMessage list" where
  "todo (Publishing ms res) = ms"
| "todo (Settling m x ms res) = m # ms"
| "todo _ = []"

fun claiming :: "phase \<Rightarrow> bool" where
  "claiming (Claiming res) = True"
| "claiming _ = False"

lemma idle_simps [dest]: "idle ph \<Longrightarrow> todo ph = [] \<and> acked ph = None"
  by (cases ph) auto

lemma claiming_simps: "claiming ph \<Longrightarrow> todo ph = [] \<and> acked ph = None \<and> \<not> idle ph"
  by (cases ph) auto

subsection \<open>The invariant of a session\<close>

definition announced_in :: "Topics \<Rightarrow> kafka_record list \<Rightarrow> outbox_row \<Rightarrow> bool" where
  "announced_in t ks r \<longleftrightarrow> (\<exists>k \<in> set ks. carries t k r)"

text \<open>
  A row the session has locked is pending in the table, keeps its contents, and is marked published
  only behind its record in the topic.
\<close>

definition lock_ok :: "Topics \<Rightarrow> kafka_record list \<Rightarrow> txn \<Rightarrow> outbox_row \<Rightarrow> bool" where
  "lock_ok t ks x r \<longleftrightarrow> bk_status r = StatusPending \<and> content (patched x r) = content r \<and>
     (bk_status (patched x r) = StatusPublished \<longrightarrow> announced_in t ks r)"

definition patches_locked :: "txn \<Rightarrow> bool" where
  "patches_locked x \<longleftrightarrow> (\<forall>i. i \<notin> set (tx_locks x) \<longrightarrow> tx_patch x i = (\<lambda>r. r))"

definition todo_ok :: "outbox_row list \<Rightarrow> phase \<Rightarrow> txn \<Rightarrow> bool" where
  "todo_ok rows ph x \<longleftrightarrow> distinct (map pm_ID (todo ph)) \<and>
     (\<forall>m \<in> set (todo ph). \<exists>r \<in> set rows. m = scan_row r \<and> row_id r \<in> set (tx_locks x) \<and> patched x r = r)"

definition acked_ok :: "Topics \<Rightarrow> outbox_row list \<Rightarrow> kafka_record list \<Rightarrow> phase \<Rightarrow> txn \<Rightarrow> bool" where
  "acked_ok t rows ks ph x \<longleftrightarrow> (\<forall>m. acked ph = Some m \<longrightarrow>
     (\<exists>r \<in> set rows. m = scan_row r \<and> row_id r \<in> set (tx_locks x) \<and> announced_in t ks r))"

definition tx_ok :: "Topics \<Rightarrow> outbox_row list \<Rightarrow> kafka_record list \<Rightarrow> phase \<Rightarrow> txn \<Rightarrow> bool" where
  "tx_ok t rows ks ph x \<longleftrightarrow> \<not> idle ph \<and> (claiming ph \<longrightarrow> tx_locks x = []) \<and>
     tx_users x = [] \<and> tx_rows x = [] \<and> patches_locked x \<and>
     set (tx_locks x) \<subseteq> row_id ` set rows \<and>
     (\<forall>r \<in> set rows. row_id r \<in> set (tx_locks x) \<longrightarrow> lock_ok t ks x r) \<and>
     todo_ok rows ph x \<and> acked_ok t rows ks ph x"

definition session_ok :: "Topics \<Rightarrow> outbox_row list \<Rightarrow> kafka_record list \<Rightarrow> phase \<Rightarrow> txn option \<Rightarrow> bool" where
  "session_ok t rows ks ph tx \<longleftrightarrow> (case tx of None \<Rightarrow> idle ph | Some x \<Rightarrow> tx_ok t rows ks ph x)"

lemmas tx_ok_defs = tx_ok_def todo_ok_def acked_ok_def

text \<open>What the others may do: rows this session has locked stay, the topic grows.\<close>

definition spares :: "int list \<Rightarrow> outbox_row list \<Rightarrow> outbox_row list \<Rightarrow> bool" where
  "spares locks rows rows' \<longleftrightarrow> (\<forall>r. row_id r \<in> set locks \<longrightarrow> (r \<in> set rows' \<longleftrightarrow> r \<in> set rows))"

lemma announced_in_mono: "announced_in t ks r \<Longrightarrow> set ks \<subseteq> set ks' \<Longrightarrow> announced_in t ks' r"
  by (auto simp: announced_in_def)

lemma announced_in_content: "content r = content s \<Longrightarrow> announced_in t ks r = announced_in t ks s"
  by (simp add: announced_in_def carries_content [of r s])

lemma lock_ok_mono: "lock_ok t ks x r \<Longrightarrow> set ks \<subseteq> set ks' \<Longrightarrow> lock_ok t ks' x r"
  by (auto simp: lock_ok_def intro: announced_in_mono)

lemma spares_refl [simp]: "spares locks rows rows"
  by (simp add: spares_def)

lemma sparesD: "spares locks rows rows' \<Longrightarrow> r \<in> set rows \<Longrightarrow> row_id r \<in> set locks \<Longrightarrow> r \<in> set rows'"
  by (simp add: spares_def)

lemma spares_subset: "spares locks rows rows' \<Longrightarrow> set locks \<subseteq> row_id ` set rows \<Longrightarrow> set locks \<subseteq> row_id ` set rows'"
  unfolding spares_def by blast

lemma session_ok_interference:
  assumes "session_ok t rows ks ph tx" "spares (held tx) rows rows'" "set ks \<subseteq> set ks'"
  shows "session_ok t rows' ks' ph tx"
proof (cases tx)
  case (Some x)
  with assms have ok: "tx_ok t rows ks ph x" and sp: "spares (tx_locks x) rows rows'"
    by (simp_all add: session_ok_def held_def)
  note [dest] = sparesD [OF sp]
  have "todo_ok rows' ph x" using ok unfolding tx_ok_def todo_ok_def by blast
  moreover have "acked_ok t rows' ks' ph x"
    using ok announced_in_mono [OF _ assms(3)] unfolding tx_ok_def acked_ok_def by blast
  moreover have "lock_ok t ks' x r" if "r \<in> set rows'" "row_id r \<in> set (tx_locks x)" for r
  proof -
    from sp that have "r \<in> set rows" by (simp add: spares_def)
    with ok that(2) have "lock_ok t ks x r" by (simp add: tx_ok_def)
    then show ?thesis using assms(3) by (rule lock_ok_mono)
  qed
  ultimately have "tx_ok t rows' ks' ph x"
    using ok spares_subset [OF sp] by (simp add: tx_ok_def)
  with Some show ?thesis by (simp add: session_ok_def)
qed (use assms in \<open>simp add: session_ok_def\<close>)

subsection \<open>Moves\<close>

text \<open>
  \<open>rests\<close>: outside a transaction.  \<open>steps\<close>: inside it, without effect.  \<open>produces\<close> and
  \<open>loses_ack\<close>: the record reached the topic.  \<open>marks\<close> and \<open>fails\<close>: the row of the message is
  updated, or its mark was refused.  \<open>drops\<close> and \<open>commits\<close>: the two ends.
\<close>

inductive move :: "Topics \<Rightarrow> int list \<Rightarrow> outbox_row list \<Rightarrow> kafka_record list \<Rightarrow> phase \<Rightarrow> txn option \<Rightarrow>
    string list \<Rightarrow> outbox_row list \<Rightarrow> kafka_record list \<Rightarrow> phase \<Rightarrow> txn option \<Rightarrow> bool"
  for t locked rows ks where
  rests: "idle ph \<Longrightarrow> idle ph' \<Longrightarrow> move t locked rows ks ph None [] rows ks ph' None"
| opens: "idle ph \<Longrightarrow> move t locked rows ks ph None [] rows ks (Claiming res) (Some (fresh_txn now))"
| claims: "claiming ph \<Longrightarrow> set mine \<subseteq> set rows \<Longrightarrow> distinct (map row_id mine) \<Longrightarrow> \<forall>r \<in> set mine. due now locked r \<Longrightarrow>
     todo ph' = [] \<or> todo ph' = map scan_row mine \<Longrightarrow> \<not> idle ph' \<Longrightarrow> \<not> claiming ph' \<Longrightarrow> acked ph' = None \<Longrightarrow>
     move t locked rows ks ph (Some x) [] rows ks ph' (Some (x\<lparr>tx_locks := map row_id mine, tx_aborted := a\<rparr>))"
| steps: "\<not> claiming ph \<Longrightarrow> acked ph = None \<Longrightarrow> acked ph' = None \<Longrightarrow> \<not> claiming ph' \<Longrightarrow> \<not> idle ph' \<Longrightarrow>
     todo ph' = [] \<or> todo ph' = todo ph \<Longrightarrow>
     move t locked rows ks ph (Some x) [] rows ks ph' (Some (x\<lparr>tx_aborted := a\<rparr>))"
| produces: "Topics_For t (env_AggregateType m) = Inr topic \<Longrightarrow>
     move t locked rows ks (Publishing (m # ms) res) (Some x) []
       rows (ks @ [record_of (message_of m topic)]) (Settling m None ms res) (Some x)"
| loses_ack: "Topics_For t (env_AggregateType m) = Inr topic \<Longrightarrow>
     move t locked rows ks (Publishing (m # ms) res) (Some x) [pm_event m]
       rows (ks @ [record_of (message_of m topic)]) (Settling m (Some e) ms res) (Some x)"
| marks: "todo ph' = [] \<or> todo ph' = ms \<Longrightarrow> acked ph' = None \<Longrightarrow> \<not> claiming ph' \<Longrightarrow> \<not> idle ph' \<Longrightarrow>
     set locks = set (tx_locks x) \<Longrightarrow>
     \<forall>r \<in> set rows. row_id r = pm_ID m \<longrightarrow> content (p r) = content r \<and> (bk_status (p r) = StatusPublished \<longleftrightarrow> y = None) \<Longrightarrow>
     move t locked rows ks (Settling m y ms res) (Some x) h
       rows ks ph' (Some (x\<lparr>tx_patch := (tx_patch x)(pm_ID m := p), tx_locks := locks\<rparr>))"
| fails: "(y = None \<longrightarrow> h = [pm_event m]) \<Longrightarrow>
     move t locked rows ks (Settling m y ms res) (Some x) h
       rows ks (Closing err res') (Some (x\<lparr>tx_aborted := a\<rparr>))"
| drops: "idle ph' \<Longrightarrow> move t locked rows ks (Closing err res) (Some x) (unsettled rows (Some x)) rows ks ph' None"
| commits: "idle ph' \<Longrightarrow> move t locked rows ks (Closing err res) (Some x) h (map (patched x) rows) ks ph' None"

subsection \<open>Every step of the machine is a move\<close>

lemma record_update_same [simp]: "x\<lparr>tx_aborted := tx_aborted x\<rparr> = x"
  by simp

lemma markOne_session:
  assumes "markOne what i f w = (y, w')" "w_tx w = Some x"
  obtains (refused) a where "w_tx w' = Some (x\<lparr>tx_aborted := a\<rparr>)" "y \<noteq> None"
  | (updated) "\<forall>r \<in> set (base_rows w x). row_id r = i \<longrightarrow> (\<exists>r'. f x (patched x r) = Inr r')"
      "w_tx w' = Some (x\<lparr>tx_patch := (tx_patch x)
         (i := (\<lambda>r. case f x (patched x r) of Inl _ \<Rightarrow> r | Inr r' \<Rightarrow> r')),
         tx_locks := tx_locks x @ map row_id (filter (\<lambda>r. row_id r = i) (base_rows w x))\<rparr>)"
proof -
  obtain z w1 where z: "in_tx (update_row i f) w = (z, w1)" by (metis prod.exhaust)
  with assms(1) have w1: "w1 = w'" by (auto simp: markOne_def split: sum.splits if_splits)
  show thesis
  proof (cases z)
    case (Inl e)
    with assms(1) z have "y \<noteq> None" by (auto simp: markOne_def)
    with z Inl w1 assms(2) refused [of True] refused [of "tx_aborted x"] show thesis
      by (auto simp: in_tx_def abort_def split: if_splits pg_reply.splits sum.splits prod.splits)
  next
    case (Inr n)
    with z w1 have "in_tx (update_row i f) w = (Inr n, w')" by simp
    then obtain x' s where u: "update_row i f w x = (Inr (n, x'), s)" "w' = (tick w)\<lparr>w_seq := s, w_tx := Some x'\<rparr>"
      by (rule in_tx_Inr) (use assms(2) in simp)
    let ?hits = "filter (\<lambda>r. row_id r = i) (base_rows w x)"
    from u(1) have none: "first_some (\<lambda>r. case f x (patched x r) of Inl e \<Rightarrow> Some e | Inr _ \<Rightarrow> None) ?hits = None"
      and x': "x' = x\<lparr>tx_patch := (tx_patch x)(i := (\<lambda>r. case f x (patched x r) of Inl _ \<Rightarrow> r | Inr r' \<Rightarrow> r')),
           tx_locks := tx_locks x @ map row_id ?hits\<rparr>"
      by (auto simp: update_row_def Let_def split: if_splits option.splits)
    have "\<exists>r'. f x (patched x r) = Inr r'" if "r \<in> set (base_rows w x)" "row_id r = i" for r
      using none that by (cases "f x (patched x r)") (auto simp: first_some_None_iff)
    then show thesis using updated by (simp add: u(2) x')
  qed
qed

lemma unique_row: "distinct (map row_id rows) \<Longrightarrow> r \<in> set rows \<Longrightarrow> s \<in> set rows \<Longrightarrow> row_id r = row_id s \<Longrightarrow> r = s"
  by (rule distinct_fst_eq)

text \<open>A mark on the row of the message at hand.\<close>

lemma mark_move:
  assumes mark: "markOne what (pm_ID m) f w = (z, w')"
    and ok: "session_ok t (w_outbox w) ks (Settling m y ms res) (w_tx w)"
    and dist: "distinct (map row_id (w_outbox w))"
    and f: "\<And>x r r'. f x r = Inr r' \<Longrightarrow> bk_status r = StatusPending \<Longrightarrow>
       content r' = content r \<and> (bk_status r' = StatusPublished \<longleftrightarrow> y = None)"
    and on: "z = None \<Longrightarrow> (\<exists>r. ph' = Publishing ms r) \<or> (\<exists>r. ph' = Closing None r)"
    and off: "z \<noteq> None \<Longrightarrow> (\<exists>e r. ph' = Closing e r) \<and> (y = None \<longrightarrow> h = [pm_event m])"
  shows "move t locked (w_outbox w) ks (Settling m y ms res) (w_tx w) h (w_outbox w) ks ph' (w_tx w')"
proof -
  from ok obtain x where x: "w_tx w = Some x" and tx: "tx_ok t (w_outbox w) ks (Settling m y ms res) x"
    by (cases "w_tx w") (auto simp: session_ok_def)
  from tx obtain r where r: "r \<in> set (w_outbox w)" "m = scan_row r" "row_id r \<in> set (tx_locks x)" "patched x r = r"
    by (auto simp: tx_ok_def todo_ok_def)
  from tx r have pend: "bk_status r = StatusPending" by (auto simp: tx_ok_def lock_ok_def)
  have id: "pm_ID m = row_id r" using r(2) by (simp add: scan_row_def)
  from tx have base: "base_rows w x = w_outbox w" by (simp add: base_rows_def tx_ok_def)
  have only: "s = r" if "s \<in> set (w_outbox w)" "row_id s = pm_ID m" for s
    using unique_row [OF dist that(1) r(1)] that(2) id by simp
  from mark x show ?thesis
  proof (cases rule: markOne_session)
    case (refused a)
    with off obtain err r' where "ph' = Closing err r'" "y = None \<longrightarrow> h = [pm_event m]" by blast
    with x refused(1) show ?thesis by (simp add: move.fails)
  next
    case updated
    let ?p = "\<lambda>r. case f x (patched x r) of Inl _ \<Rightarrow> r | Inr r' \<Rightarrow> r'"
    from updated(1) base r(1) id obtain r' where r': "f x r = Inr r'" using r(4) by auto
    have "\<forall>s \<in> set (w_outbox w). row_id s = pm_ID m \<longrightarrow>
        content (?p s) = content s \<and> (bk_status (?p s) = StatusPublished \<longleftrightarrow> y = None)"
      using only r(4) r' f [OF r' pend] by auto
    moreover have "set (tx_locks x @ map row_id (filter (\<lambda>r. row_id r = pm_ID m) (base_rows w x))) = set (tx_locks x)"
      using only base r(3) id by auto
    moreover have "(todo ph' = [] \<or> todo ph' = ms) \<and> acked ph' = None \<and> \<not> claiming ph' \<and> \<not> idle ph'"
      using on off by (cases "z = None") auto
    ultimately show ?thesis unfolding x updated(2) by (intro move.marks) simp_all
  qed
qed

lemma claim_move:
  assumes run: "RelayOutbox_ClaimPending b w = (y, w')"
    and ok: "session_ok t (w_outbox w) ks (Claiming res) (w_tx w)" and dist: "distinct (map row_id (w_outbox w))"
    and ph: "case y of Inl e \<Rightarrow> ph' = Closing (Some e) res | Inr ms \<Rightarrow> \<exists>r. ph' = Publishing ms r"
  shows "move t (w_locked w) (w_outbox w) ks (Claiming res) (w_tx w) [] (w_outbox w) ks ph' (w_tx w')"
proof -
  from ok obtain x where x: "w_tx w = Some x" and tx: "tx_ok t (w_outbox w) ks (Claiming res) x"
    by (cases "w_tx w") (auto simp: session_ok_def)
  from tx have nolocks: "tx_locks x = []" "tx_rows x = []" "patches_locked x" by (simp_all add: tx_ok_def)
  then have view: "tx_view w x = w_outbox w"
    by (simp add: tx_view_def base_rows_def patched_def [abs_def] patches_locked_def)
  obtain z w1 where c: "in_tx (claimPending b) w = (z, w1)" by (metis prod.exhaust)
  show ?thesis
  proof (cases z)
    case (Inl e)
    with run c have "w' = w1" and ph': "ph' = Closing (Some (wrapf ''postgres: claim outbox'' e)) res"
      using ph by (auto simp: RelayOutbox_ClaimPending_def)
    with c Inl x have "\<exists>a. w_tx w' = Some (x\<lparr>tx_aborted := a\<rparr>)"
      by (auto simp: in_tx_def abort_def split: if_splits pg_reply.splits sum.splits prod.splits
          intro: exI [of _ "tx_aborted x"])
    then obtain a where a: "w_tx w' = Some (x\<lparr>tx_aborted := a\<rparr>)" by blast
    have "move t (w_locked w) (w_outbox w) ks (Claiming res) (Some x) [] (w_outbox w) ks ph'
        (Some (x\<lparr>tx_locks := map row_id ([] :: outbox_row list), tx_aborted := a\<rparr>))"
      by (rule move.claims) (simp_all add: ph')
    moreover have "x\<lparr>tx_locks := map row_id ([] :: outbox_row list), tx_aborted := a\<rparr> = x\<lparr>tx_aborted := a\<rparr>" using nolocks by simp
    ultimately show ?thesis unfolding x a by simp
  next
    case (Inr mine)
    with c obtain x' s where b: "claimPending b w x = (Inr (mine, x'), s)" and w1: "w_tx w1 = Some x'"
      using x by (auto elim!: in_tx_Inr)
    from b view nolocks(1) have mine: "mine = take (nat b) (sort_key row_id (filter (due (tx_now x) (w_locked w)) (w_outbox w)))"
      and x': "x' = x\<lparr>tx_locks := map row_id mine\<rparr>"
      by (auto simp: claimPending_def Let_def split: if_splits)
    have sub: "r \<in> set (w_outbox w) \<and> due (tx_now x) (w_locked w) r" if "r \<in> set mine" for r
      using that mine by (auto dest!: in_set_takeD)
    have "distinct (map row_id (sort_key row_id (filter (due (tx_now x) (w_locked w)) (w_outbox w))))"
      using dist by (simp add: distinct_map inj_on_def)
    then have dmine: "distinct (map row_id mine)" unfolding mine take_map [symmetric] by (rule distinct_take)
    obtain q w2 where e: "in_tx rows_Err w1 = (q, w2)" by (metis prod.exhaust)
    then have "\<exists>a. w_tx w2 = Some (x'\<lparr>tx_aborted := a\<rparr>)"
      using w1 by (auto simp: in_tx_def abort_def rows_Err_def split: if_splits pg_reply.splits
          intro: exI [of _ "tx_aborted x'"])
    moreover have "\<exists>a. w_tx w1 = Some (x'\<lparr>tx_aborted := a\<rparr>)" using w1 by (auto intro: exI [of _ "tx_aborted x'"])
    moreover have "(w' = w1 \<or> w' = w2) \<and> (todo ph' = [] \<or> todo ph' = map scan_row mine) \<and>
        \<not> idle ph' \<and> \<not> claiming ph' \<and> acked ph' = None"
      using run c Inr e ph
      by (auto simp: RelayOutbox_ClaimPending_def dest: scan_rows_Inr split: sum.splits)
    ultimately obtain a where a: "w_tx w' = Some (x\<lparr>tx_locks := map row_id mine, tx_aborted := a\<rparr>)"
        and ph': "todo ph' = [] \<or> todo ph' = map scan_row mine" "\<not> idle ph'" "\<not> claiming ph'" "acked ph' = None"
      unfolding x' by auto
    show ?thesis unfolding x a
      by (rule move.claims [where now = "tx_now x"]) (use sub dmine ph' in \<open>auto simp: subset_iff\<close>)
  qed
qed

lemma move_steps_same:
  "\<not> claiming ph \<Longrightarrow> acked ph = None \<Longrightarrow> acked ph' = None \<Longrightarrow> \<not> claiming ph' \<Longrightarrow> \<not> idle ph' \<Longrightarrow>
     todo ph' = [] \<or> todo ph' = todo ph \<Longrightarrow> tx = Some x \<Longrightarrow> move t locked rows ks ph tx [] rows ks ph' tx"
  using move.steps [of ph ph' t locked rows ks x "tx_aborted x"] by simp

lemma publish_move:
  assumes "publish (relay stamp t b base cap mx) m w = (y, w')" "w_tx w = Some x"
  shows "move t locked (w_outbox w) (w_broker w) (Publishing (m # ms) res) (w_tx w)
      (risk (Publishing (m # ms) res) w (Settling m y ms res) w')
      (w_outbox w') (w_broker w') (Settling m y ms res) (w_tx w')"
proof (cases "Topics_For t (env_AggregateType m)")
  case (Inl e)
  with assms have "y = Some e" "w' = w" by (simp_all add: publish_def port_simps)
  with assms(2) show ?thesis by (auto intro!: move_steps_same)
next
  case (Inr topic)
  with assms(1) have "Publisher_Publish (message_of m topic) w = (y, w')" by (simp add: publish_def port_simps)
  then show ?thesis
  proof (cases rule: Publisher_Publish_cases)
    case acked
    with Inr assms(2) show ?thesis by (simp add: move.produces)
  next
    case (refused e)
    then obtain e' where y: "y = Some e'" by (metis classify_not_None option.exhaust)
    show ?thesis unfolding y using refused(2) assms(2) by (auto intro!: move_steps_same)
  next
    case (lost e)
    then obtain e' where y: "y = Some e'" by (metis classify_not_None option.exhaust)
    show ?thesis unfolding y using lost(2) Inr assms(2) by (auto intro: move.loses_ack)
  qed
qed

lemma close_move:
  assumes "pass_step uc outbox (Closing err res) w = (ph, w')" "w_tx w = Some x" "tx_users x = []" "tx_rows x = []"
  shows "move t locked (w_outbox w) (w_broker w) (Closing err res) (w_tx w) (risk (Closing err res) w ph w')
      (w_outbox w') (w_broker w') ph (w_tx w')"
proof (cases err)
  case (Some e)
  with assms(1) have "ph = Closed err res" "w' = pg_rollback w" by simp_all
  with assms(2) show ?thesis by (simp add: pg_rollback_def move.drops)
next
  case None
  obtain z v where c: "pg_commit w = (z, v)" by (metis prod.exhaust)
  with None assms(1) obtain err' where ph: "ph = Closed err' res" and w': "w' = pg_rollback v"
    by (cases z) auto
  then have tx: "w_tx w' = None" by (simp add: pg_rollback_def)
  consider (kept) "w_outbox w' = w_outbox w" "w_broker w' = w_broker w"
    | (committed) "w' = pg_rollback (apply_txn x (tick w))"
    using pg_commit_None [of w v] pg_commit_Some [of w _ v] c assms(2) w'
    by (cases z) (auto simp: same_db_def)
  then show ?thesis
  proof cases
    case kept
    with ph tx assms(2) show ?thesis by (simp add: move.drops)
  next
    case committed
    then have "w_outbox w' = map (patched x) (w_outbox w)" "w_broker w' = w_broker w"
      using assms(4) by (simp_all add: pg_rollback_def apply_txn_def tx_view_def base_rows_def)
    with ph tx assms(2) show ?thesis by (simp add: move.commits)
  qed
qed

lemma pass_step_move:
  assumes step: "pass_step (relay stamp t b base cap mx) (NewRelayOutbox stamp) ph w = (ph', w')"
    and ok: "session_ok t (w_outbox w) (w_broker w) ph (w_tx w)" and dist: "distinct (map row_id (w_outbox w))"
  shows "move t (w_locked w) (w_outbox w) (w_broker w) ph (w_tx w) (risk ph w ph' w')
    (w_outbox w') (w_broker w') ph' (w_tx w')"
proof (cases ph)
  case (Opening res)
  with ok have "w_tx w = None" by (cases "w_tx w") (auto simp: session_ok_def tx_ok_def)
  with Opening step show ?thesis
    by (cases "pg_begin w"; cases "fst (pg_begin w)")
      (auto simp: same_db_def move.rests move.opens dest!: pg_begin_None pg_begin_Some)
next
  case (Closed err res)
  with ok step have "w_tx w = None" by (cases "w_tx w") (auto simp: session_ok_def tx_ok_def)
  with Closed step show ?thesis by (auto simp: move.rests)
next
  case (Claiming res)
  obtain y v where c: "RelayOutbox_ClaimPending b w = (y, v)" by (metis prod.exhaust)
  with Claiming step have v: "v = w'" and ph': "case y of Inl e \<Rightarrow> ph' = Closing (Some e) res
      | Inr ms \<Rightarrow> \<exists>r. ph' = Publishing ms r"
    by (auto simp: port_simps split: sum.splits)
  have "risk ph w ph' w' = []" using ph' Claiming by (cases y) auto
  with claim_move [OF c _ dist ph'] ok Claiming ClaimPending_frame [OF c] show ?thesis
    by (simp add: v same_db_def)
next
  case (Publishing ms res)
  show ?thesis
  proof (cases ms)
    case Nil
    from ok Publishing obtain x where "w_tx w = Some x" by (cases "w_tx w") (auto simp: session_ok_def)
    with Nil Publishing step show ?thesis by (auto intro!: move_steps_same)
  next
    case (Cons m ms')
    obtain y v where p: "publish (relay stamp t b base cap mx) m w = (y, v)" by (metis prod.exhaust)
    from ok Publishing obtain x where x: "w_tx w = Some x" by (cases "w_tx w") (auto simp: session_ok_def)
    from publish_move [OF p x, of "w_locked w" ms' res] Cons Publishing step p show ?thesis by simp
  qed
next
  case (Closing err res)
  with ok obtain x where "w_tx w = Some x" "tx_users x = []" "tx_rows x = []"
    by (cases "w_tx w") (auto simp: session_ok_def tx_ok_def)
  from close_move [OF step [unfolded Closing] this] Closing show ?thesis by simp
next
  case (Settling m y ms res)
  show ?thesis
  proof (cases y)
    case None
    obtain z v where k: "markOne ''mark published'' (pm_ID m) set_published w = (z, v)" by (metis prod.exhaust)
    have r: "ph' = (case z of None \<Rightarrow> Publishing ms (res\<lparr>res_Published := res_Published res + 1\<rparr>)
        | Some e \<Rightarrow> Closing (Some e) (res\<lparr>res_Published := res_Published res + 1\<rparr>))" "v = w'"
      using step k None Settling by (cases z; simp add: port_simps mark_defs)+
    have f: "content r' = content r \<and> bk_status r' = StatusPublished"
      if "set_published x r = Inr r'" for x and r r' :: outbox_row
      using that content_marks(1) [OF that] by (auto simp: set_published_def)
    show ?thesis unfolding Settling None r(1)
      using mark_move [OF k, of t "w_broker w" None ms res "ph'"] ok Settling None dist f markOne_frame [OF k] r
      by (cases z) (auto simp: same_db_def)
  next
    case (Some e)
    from ok Settling obtain x where x: "w_tx w = Some x" by (cases "w_tx w") (auto simp: session_ok_def)
    consider (permanent) "errors_Is e ErrPermanent" | (transient) "\<not> errors_Is e ErrPermanent" "errors_Is e ErrTransient"
      | (neither) "\<not> errors_Is e ErrPermanent" "\<not> errors_Is e ErrTransient" by blast
    then show ?thesis
    proof cases
      case permanent
      obtain z v where k: "markOne ''mark failed'' (pm_ID m) (set_failed (error_text e)) w = (z, v)" by (metis prod.exhaust)
      have r: "ph' = (case z of None \<Rightarrow> Publishing ms (res\<lparr>res_Permanent := res_Permanent res @ [failureOf m e]\<rparr>)
          | Some e' \<Rightarrow> Closing (Some e') res)" "v = w'"
        using step k Some Settling permanent by (cases z; simp add: port_simps mark_defs failureOf_def [of m e])+
      have f: "content r' = content r \<and> bk_status r' \<noteq> StatusPublished"
        if "set_failed q x r = Inr r'" for q x and r r' :: outbox_row
        using that content_marks(2) [OF that] by (auto simp: set_failed_def)
      show ?thesis unfolding Settling Some r(1)
        using mark_move [OF k, of t "w_broker w" "Some e" ms res "ph'"] ok Settling Some dist f markOne_frame [OF k] r
        by (cases z) (auto simp: same_db_def)
    next
      case transient
      define v where "v = tick (tick w)"
      obtain d where d: "After (NewExponential rand_Float64 base cap) (pm_Attempts m) (tick w) = (d, v)"
        unfolding v_def by (metis After_frame prod.exhaust)
      define a where "a = env_clock (w_env w) (w_tick w) + d"
      obtain z v' where k: "markOne ''reschedule'' (pm_ID m) (set_rescheduled (stamp a) (error_text e)) v = (z, v')"
        by (metis prod.exhaust)
      have r: "ph' = (case z of None \<Rightarrow> Closing None (res\<lparr>res_Transient := res_Transient res @ [failureOf m e]\<rparr>)
          | Some e' \<Rightarrow> Closing (Some e') res)" "v' = w'"
        using step k d Some Settling transient
        by (cases z; simp add: port_simps mark_defs failureOf_def [of m e] System_Now_def a_def)+
      have f: "content r' = content r \<and> bk_status r' \<noteq> StatusPublished"
        if "set_rescheduled q l x r = Inr r'" "bk_status r = StatusPending" for q l x and r r' :: outbox_row
        using that content_marks(3) [OF that(1)] by (auto simp: set_rescheduled_def split: if_splits)
      have v: "w_outbox v = w_outbox w" "w_broker v = w_broker w" "w_tx v = w_tx w" by (simp_all add: v_def)
      show ?thesis unfolding Settling Some r(1)
        using mark_move [OF k, of t "w_broker w" "Some e" ms res "ph'"] ok Settling Some dist f markOne_frame [OF k] r
        by (cases z) (auto simp: same_db_def v)
    next
      case neither
      with step Some Settling have "ph' = Closing (Some e) res" "w' = w" by simp_all
      with x Some Settling show ?thesis by (auto intro!: move_steps_same)
    qed
  qed
qed

end
