(* ===== verification/SessionMoves.thy ===== *)
theory SessionMoves
  imports Interleaving
begin

text \<open>
  What a move of one session does: it keeps the session's own invariant, the table and the locks of
  the others, and it pays for what it adds to the topic.
\<close>

subsection \<open>The table\<close>

definition rows_fine :: "Topics \<Rightarrow> outbox_row list \<Rightarrow> kafka_record list \<Rightarrow> bool" where
  "rows_fine t rows ks \<longleftrightarrow> distinct (map row_id rows) \<and> distinct (map row_event rows) \<and>
     (\<forall>r \<in> set rows. bk_status r = StatusPublished \<longrightarrow> announced_in t ks r)"

definition kept :: "Topics \<Rightarrow> outbox_row list \<Rightarrow> kafka_record list \<Rightarrow> outbox_row \<Rightarrow> bool" where
  "kept t rows ks r \<longleftrightarrow> (\<exists>r' \<in> set rows. content r' = content r) \<or> announced_in t ks r"

text \<open>The events an open pass may leave behind in the topic if its transaction ends without a commit.\<close>

definition stakes :: "outbox_row list \<Rightarrow> phase \<Rightarrow> txn option \<Rightarrow> string list" where
  "stakes rows ph tx = unsettled rows tx @ (case acked ph of None \<Rightarrow> [] | Some m \<Rightarrow> [pm_event m])"

definition cleared :: "outbox_row list \<Rightarrow> string \<Rightarrow> bool" where
  "cleared rows e \<longleftrightarrow> (\<forall>r \<in> set rows. row_event r = e \<longrightarrow> bk_status r = StatusPublished)"

lemma at_stake_stakes: "at_stake ph w = stakes (w_outbox w) ph (w_tx w)"
  by (simp add: at_stake_def stakes_def)

lemma pm_event_scan [simp]: "pm_event (scan_row r) = row_event r"
  by (simp add: pm_event_def row_event_def scan_row_def)

lemma content_row_event: "content r = content s \<Longrightarrow> row_event r = row_event s"
  by (simp add: content_def row_event_def)

lemma unique_event: "distinct (map row_event rows) \<Longrightarrow> r \<in> set rows \<Longrightarrow> s \<in> set rows \<Longrightarrow> row_event r = row_event s \<Longrightarrow> r = s"
  by (rule distinct_fst_eq)

lemma deliveries_append [simp]: "deliveries (ks @ ks') e = deliveries ks e + deliveries ks' e"
  by (simp add: deliveries_def)

lemma deliveries_record [simp]: "deliveries [record_of (message_of m topic)] e = of_bool (pm_event m = e)"
  by (simp add: deliveries_def record_of_def message_of_def Let_def map_of_recordHeaders distinct_publishHeaders
      map_of_publishHeaders header_names pm_event_def)

lemma kept_content: "content r = content s \<Longrightarrow> kept t rows ks r = kept t rows ks s"
  by (simp add: kept_def announced_in_content [of r s])

lemma kept_trans:
  assumes "kept t rows ks r" "\<forall>q \<in> set rows. kept t rows' ks' q" "set ks \<subseteq> set ks'"
  shows "kept t rows' ks' r"
  using assms(1) unfolding kept_def [of t rows]
proof
  assume "\<exists>q \<in> set rows. content q = content r"
  then obtain q where "q \<in> set rows" "content q = content r" by blast
  with assms(2) kept_content [of q r] show ?thesis by blast
qed (use assms(3) in \<open>auto simp: kept_def intro: announced_in_mono\<close>)

lemma unlocked_patched: "patches_locked x \<Longrightarrow> row_id r \<notin> set (tx_locks x) \<Longrightarrow> patched x r = r"
  by (simp add: patches_locked_def patched_def)

text \<open>What is at stake in a session belongs to rows it has locked.\<close>

lemma stakes_locked:
  assumes "session_ok t rows ks ph tx" "e \<in> set (stakes rows ph tx)"
  shows "\<exists>r \<in> set rows. row_event r = e \<and> row_id r \<in> set (held tx)"
proof (cases tx)
  case None
  with assms show ?thesis by (auto simp: session_ok_def stakes_def unsettled_def)
next
  case (Some x)
  with assms(1) have ok: "tx_ok t rows ks ph x" by (simp add: session_ok_def)
  from assms(2) consider r where "r \<in> set rows" "row_event r = e" "patched x r \<noteq> r"
    | m where "acked ph = Some m" "pm_event m = e"
    unfolding stakes_def unsettled_def Some
    by (cases "acked ph"; simp add: image_iff) (metis (no_types, lifting))+
  then show ?thesis
  proof cases
    case (1 r)
    with ok unlocked_patched [of x r] show ?thesis by (auto simp: tx_ok_def Some held_def)
  next
    case (2 m)
    with ok show ?thesis by (auto simp: tx_ok_def acked_ok_def Some held_def)
  qed
qed

lemma unsettled_spares:
  assumes "session_ok t rows ks ph tx" "spares (held tx) rows rows'"
  shows "set (unsettled rows' tx) = set (unsettled rows tx)"
proof (cases tx)
  case (Some x)
  with assms(1) have "patches_locked x" by (simp add: session_ok_def tx_ok_def)
  note same = unlocked_patched [OF this]
  have "r \<in> set rows' \<longleftrightarrow> r \<in> set rows"
    if "bk_status r \<noteq> StatusPublished" "bk_status (patched x r) = StatusPublished" for r
  proof -
    from that same [of r] have "row_id r \<in> set (tx_locks x)" by metis
    with assms(2) Some show ?thesis by (simp add: spares_def held_def)
  qed
  then have "set (filter (\<lambda>r. bk_status r \<noteq> StatusPublished \<and> bk_status (patched x r) = StatusPublished) rows') =
      set (filter (\<lambda>r. bk_status r \<noteq> StatusPublished \<and> bk_status (patched x r) = StatusPublished) rows)"
    by (simp only: set_filter) blast
  then show ?thesis by (simp only: unsettled_def Some option.case set_map)
qed (simp add: unsettled_def)

lemma stakes_spares:
  "session_ok t rows ks ph tx \<Longrightarrow> spares (held tx) rows rows' \<Longrightarrow> set (stakes rows' ph tx) = set (stakes rows ph tx)"
  using unsettled_spares [of t rows ks ph tx rows'] by (simp add: stakes_def)

subsection \<open>A session's own move\<close>

lemma session_Some: "session_ok t rows ks ph (Some x) = tx_ok t rows ks ph x"
  "session_ok t rows ks ph None = idle ph"
  by (simp_all add: session_ok_def)

lemma commit_row:
  assumes "tx_ok t rows ks ph x" "r \<in> set rows"
  shows "content (patched x r) = content r" "row_id (patched x r) = row_id r"
    "patched x r = r \<or> row_id r \<in> set (tx_locks x) \<and> lock_ok t ks x r"
proof -
  show *: "patched x r = r \<or> row_id r \<in> set (tx_locks x) \<and> lock_ok t ks x r"
    using assms unlocked_patched [of x r] by (auto simp: tx_ok_def)
  then show "content (patched x r) = content r" by (auto simp: lock_ok_def)
  then show "row_id (patched x r) = row_id r" by (rule content_eqD)
qed

lemma move_grows: "move t locked rows ks ph tx h rows' ks' ph' tx' \<Longrightarrow> set ks \<subseteq> set ks'"
  by (induction rule: move.induct) auto

lemma move_locks:
  "move t locked rows ks ph tx h rows' ks' ph' tx' \<Longrightarrow> set (held tx') \<subseteq> set (held tx) \<union> - set locked"
  by (induction rule: move.induct) (auto simp: held_def fresh_txn_def due_def)

text \<open>The table changes only at a commit.\<close>

lemma move_rows:
  assumes "move t locked rows ks ph tx h rows' ks' ph' tx'"
  obtains "rows' = rows" | x where "tx = Some x" "tx' = None" "idle ph'" "rows' = map (patched x) rows" "ks' = ks" "acked ph = None"
  using assms by cases auto

lemma move_spares:
  assumes "move t locked rows ks ph tx h rows' ks' ph' tx'" "session_ok t rows ks ph tx"
    "set locks \<inter> set (held tx) = {}"
  shows "spares locks rows rows'"
  using assms(1)
proof (cases rule: move_rows)
  case (2 x)
  with assms(2) have ok: "tx_ok t rows ks ph x" by (simp add: session_Some)
  have "r \<in> set rows' \<longleftrightarrow> r \<in> set rows" if "row_id r \<in> set locks" for r
  proof
    assume "r \<in> set rows'"
    then obtain q where q: "q \<in> set rows" "r = patched x q" using 2 by auto
    with commit_row [OF ok q(1)] that assms(3) 2(1) have "patched x q = q" by (auto simp: held_def)
    with q show "r \<in> set rows" by simp
  next
    assume "r \<in> set rows"
    with commit_row(3) [OF ok this] that assms(3) 2(1) have "patched x r = r" by (auto simp: held_def)
    with \<open>r \<in> set rows\<close> show "r \<in> set rows'" unfolding 2(4) by (metis imageI list.set_map)
  qed
  then show ?thesis by (simp add: spares_def)
qed simp

lemma move_rows_fine:
  assumes "move t locked rows ks ph tx h rows' ks' ph' tx'" "session_ok t rows ks ph tx" "rows_fine t rows ks"
  shows "rows_fine t rows' ks' \<and> (\<forall>r \<in> set rows. kept t rows' ks' r)"
  using assms(1)
proof (cases rule: move_rows)
  case 1
  with assms(3) move_grows [OF assms(1)] show ?thesis by (auto simp: rows_fine_def kept_def intro: announced_in_mono)
next
  case (2 x)
  with assms(2) have "tx_ok t rows ks ph x" by (simp add: session_Some)
  note c = commit_row [OF this]
  have "map row_id (map (patched x) rows) = map row_id rows" "map row_event (map (patched x) rows) = map row_event rows"
    using c(2) content_row_event [OF c(1)] by simp_all
  moreover have "announced_in t ks (patched x r)" if "r \<in> set rows" "bk_status (patched x r) = StatusPublished" for r
  proof -
    from c(3) [OF that(1)] assms(3) that have "announced_in t ks r" by (auto simp: rows_fine_def lock_ok_def)
    with announced_in_content [OF c(1) [OF that(1)]] show ?thesis by simp
  qed
  ultimately show ?thesis
    using assms(3) c(1) 2(5) unfolding rows_fine_def kept_def by (simp add: 2(4) del: map_map) blast
qed

text \<open>The moves inside a transaction keep its invariant.\<close>

lemma patched_other [simp]:
  "patched (x\<lparr>tx_locks := l\<rparr>) = patched x" "patched (x\<lparr>tx_aborted := a\<rparr>) = patched x"
  by (simp_all add: fun_eq_iff patched_def)

lemma tx_ok_claims:
  assumes ok: "tx_ok t rows ks ph x" and cl: "claiming ph" and mine: "set mine \<subseteq> set rows" "distinct (map row_id mine)"
    "\<forall>r \<in> set mine. due now locked r" and dist: "distinct (map row_id rows)"
    and ph': "todo ph' = [] \<or> todo ph' = map scan_row mine" "\<not> idle ph'" "\<not> claiming ph'" "acked ph' = None"
  shows "tx_ok t rows ks ph' (x\<lparr>tx_locks := map row_id mine, tx_aborted := a\<rparr>)"
proof -
  from ok cl have x: "tx_users x = []" "tx_rows x = []" "tx_patch x = (\<lambda>i r. r)"
    by (auto simp: tx_ok_def patches_locked_def fun_eq_iff)
  then have id: "patched x r = r" for r by (simp add: patched_def)
  have pend: "bk_status r = StatusPending" if "r \<in> set rows" "row_id r \<in> row_id ` set mine" for r
  proof -
    from that(2) obtain q where q: "q \<in> set mine" "row_id r = row_id q" by blast
    with unique_row [OF dist that(1)] mine(1) have "r = q" by blast
    with mine(3) q(1) show ?thesis by (simp add: due_def)
  qed
  have "map pm_ID (map scan_row mine) = map row_id mine" by (simp add: scan_row_def)
  moreover have "\<exists>r \<in> set rows. scan_row q = scan_row r \<and> row_id r \<in> row_id ` set mine" if "q \<in> set mine" for q
    using that mine(1) by blast
  ultimately have "todo_ok rows ph' (x\<lparr>tx_locks := map row_id mine, tx_aborted := a\<rparr>)"
    using ph'(1) mine(2) by (auto simp: todo_ok_def id simp del: map_map)
  moreover have "set (map row_id mine) \<subseteq> row_id ` set rows" using mine(1) by auto
  ultimately show ?thesis
    using x pend ph' by (simp add: tx_ok_def acked_ok_def patches_locked_def lock_ok_def id)
qed

lemma tx_ok_steps:
  assumes "tx_ok t rows ks ph x" "\<not> claiming ph'" "\<not> idle ph'" "acked ph' = None" "todo ph' = [] \<or> todo ph' = todo ph"
  shows "tx_ok t rows ks ph' (x\<lparr>tx_aborted := a\<rparr>)"
  using assms by (auto simp: tx_ok_def todo_ok_def acked_ok_def patches_locked_def lock_ok_def)

lemma tx_ok_produces:
  assumes ok: "tx_ok t rows ks (Publishing (m # ms) res) x" and topic: "Topics_For t (env_AggregateType m) = Inr topic"
  shows "tx_ok t rows (ks @ [record_of (message_of m topic)]) (Settling m y ms res) x"
proof -
  let ?ks = "ks @ [record_of (message_of m topic)]"
  from ok obtain r where r: "r \<in> set rows" "m = scan_row r" "row_id r \<in> set (tx_locks x)"
    by (auto simp: tx_ok_def todo_ok_def)
  have "Topics_For t (row_aggregate_type r) = Inr topic" using topic r(2) by (simp add: scan_row_def)
  from record_carries [OF this] have "announced_in t ?ks r" by (auto simp: announced_in_def r(2))
  with r have "acked_ok t rows ?ks (Settling m y ms res) x" by (cases y) (auto simp: acked_ok_def)
  then show ?thesis
    using ok lock_ok_mono [of t ks x _ ?ks] by (auto simp: tx_ok_def todo_ok_def)
qed

lemma tx_ok_marks:
  assumes ok: "tx_ok t rows ks (Settling m y ms res) x" and dist: "distinct (map row_id rows)"
    and ph': "todo ph' = [] \<or> todo ph' = ms" "acked ph' = None" "\<not> claiming ph'" "\<not> idle ph'"
    and locks: "set locks = set (tx_locks x)"
    and p: "\<forall>r \<in> set rows. row_id r = pm_ID m \<longrightarrow> content (p r) = content r \<and> (bk_status (p r) = StatusPublished \<longleftrightarrow> y = None)"
  shows "tx_ok t rows ks ph' (x\<lparr>tx_patch := (tx_patch x)(pm_ID m := p), tx_locks := locks\<rparr>)"
proof -
  let ?x = "x\<lparr>tx_patch := (tx_patch x)(pm_ID m := p), tx_locks := locks\<rparr>"
  have other: "patched ?x r = patched x r" if "row_id r \<noteq> pm_ID m" for r using that by (simp add: patched_def)
  from ok obtain r where r: "r \<in> set rows" "m = scan_row r" "row_id r \<in> set (tx_locks x)"
    by (auto simp: tx_ok_def todo_ok_def)
  have id: "pm_ID m = row_id r" using r(2) by (simp add: scan_row_def)
  have lock: "lock_ok t ks ?x q" if q: "q \<in> set rows" "row_id q \<in> set (tx_locks x)" for q
  proof (cases "row_id q = pm_ID m")
    case True
    then have "q = r" using unique_row [OF dist q(1) r(1)] id by simp
    moreover have "announced_in t ks r" if "y = None"
    proof -
      from that ok have "\<exists>q \<in> set rows. m = scan_row q \<and> announced_in t ks q"
        by (auto simp: tx_ok_def acked_ok_def)
      then obtain q where "q \<in> set rows" "m = scan_row q" "announced_in t ks q" by blast
      moreover from this have "q = r" using unique_row [OF dist _ r(1)] id by (simp add: scan_row_def)
      ultimately show ?thesis by simp
    qed
    moreover have "patched ?x r = p r" using id by (simp add: patched_def)
    ultimately show ?thesis using ok p q True by (auto simp: tx_ok_def lock_ok_def)
  next
    case False
    with ok q other [of q] show ?thesis by (simp add: tx_ok_def lock_ok_def)
  qed
  have "todo_ok rows ph' ?x"
  proof -
    have d: "distinct (map pm_ID ms)" "pm_ID m \<notin> set (map pm_ID ms)" using ok by (auto simp: tx_ok_def todo_ok_def)
    have "\<exists>q \<in> set rows. k = scan_row q \<and> row_id q \<in> set locks \<and> patched ?x q = q" if "k \<in> set ms" for k
    proof -
      from ok that obtain q where q: "q \<in> set rows" "k = scan_row q" "row_id q \<in> set (tx_locks x)" "patched x q = q"
        by (auto simp: tx_ok_def todo_ok_def)
      moreover have "row_id q \<noteq> pm_ID m" using d(2) that q(2) by (auto simp: scan_row_def image_iff)
      ultimately show ?thesis using other [of q] locks by auto
    qed
    with d(1) ph'(1) show ?thesis by (auto simp: todo_ok_def)
  qed
  moreover have "patches_locked ?x"
    using ok locks r(3) id by (auto simp: tx_ok_def patches_locked_def)
  ultimately show ?thesis
    using ok ph' lock locks by (simp add: tx_ok_def acked_ok_def)
qed

lemma move_session_ok:
  assumes "move t locked rows ks ph tx h rows' ks' ph' tx'" "session_ok t rows ks ph tx" "distinct (map row_id rows)"
  shows "session_ok t rows' ks' ph' tx'"
  using assms
proof cases
  case opens
  then show ?thesis
    by (simp add: session_Some tx_ok_def fresh_txn_def patches_locked_def todo_ok_def acked_ok_def)
next
  case claims
  with assms(2,3) show ?thesis by (simp add: session_Some tx_ok_claims)
next
  case steps
  with assms(2) show ?thesis by (simp add: session_Some tx_ok_steps)
next
  case produces
  with assms(2) show ?thesis by (simp add: session_Some tx_ok_produces)
next
  case loses_ack
  with assms(2) show ?thesis by (simp add: session_Some tx_ok_produces)
next
  case marks
  with assms(2,3) show ?thesis by (simp add: session_Some tx_ok_marks)
next
  case fails
  with assms(2) show ?thesis
    by (auto simp: session_Some tx_ok_def patches_locked_def todo_ok_def acked_ok_def lock_ok_def)
qed (simp_all add: session_Some)

subsection \<open>The budget of an event\<close>

text \<open>
  The potential: each step raises the deliveries of an event by no more than its label and the
  change of spent allow.
\<close>

lemma budget_quiet:
  assumes "deliveries ks' e = deliveries ks e" "S \<Longrightarrow> S' \<or> e \<in> set h"
  shows "deliveries ks' e + of_bool S \<le> deliveries ks e + count_list h e + of_bool S'"
proof (cases "e \<in> set h")
  case True
  then have "0 < count_list h e" by (metis count_list_0_iff neq0_conv)
  with assms(1) show ?thesis by (cases S) auto
next
  case False
  with assms show ?thesis by auto
qed

lemma move_budget:
  assumes move: "move t locked rows ks ph tx h rows' ks' ph' tx'" and ok: "session_ok t rows ks ph tx"
    and fine: "rows_fine t rows ks"
    and F: "\<And>r. r \<in> set rows \<Longrightarrow> row_event r = e \<Longrightarrow> row_id r \<in> set (held tx) \<Longrightarrow> \<not> F"
  shows "deliveries ks' e + of_bool (cleared rows e \<or> e \<in> set (stakes rows ph tx) \<or> F)
    \<le> deliveries ks e + count_list h e + of_bool (cleared rows' e \<or> e \<in> set (stakes rows' ph' tx') \<or> F)"
  using move
proof cases
  case (produces m topic ms res x)
  with ok have tx: "tx_ok t rows ks (Publishing (m # ms) res) x" by (simp add: session_Some)
  show ?thesis
  proof (cases "pm_event m = e")
    case True
    from tx obtain r where r: "r \<in> set rows" "m = scan_row r" "row_id r \<in> set (tx_locks x)" "patched x r = r"
      by (auto simp: tx_ok_def todo_ok_def)
    with tx have pend: "bk_status r = StatusPending" by (auto simp: tx_ok_def lock_ok_def)
    have ev: "row_event r = e" using r(2) True by simp
    have only: "q = r" if "q \<in> set rows" "row_event q = e" for q
      using unique_event [OF _ that(1) r(1)] that(2) ev fine by (simp add: rows_fine_def)
    have "\<not> cleared rows e" using r(1) ev pend by (auto simp: cleared_def)
    moreover have "e \<notin> set (unsettled rows (Some x))" using only r(4) by (auto simp: unsettled_def)
    moreover have "\<not> F" using F r ev produces by (simp add: held_def)
    ultimately show ?thesis using produces True by (simp add: stakes_def)
  next
    case False
    with produces show ?thesis by (intro budget_quiet) (auto simp: stakes_def)
  qed
next
  case (loses_ack m topic ms res x err)
  then have "count_list h e = of_bool (pm_event m = e)" by auto
  moreover have "stakes rows' ph' tx' = stakes rows ph tx" using loses_ack by (simp add: stakes_def)
  ultimately show ?thesis using loses_ack by simp
next
  case (claims mine now x a)
  then have "stakes rows ph tx = stakes rows' ph' tx'"
    using claiming_simps [of ph] by (simp add: stakes_def unsettled_def)
  with claims show ?thesis by (intro budget_quiet) auto
next
  case (steps x a)
  then have "stakes rows ph tx = stakes rows' ph' tx'" by (simp add: stakes_def unsettled_def)
  with steps show ?thesis by (intro budget_quiet) auto
next
  case (marks ms locks x m p y res)
  with ok have tx: "tx_ok t rows ks (Settling m y ms res) x" by (simp add: session_Some)
  then obtain r where r: "r \<in> set rows" "m = scan_row r" "row_id r \<in> set (tx_locks x)" "patched x r = r"
    by (auto simp: tx_ok_def todo_ok_def)
  with tx have pend: "bk_status r = StatusPending" by (auto simp: tx_ok_def lock_ok_def)
  have id: "pm_ID m = row_id r" using r(2) by (simp add: scan_row_def)
  let ?x = "x\<lparr>tx_patch := (tx_patch x)(pm_ID m := p), tx_locks := locks\<rparr>"
  have "e \<in> set (unsettled rows (Some ?x))" if "e \<in> set (stakes rows ph tx)"
  proof -
    from that marks consider q where "q \<in> set rows" "row_event q = e" "bk_status q \<noteq> StatusPublished"
        "bk_status (patched x q) = StatusPublished" | "y = None" "row_event r = e"
      using r(2) by (cases y) (auto simp: stakes_def unsettled_def)
    then show ?thesis
    proof cases
      case (1 q)
      then have "row_id q \<noteq> pm_ID m"
        using unique_row [OF _ 1(1) r(1)] id r(4) fine by (auto simp: rows_fine_def)
      then have "patched ?x q = patched x q" by (simp add: patched_def)
      with 1 show ?thesis by (auto simp: unsettled_def)
    next
      case 2
      have "bk_status (patched ?x r) = StatusPublished" using marks r(1) id 2(1) by (simp add: patched_def)
      with 2 r(1) pend show ?thesis by (auto simp: unsettled_def)
    qed
  qed
  with marks show ?thesis by (intro budget_quiet) (auto simp: stakes_def)
next
  case (fails y m ms res x err res' a)
  have "e \<in> set (stakes rows' ph' tx') \<or> e \<in> set h" if "e \<in> set (stakes rows ph tx)"
    using that fails by (cases y) (auto simp: stakes_def unsettled_def)
  with fails show ?thesis by (intro budget_quiet) auto
next
  case (commits err res x)
  with ok have tx: "tx_ok t rows ks (Closing err res) x" by (simp add: session_Some)
  note c = commit_row [OF tx]
  have "cleared rows' e" if "cleared rows e \<or> e \<in> set (stakes rows ph tx)"
  proof -
    have "bk_status (patched x q) = StatusPublished" if q: "q \<in> set rows" "row_event q = e" for q
    proof (cases "cleared rows e")
      case True
      with q have pub: "bk_status q = StatusPublished" by (simp add: cleared_def)
      with c(3) [OF q(1)] show ?thesis by (auto simp: lock_ok_def)
    next
      case False
      with \<open>cleared rows e \<or> e \<in> set (stakes rows ph tx)\<close> commits obtain r where
        "r \<in> set rows" "row_event r = e" "bk_status (patched x r) = StatusPublished"
        by (auto simp: stakes_def unsettled_def)
      moreover from this have "q = r" using unique_event [OF _ q(1)] q(2) fine by (simp add: rows_fine_def)
      ultimately show ?thesis by simp
    qed
    with commits content_row_event [OF c(1)] show ?thesis by (simp add: cleared_def)
  qed
  with commits show ?thesis by (intro budget_quiet) auto
next
  case (drops err res x)
  then have "stakes rows ph tx = h" by (simp add: stakes_def)
  with drops show ?thesis by (intro budget_quiet) auto
qed (auto intro!: budget_quiet simp: stakes_def unsettled_def fresh_txn_def patched_def)

end
