(* ===== verification/SecondRelay.thy ===== *)
theory SecondRelay
  imports SessionMoves Purge SampleWorld
begin

text \<open>
  What the interleaved relays keep: the rows they work on are disjoint, a row is published only
  behind its record, no row vanishes without its record, and every record of an event beyond the
  first is accounted for by a step that put the event at risk.
\<close>

subsection \<open>The invariant of the cluster\<close>

abbreviation cl_phase :: "cluster \<Rightarrow> nat \<Rightarrow> phase" where
  "cl_phase c s \<equiv> ses_phase (cl_sessions c ! s)"

abbreviation cl_tx :: "cluster \<Rightarrow> nat \<Rightarrow> txn option" where
  "cl_tx c s \<equiv> ses_tx (cl_sessions c ! s)"

definition at_stake_in :: "cluster \<Rightarrow> string \<Rightarrow> nat \<Rightarrow> bool" where
  "at_stake_in c e s \<longleftrightarrow> e \<in> set (stakes (cl_outbox c) (cl_phase c s) (cl_tx c s))"

text \<open>An event is spent when it is in no pending row, or when some session has it at stake.\<close>

definition spent :: "cluster \<Rightarrow> string \<Rightarrow> bool" where
  "spent c e \<longleftrightarrow> cleared (cl_outbox c) e \<or> (\<exists>s < length (cl_sessions c). at_stake_in c e s)"

definition sessions_ok :: "Topics \<Rightarrow> cluster \<Rightarrow> bool" where
  "sessions_ok t c \<longleftrightarrow>
     (\<forall>s < length (cl_sessions c). session_ok t (cl_outbox c) (cl_broker c) (cl_phase c s) (cl_tx c s)) \<and>
     (\<forall>i < length (cl_sessions c). \<forall>j < length (cl_sessions c). i \<noteq> j \<longrightarrow>
        set (held (cl_tx c i)) \<inter> set (held (cl_tx c j)) = {})"

definition in_budget :: "cluster \<Rightarrow> string list \<Rightarrow> bool" where
  "in_budget c hs \<longleftrightarrow> (\<forall>e. deliveries (cl_broker c) e \<le> count_list hs e + of_bool (spent c e))"

definition cluster_ok :: "Topics \<Rightarrow> outbox_row set \<Rightarrow> cluster \<Rightarrow> string list \<Rightarrow> bool" where
  "cluster_ok t R c hs \<longleftrightarrow> rows_fine t (cl_outbox c) (cl_broker c) \<and> sessions_ok t c \<and> in_budget c hs \<and>
     (\<forall>r \<in> R. kept t (cl_outbox c) (cl_broker c) r)"

lemma set_locked_by_others:
  "set (locked_by_others ss s) = (\<Union>j \<in> {j. j < length ss \<and> j \<noteq> s}. set (held (ses_tx (ss ! j))))"
  by (auto simp: locked_by_others_def)

text \<open>A step of one session, whatever it does to the table and the topic.\<close>

lemma cluster_update:
  assumes inv: "cluster_ok t R c hs" and s: "s < length (cl_sessions c)"
    and own: "session_ok t rows' ks' (ses_phase ses) (ses_tx ses)"
    and fine: "rows_fine t rows' ks'" and keep: "\<forall>r \<in> set (cl_outbox c). kept t rows' ks' r"
    and spare: "\<And>locks. set locks \<inter> set (held (cl_tx c s)) = {} \<Longrightarrow> spares locks (cl_outbox c) rows'"
    and locks: "set (held (ses_tx ses)) \<subseteq> set (held (cl_tx c s)) \<union> - set (locked_by_others (cl_sessions c) s)"
    and grows: "set (cl_broker c) \<subseteq> set ks'"
    and budget: "\<And>e F. (\<And>r. r \<in> set (cl_outbox c) \<Longrightarrow> row_event r = e \<Longrightarrow> row_id r \<in> set (held (cl_tx c s)) \<Longrightarrow> \<not> F) \<Longrightarrow>
      deliveries ks' e + of_bool (cleared (cl_outbox c) e \<or> at_stake_in c e s \<or> F)
        \<le> deliveries (cl_broker c) e + count_list h e +
          of_bool (cleared rows' e \<or> e \<in> set (stakes rows' (ses_phase ses) (ses_tx ses)) \<or> F)"
  shows "cluster_ok t R \<lparr>cl_outbox = rows', cl_broker = ks', cl_sessions = (cl_sessions c)[s := ses]\<rparr> (hs @ h)"
    (is "cluster_ok t R ?d _")
proof -
  let ?n = "length (cl_sessions c)"
  from inv have rows: "rows_fine t (cl_outbox c) (cl_broker c)" and ses: "sessions_ok t c"
    and bud: "in_budget c hs" and kept: "\<forall>r \<in> R. kept t (cl_outbox c) (cl_broker c) r"
    by (simp_all add: cluster_ok_def)
  have disj: "set (held (cl_tx c j)) \<inter> set (held (cl_tx c s)) = {}" if "j < ?n" "j \<noteq> s" for j
    using ses that s by (simp add: sessions_ok_def)
  have other: "session_ok t (cl_outbox c) (cl_broker c) (cl_phase c j) (cl_tx c j)" if "j < ?n" for j
    using ses that by (simp add: sessions_ok_def)
  have "session_ok t rows' ks' (cl_phase ?d j) (cl_tx ?d j)" if "j < ?n" for j
  proof (cases "j = s")
    case False
    with session_ok_interference [OF other [OF that] spare [OF disj [OF that False]] grows] show ?thesis by simp
  qed (use own s in simp)
  moreover have "set (held (cl_tx ?d i)) \<inter> set (held (cl_tx ?d j)) = {}" if "i < ?n" "j < ?n" "i \<noteq> j" for i j
  proof -
    have new: "set (held (ses_tx ses)) \<inter> set (held (cl_tx c j)) = {}" if "j < ?n" "j \<noteq> s" for j
      using locks disj [OF that] that by (auto simp: set_locked_by_others)
    consider "i = s" | "j = s" | "i \<noteq> s" "j \<noteq> s" by blast
    then show ?thesis
    proof cases
      case 1
      with that new [of j] s show ?thesis by simp
    next
      case 2
      with that new [of i] s show ?thesis by (simp add: Int_commute)
    next
      case 3
      with that ses show ?thesis by (simp add: sessions_ok_def)
    qed
  qed
  ultimately have "sessions_ok t ?d" by (simp add: sessions_ok_def)
  moreover have "deliveries ks' e \<le> count_list (hs @ h) e + of_bool (spent ?d e)" for e
  proof -
    let ?F = "\<exists>j < ?n. j \<noteq> s \<and> at_stake_in c e j"
    have stake: "at_stake_in ?d e j = at_stake_in c e j" if "j < ?n" "j \<noteq> s" for j
      using stakes_spares [OF other [OF that(1)] spare [OF disj [OF that]]] that(2) by (simp add: at_stake_in_def)
    have old: "spent c e \<longleftrightarrow> cleared (cl_outbox c) e \<or> at_stake_in c e s \<or> ?F" using s by (auto simp: spent_def)
    have new: "spent ?d e \<longleftrightarrow> cleared rows' e \<or> e \<in> set (stakes rows' (ses_phase ses) (ses_tx ses)) \<or> ?F"
    proof -
      have "spent ?d e \<longleftrightarrow> cleared rows' e \<or> at_stake_in ?d e s \<or> (\<exists>j < ?n. j \<noteq> s \<and> at_stake_in ?d e j)"
        using s by (auto simp: spent_def)
      moreover have "at_stake_in ?d e s \<longleftrightarrow> e \<in> set (stakes rows' (ses_phase ses) (ses_tx ses))"
        using s by (simp add: at_stake_in_def)
      ultimately show ?thesis using stake by auto
    qed
    have "\<not> ?F" if r: "r \<in> set (cl_outbox c)" "row_event r = e" "row_id r \<in> set (held (cl_tx c s))" for r
    proof
      assume ?F
      then obtain j where j: "j < ?n" "j \<noteq> s" "at_stake_in c e j" by blast
      from stakes_locked [OF other [OF j(1)] j(3) [unfolded at_stake_in_def]]
      obtain q where q: "q \<in> set (cl_outbox c)" "row_event q = e" "row_id q \<in> set (held (cl_tx c j))" by blast
      with unique_event [OF _ q(1) r(1)] r(2) rows have "q = r" by (simp add: rows_fine_def)
      with q(3) r(3) disj [OF j(1,2)] show False by blast
    qed
    from budget [of e ?F, OF this]
    have "deliveries ks' e + of_bool (spent c e) \<le> deliveries (cl_broker c) e + count_list h e + of_bool (spent ?d e)"
      unfolding old new .
    moreover have "deliveries (cl_broker c) e \<le> count_list hs e + of_bool (spent c e)" using bud by (simp add: in_budget_def)
    ultimately show ?thesis by simp
  qed
  then have "in_budget ?d (hs @ h)" by (simp add: in_budget_def)
  moreover have "\<forall>r \<in> R. kept t rows' ks' r" using kept kept_trans [OF _ keep grows] by blast
  ultimately show ?thesis using fine by (simp add: cluster_ok_def)
qed

lemma cluster_table:
  assumes inv: "cluster_ok t R c hs" and fine: "rows_fine t rows' (cl_broker c)"
    and keep: "\<forall>r \<in> set (cl_outbox c). kept t rows' (cl_broker c) r"
    and spare: "\<And>s. s < length (cl_sessions c) \<Longrightarrow> spares (held (cl_tx c s)) (cl_outbox c) rows'"
    and cleared: "\<And>e. cleared (cl_outbox c) e \<Longrightarrow> cleared rows' e \<or> deliveries (cl_broker c) e = 0"
  shows "cluster_ok t R (c\<lparr>cl_outbox := rows'\<rparr>) hs" (is "cluster_ok t R ?d hs")
proof -
  from inv have ses: "sessions_ok t c" and bud: "in_budget c hs" and kept: "\<forall>r \<in> R. kept t (cl_outbox c) (cl_broker c) r"
    by (simp_all add: cluster_ok_def)
  have ok: "session_ok t (cl_outbox c) (cl_broker c) (cl_phase c s) (cl_tx c s)" if "s < length (cl_sessions c)" for s
    using ses that by (simp add: sessions_ok_def)
  have "session_ok t rows' (cl_broker c) (cl_phase c s) (cl_tx c s)" if "s < length (cl_sessions c)" for s
    using session_ok_interference [OF ok [OF that] spare [OF that] subset_refl] .
  with ses have "sessions_ok t ?d" by (simp add: sessions_ok_def)
  moreover have "at_stake_in ?d e s = at_stake_in c e s" if "s < length (cl_sessions c)" for e s
    using stakes_spares [OF ok [OF that] spare [OF that]] by (simp add: at_stake_in_def)
  then have still: "spent c e \<Longrightarrow> spent ?d e \<or> deliveries (cl_broker c) e = 0" for e
    using cleared [of e] by (auto simp: spent_def)
  have "deliveries (cl_broker c) e \<le> count_list hs e + of_bool (spent ?d e)" for e
  proof -
    have "deliveries (cl_broker c) e \<le> count_list hs e + of_bool (spent c e)" using bud by (simp add: in_budget_def)
    with still [of e] show ?thesis by (cases "spent c e") auto
  qed
  then have "in_budget ?d hs" by (simp add: in_budget_def)
  moreover have "\<forall>r \<in> R. kept t rows' (cl_broker c) r" using kept kept_trans [OF _ keep subset_refl] by blast
  ultimately show ?thesis using fine by (simp add: cluster_ok_def)
qed

lemma cluster_works:
  assumes inv: "cluster_ok t R c hs" and s: "s < length (cl_sessions c)"
    and step: "pass_step (relay stamp t b base cap m) (NewRelayOutbox stamp) (cl_phase c s) (enter c s) = (ph, w)"
  shows "cluster_ok t R (leave c s ph w) (hs @ risk (cl_phase c s) (enter c s) ph w)"
proof -
  have e: "w_outbox (enter c s) = cl_outbox c" "w_broker (enter c s) = cl_broker c" "w_tx (enter c s) = cl_tx c s"
    "w_locked (enter c s) = locked_by_others (cl_sessions c) s" by (simp_all add: enter_def)
  from inv s have ok: "session_ok t (cl_outbox c) (cl_broker c) (cl_phase c s) (cl_tx c s)"
    and fine: "rows_fine t (cl_outbox c) (cl_broker c)" by (simp_all add: cluster_ok_def sessions_ok_def)
  have dist: "distinct (map row_id (cl_outbox c))" using fine by (simp add: rows_fine_def)
  note move = pass_step_move [OF step, unfolded e, OF ok dist]
  show ?thesis unfolding leave_def
  proof (rule cluster_update [OF inv s])
    show "session_ok t (w_outbox w) (w_broker w) (ses_phase \<lparr>ses_phase = ph, ses_world = w\<rparr>) (ses_tx \<lparr>ses_phase = ph, ses_world = w\<rparr>)"
      using move_session_ok [OF move ok dist] by simp
    show "rows_fine t (w_outbox w) (w_broker w)" "\<forall>r \<in> set (cl_outbox c). kept t (w_outbox w) (w_broker w) r"
      using move_rows_fine [OF move ok fine] by simp_all
    show "spares locks (cl_outbox c) (w_outbox w)" if "set locks \<inter> set (held (cl_tx c s)) = {}" for locks
      using move_spares [OF move ok that] .
    show "set (cl_broker c) \<subseteq> set (w_broker w)" using move_grows [OF move] .
  qed (use move_locks [OF move] move_budget [OF move ok fine] in \<open>simp_all add: at_stake_in_def\<close>)
qed

lemma cluster_begins:
  assumes inv: "cluster_ok t R c hs" and s: "s < length (cl_sessions c)" and "w_tx w = None"
  shows "cluster_ok t R (c\<lparr>cl_sessions := (cl_sessions c)[s := \<lparr>ses_phase = Opening res, ses_world = w\<rparr>]\<rparr>)
    (hs @ at_stake (cl_phase c s) (enter c s))"
proof -
  let ?ses = "\<lparr>ses_phase = Opening res, ses_world = w\<rparr>"
  have "cluster_ok t R \<lparr>cl_outbox = cl_outbox c, cl_broker = cl_broker c, cl_sessions = (cl_sessions c)[s := ?ses]\<rparr>
      (hs @ at_stake (cl_phase c s) (enter c s))"
  proof (rule cluster_update [OF inv s])
    have same: "at_stake (cl_phase c s) (enter c s) = stakes (cl_outbox c) (cl_phase c s) (cl_tx c s)"
      by (simp add: at_stake_stakes enter_def)
    show "deliveries (cl_broker c) e + of_bool (cleared (cl_outbox c) e \<or> at_stake_in c e s \<or> F)
        \<le> deliveries (cl_broker c) e + count_list (at_stake (cl_phase c s) (enter c s)) e +
          of_bool (cleared (cl_outbox c) e \<or> e \<in> set (stakes (cl_outbox c) (ses_phase ?ses) (ses_tx ?ses)) \<or> F)" for e F
      by (rule budget_quiet) (auto simp: same at_stake_in_def)
  qed (use inv assms(3) in \<open>simp_all add: cluster_ok_def session_ok_def held_def kept_def\<close>, blast)
  then show ?thesis by (cases c) simp
qed

lemma cluster_idles:
  assumes inv: "cluster_ok t R c hs" and s: "s < length (cl_sessions c)" and w: "w_tx w = cl_tx c s"
  shows "cluster_ok t R (c\<lparr>cl_sessions := (cl_sessions c)[s := (cl_sessions c ! s)\<lparr>ses_world := w\<rparr>]\<rparr>) hs"
proof -
  have "cluster_ok t R \<lparr>cl_outbox = cl_outbox c, cl_broker = cl_broker c,
      cl_sessions = (cl_sessions c)[s := (cl_sessions c ! s)\<lparr>ses_world := w\<rparr>]\<rparr> (hs @ [])"
    by (rule cluster_update [OF inv s])
      (use inv s w in \<open>auto simp: cluster_ok_def sessions_ok_def kept_def at_stake_in_def\<close>)
  then show ?thesis by (cases c) simp
qed

lemma held_pending:
  assumes "cluster_ok t R c hs" "s < length (cl_sessions c)"
  shows "set (held (cl_tx c s)) \<subseteq> row_id ` set (cl_outbox c)"
    "r \<in> set (cl_outbox c) \<Longrightarrow> row_id r \<in> set (held (cl_tx c s)) \<Longrightarrow> bk_status r = StatusPending"
proof -
  from assms have ok: "session_ok t (cl_outbox c) (cl_broker c) (cl_phase c s) (cl_tx c s)"
    by (simp add: cluster_ok_def sessions_ok_def)
  then show "set (held (cl_tx c s)) \<subseteq> row_id ` set (cl_outbox c)"
    by (cases "cl_tx c s") (simp_all add: session_ok_def held_def tx_ok_def)
  from ok show "r \<in> set (cl_outbox c) \<Longrightarrow> row_id r \<in> set (held (cl_tx c s)) \<Longrightarrow> bk_status r = StatusPending"
    by (cases "cl_tx c s") (simp_all add: session_ok_def held_def tx_ok_def lock_ok_def)
qed

lemma registered_rows_pending:
  assumes "RegisterUser_Execute uni parse (api_uow stamp) stamp cmd w = (x, w')" "w_outbox w' = w_outbox w @ new" "r \<in> set new"
  shows "bk_status r = StatusPending"
  using registration_outcome [OF assms(1)] assms(2,3) by (auto simp: registered_def outbox_row_of_def)

lemma cluster_appends:
  assumes inv: "cluster_ok t R c hs" and fresh: "fresh_rows c new"
    and pend: "\<And>r. r \<in> set new \<Longrightarrow> bk_status r = StatusPending"
  shows "cluster_ok t R (c\<lparr>cl_outbox := cl_outbox c @ new\<rparr>) hs"
proof (rule cluster_table [OF inv])
  show "rows_fine t (cl_outbox c @ new) (cl_broker c)"
    using inv fresh pend by (auto simp: rows_fine_def fresh_rows_def cluster_ok_def)
  show "\<forall>r \<in> set (cl_outbox c). kept t (cl_outbox c @ new) (cl_broker c) r" by (auto simp: kept_def)
  show "spares (held (cl_tx c s)) (cl_outbox c) (cl_outbox c @ new)" if "s < length (cl_sessions c)" for s
  proof -
    note held_pending(1) [OF inv that]
    moreover have "row_id r \<notin> row_id ` set (cl_outbox c)" if "r \<in> set new" for r
      using fresh that by (auto simp: fresh_rows_def)
    ultimately show ?thesis by (auto simp: spares_def)
  qed
  show "cleared (cl_outbox c @ new) e \<or> deliveries (cl_broker c) e = 0" if "cleared (cl_outbox c) e" for e
  proof (cases "e \<in> row_event ` set new")
    case True
    with fresh show ?thesis by (auto simp: fresh_rows_def list_all_iff)
  qed (use that in \<open>auto simp: cleared_def\<close>)
qed

lemma cluster_registers:
  assumes inv: "cluster_ok t R c hs" and run: "RegisterUser_Execute uni parse (api_uow stamp) stamp cmd w = (x, w')"
    and w: "w_outbox w = cl_outbox c" "w_outbox w' = cl_outbox c @ new" and fresh: "fresh_rows c new"
  shows "cluster_ok t R (c\<lparr>cl_outbox := w_outbox w'\<rparr>) hs"
  using cluster_appends [OF inv fresh] registered_rows_pending [OF run] w by simp

lemma cluster_purges:
  assumes inv: "cluster_ok t R c hs" and run: "OutboxPurger_PurgePublished retention limit w = (y, w')"
    and w: "w_outbox w = cl_outbox c"
  shows "cluster_ok t R (c\<lparr>cl_outbox := w_outbox w'\<rparr>) hs"
proof -
  from inv have fine: "rows_fine t (cl_outbox c) (cl_broker c)" by (simp add: cluster_ok_def)
  then have dist: "distinct (map row_id (w_outbox w))" by (simp add: rows_fine_def w)
  from page_purged [OF run dist] have p: "subseq (w_outbox w') (cl_outbox c)"
    "\<And>r. r \<in> set (cl_outbox c) \<Longrightarrow> r \<notin> set (w_outbox w') \<Longrightarrow> bk_status r = StatusPublished"
    by (auto simp: purged_def expired_def purgeable_def w)
  from p(1) have sub: "set (w_outbox w') \<subseteq> set (cl_outbox c)" by (auto dest: list_emb_set)
  show ?thesis
  proof (rule cluster_table [OF inv])
    show "rows_fine t (w_outbox w') (cl_broker c)"
      using fine sub subseq_distinct_map [OF p(1), of row_id] subseq_distinct_map [OF p(1), of row_event] by (auto simp: rows_fine_def)
    show "\<forall>r \<in> set (cl_outbox c). kept t (w_outbox w') (cl_broker c) r"
      using fine p(2) by (auto simp: kept_def rows_fine_def)
    show "cleared (w_outbox w') e \<or> deliveries (cl_broker c) e = 0" if "cleared (cl_outbox c) e" for e
      using that sub by (auto simp: cleared_def)
    show "spares (held (cl_tx c s)) (cl_outbox c) (w_outbox w')" if s: "s < length (cl_sessions c)" for s
    proof -
      note held_pending(2) [OF inv s]
      with p(2) sub show ?thesis by (fastforce simp: spares_def)
    qed
  qed
qed

lemma relay_step_ok:
  assumes "relay_step t c h d" "cluster_ok t R c hs"
  shows "cluster_ok t R d (hs @ h)"
  using assms(1)
proof cases
  case works
  with cluster_works [OF assms(2)] show ?thesis by simp
next
  case begins
  with cluster_begins [OF assms(2)] show ?thesis by simp
next
  case idles
  with cluster_idles [OF assms(2)] show ?thesis by simp
next
  case purges
  with cluster_purges [OF assms(2)] show ?thesis by simp
qed

lemma cluster_step_ok:
  assumes "cluster_step t c h d" "cluster_ok t R c hs"
  shows "cluster_ok t R d (hs @ h)"
  using assms(1)
proof cases
  case relays
  then show ?thesis using assms(2) by (rule relay_step_ok)
next
  case registers
  with cluster_registers [OF assms(2)] show ?thesis by simp
qed

lemma cluster_run_ok:
  assumes "cluster_run t c hs d" "cluster_ok t R c []"
  shows "cluster_ok t R d hs"
  using assms by induction (auto dest: cluster_step_ok)

text \<open>No session holds a transaction, every row waits, nothing has been published.\<close>

definition quiet_start :: "cluster \<Rightarrow> bool" where
  "quiet_start c \<longleftrightarrow> cl_broker c = [] \<and> distinct (map row_id (cl_outbox c)) \<and> distinct (map row_event (cl_outbox c)) \<and>
     list_all (\<lambda>r. bk_status r = StatusPending) (cl_outbox c) \<and>
     list_all (\<lambda>ses. ses_tx ses = None \<and> idle (ses_phase ses)) (cl_sessions c)"

lemma quiet_start_ok:
  assumes "quiet_start c"
  shows "cluster_ok t (set (cl_outbox c)) c []"
proof -
  from assms have q: "cl_broker c = []" "distinct (map row_id (cl_outbox c))" "distinct (map row_event (cl_outbox c))"
    "\<And>r. r \<in> set (cl_outbox c) \<Longrightarrow> bk_status r = StatusPending"
    by (simp_all add: quiet_start_def list_all_iff)
  have tx: "cl_tx c s = None" "idle (cl_phase c s)" if "s < length (cl_sessions c)" for s
    using assms that by (auto simp: quiet_start_def list_all_length)
  show ?thesis
    using q tx by (auto simp: cluster_ok_def rows_fine_def sessions_ok_def session_ok_def held_def in_budget_def
        deliveries_def kept_def)
qed

text \<open>The rows a session has claimed and not cleared yet.\<close>

definition in_work :: "cluster \<Rightarrow> nat \<Rightarrow> int list" where
  "in_work c s = map pm_ID (todo (cl_phase c s))"

lemma in_work_held:
  assumes "cluster_ok t R c hs" "s < length (cl_sessions c)"
  shows "set (in_work c s) \<subseteq> set (held (cl_tx c s))"
proof -
  from assms have ok: "session_ok t (cl_outbox c) (cl_broker c) (cl_phase c s) (cl_tx c s)"
    by (simp add: cluster_ok_def sessions_ok_def)
  show ?thesis
  proof (cases "cl_tx c s")
    case None
    with ok have "todo (cl_phase c s) = []" by (auto simp: session_ok_def)
    then show ?thesis by (simp add: in_work_def)
  next
    case (Some x)
    have "pm_ID m \<in> set (tx_locks x)" if "m \<in> set (todo (cl_phase c s))" for m
    proof -
      from ok Some that obtain r where "m = scan_row r" "row_id r \<in> set (tx_locks x)"
        by (auto simp: session_ok_def tx_ok_def todo_ok_def)
      then show ?thesis by (simp add: scan_row_def)
    qed
    with Some show ?thesis by (auto simp: in_work_def held_def)
  qed
qed

text \<open>
  C3: A second relay is safe.  Let any number of relays interleave the statements of their passes, with
  registrations and purges between them, with any answers of the server and the broker, and with
  relays killed at any point.  Then no row is ever in the work of two relays; a row that is marked
  published has its record in the topic; a row that was there at the start is there still with its
  contents, or its record is in the topic; and an event is in the topic at most once, plus once for
  every step that put it at risk: a produce refused although the record arrived, a mark that failed
  behind the acknowledgement, a rollback or a kill behind it.
\<close>

theorem second_relay_is_safe:
  assumes "quiet_start start" "cluster_run t start hs c"
  shows "(\<forall>i < length (cl_sessions c). \<forall>j < length (cl_sessions c). i \<noteq> j \<longrightarrow>
      set (in_work c i) \<inter> set (in_work c j) = {}) \<and>
    (\<forall>r \<in> set (cl_outbox c). bk_status r = StatusPublished \<longrightarrow> announced_in t (cl_broker c) r) \<and>
    (\<forall>r \<in> set (cl_outbox start). (\<exists>r' \<in> set (cl_outbox c). content r' = content r) \<or> announced_in t (cl_broker c) r) \<and>
    (\<forall>e. deliveries (cl_broker c) e \<le> 1 + count_list hs e)"
proof -
  from cluster_run_ok [OF assms(2) quiet_start_ok [OF assms(1)]]
  have inv: "cluster_ok t (set (cl_outbox start)) c hs" .
  have "set (in_work c i) \<inter> set (in_work c j) = {}"
    if "i < length (cl_sessions c)" "j < length (cl_sessions c)" "i \<noteq> j" for i j
  proof -
    have "set (held (cl_tx c i)) \<inter> set (held (cl_tx c j)) = {}"
      using inv that by (simp add: cluster_ok_def sessions_ok_def)
    with in_work_held [OF inv that(1)] in_work_held [OF inv that(2)] show ?thesis by blast
  qed
  moreover have "deliveries (cl_broker c) e \<le> 1 + count_list hs e" for e
  proof -
    have "deliveries (cl_broker c) e \<le> count_list hs e + of_bool (spent c e)"
      using inv by (simp add: cluster_ok_def in_budget_def)
    then show ?thesis by (cases "spent c e") auto
  qed
  ultimately show ?thesis using inv by (simp add: cluster_ok_def rows_fine_def kept_def)
qed

text \<open>
  The witness: two relays with a batch of one take a row each, side by side; the commit of the first
  fails, and its next pass publishes the row again.
\<close>

definition two_topics :: Topics where
  "two_topics = [''User'' \<mapsto> ''accounts.user.v1'']"

abbreviation two_relay :: "world PublishPendingBatch" where
  "two_relay \<equiv> relay (\<lambda>t. t) two_topics 1 1000000000 60000000000 5"

fun schedule :: "(nat + nat) list \<Rightarrow> string list \<times> cluster \<Rightarrow> string list \<times> cluster" where
  "schedule [] (hs, c) = (hs, c)"
| "schedule (Inl s # ss) (hs, c) =
     (case pass_step two_relay (NewRelayOutbox (\<lambda>t. t)) (cl_phase c s) (enter c s) of
        (ph, w) \<Rightarrow> schedule ss (hs @ risk (cl_phase c s) (enter c s) ph w, leave c s ph w))"
| "schedule (Inr s # ss) (hs, c) =
     schedule ss (hs @ at_stake (cl_phase c s) (enter c s),
       c\<lparr>cl_sessions := (cl_sessions c)[s := \<lparr>ses_phase = Opening (first_result 1), ses_world = pg_rollback (enter c s)\<rparr>]\<rparr>)"

definition two_sessions :: "(nat + nat) list \<Rightarrow> bool" where
  "two_sessions ss \<longleftrightarrow> set ss \<subseteq> {Inl 0, Inl 1, Inr 0, Inr 1}"

lemma schedule_run:
  assumes "cluster_run two_topics start hs c" "length (cl_sessions c) = 2" "two_sessions ss"
  shows "cluster_run two_topics start (fst (schedule ss (hs, c))) (snd (schedule ss (hs, c)))"
  using assms
proof (induction ss "(hs, c)" arbitrary: hs c rule: schedule.induct)
  case (2 s ss hs c)
  obtain ph w where p: "pass_step two_relay (NewRelayOutbox (\<lambda>t. t)) (cl_phase c s) (enter c s) = (ph, w)"
    by (metis prod.exhaust)
  have s: "s < length (cl_sessions c)" using 2(3,4) by (auto simp: two_sessions_def)
  have run: "cluster_run two_topics start (hs @ risk (cl_phase c s) (enter c s) ph w) (leave c s ph w)"
    by (rule cluster_run.more [OF 2(2)]) (rule cluster_step.relays [OF relay_step.works [OF s p]])
  have len: "length (cl_sessions (leave c s ph w)) = 2" using 2(3) by (simp add: leave_def)
  have rest: "two_sessions ss" using 2(4) by (simp add: two_sessions_def)
  from 2(1) [OF p [symmetric] run len rest] p show ?case by simp
next
  case (3 s ss hs c)
  let ?d = "c\<lparr>cl_sessions := (cl_sessions c)[s := \<lparr>ses_phase = Opening (first_result 1), ses_world = pg_rollback (enter c s)\<rparr>]\<rparr>"
  have s: "s < length (cl_sessions c)" using 3(3,4) by (auto simp: two_sessions_def)
  have run: "cluster_run two_topics start (hs @ at_stake (cl_phase c s) (enter c s)) ?d"
    by (rule cluster_run.more [OF 3(2)], rule cluster_step.relays [OF relay_step.begins [OF s]]) (simp add: pg_rollback_def)
  have len: "length (cl_sessions ?d) = 2" using 3(3) by simp
  have rest: "two_sessions ss" using 3(4) by (simp add: two_sessions_def)
  from 3(1) [OF run len rest] show ?case by simp
qed simp

definition two_relays :: cluster where
  "two_relays = \<lparr>cl_outbox = [sample_row 3 StatusPending 0, sample_row 2 StatusPending 0], cl_broker = [],
     cl_sessions = [\<lparr>ses_phase = Opening (first_result 1), ses_world = sample_world [(5, PgFail (Ext ''reset''))] []\<rparr>,
       \<lparr>ses_phase = Opening (first_result 1), ses_world = sample_world [] []\<rparr>]\<rparr>"

definition side_by_side :: "(nat + nat) list" where
  "side_by_side = [Inl 0, Inl 0, Inl 1, Inl 1, Inl 0, Inl 1, Inl 1, Inl 0, Inl 1, Inl 0, Inl 0, Inl 1,
     Inr 0, Inl 0, Inl 0, Inl 0, Inl 0]"

lemma second_relay_is_safe_witness:
  "\<exists>hs c. schedule side_by_side ([], two_relays) = (hs, c) \<and> hs = [''event-2''] \<and>
     deliveries (cl_broker c) ''event-2'' = 2 \<and> deliveries (cl_broker c) ''event-3'' = 1 \<and>
     deliveries (cl_broker c) ''event-2'' \<le> 1 + count_list hs ''event-2''"
proof -
  let ?x = "schedule side_by_side ([], two_relays)"
  have "case ?x of (hs, c) \<Rightarrow> hs = [''event-2''] \<and> deliveries (cl_broker c) ''event-2'' = 2 \<and>
      deliveries (cl_broker c) ''event-3'' = 1" by code_simp
  then have v: "fst ?x = [''event-2'']" "deliveries (cl_broker (snd ?x)) ''event-2'' = 2"
    "deliveries (cl_broker (snd ?x)) ''event-3'' = 1" by (simp_all only: case_prod_unfold)
  have "quiet_start two_relays" by code_simp
  moreover have "two_sessions side_by_side" by (auto simp: two_sessions_def side_by_side_def)
  then have "cluster_run two_topics two_relays (fst ?x) (snd ?x)"
    by (intro schedule_run cluster_run.start) (simp_all add: two_relays_def)
  ultimately have "deliveries (cl_broker (snd ?x)) ''event-2'' \<le> 1 + count_list (fst ?x) ''event-2''"
    using second_relay_is_safe by blast
  with v show ?thesis by (metis prod.collapse)
qed

end
