(* ===== verification/PassEnds.thy ===== *)
theory PassEnds
  imports PassMachine SampleWorld
begin

text \<open>
  A relay pass comes to its end whatever happens around it: the worlds in which its statements run are
  arbitrary, so other relays, registrations, purges and failures may come between any two of them.
\<close>

text \<open>\<open>pass_under ws ph\<close>: where the pass stands behind one step of its own in each of the worlds.\<close>

definition pass_under :: "world PublishPendingBatch \<Rightarrow> world OutboxRepository \<Rightarrow> world list \<Rightarrow> phase \<Rightarrow> phase" where
  "pass_under uc outbox = fold (\<lambda>w ph. fst (pass_step uc outbox ph w))"

lemma pass_under_simps [simp]:
  "pass_under uc outbox [] ph = ph"
  "pass_under uc outbox (w # ws) ph = pass_under uc outbox ws (fst (pass_step uc outbox ph w))"
  by (simp_all add: pass_under_def)

subsection \<open>The steps that are left\<close>












end
