(* ===== verification/WriteMachine.thy ===== *)
theory WriteMachine
  imports WriteProperties
begin

text \<open>
  A registration as a machine of small steps: one statement, one commit or one stretch of Go code
  without a statement per step, so that registrations can be interleaved with each other and with the
  relays (\<open>Writers\<close>).  The machine run alone does what \<open>RegisterUser.Execute\<close> does.
\<close>

subsection \<open>The machine\<close>

text \<open>
  Where a registration stands: with the command in hand; before \<open>BEGIN\<close>; before the insert of the
  user; before the drain of the tracker; with the batch of outbox rows, of which the first are
  inserted; at the end of the function, before the commit or the rollback; before the notification;
  answered.  The number is the address of the aggregate.
\<close>

datatype reg_phase =
    Arrived RegisterUserCommand
  | Beginning Metadata nat
  | Saving Metadata nat
  | Draining Metadata nat
  | Appending nat "Envelope list" nat
  | Ending "gerr option" nat
  | Waking nat
  | Answered "gerr + uuid"

fun reg_step :: "(string \<Rightarrow> string) \<Rightarrow> (string \<Rightarrow> string option) \<Rightarrow> (time \<Rightarrow> time) \<Rightarrow>
    reg_phase \<Rightarrow> world \<Rightarrow> reg_phase \<times> world" where
  "reg_step uni parse stamp (Arrived cmd) w =
     (case UUIDv7_New w of
        (Inl err, w) \<Rightarrow> (Answered (Inl err), w)
      | (Inr i, w) \<Rightarrow>
          (let (now, w) = System_Now w
           in case Register uni parse i (cmd_Email cmd) (cmd_DisplayName cmd) now of
                Inl err \<Rightarrow> (Answered (Inl err), w)
              | Inr user \<Rightarrow> (let (a, w) = alloc user w in (Beginning (cmd_Meta cmd) a, w))))"
| "reg_step uni parse stamp (Beginning meta a) w =
     (case pg_begin w of
        (Some err, w) \<Rightarrow> (Answered (Inl (wrapf ''postgres: begin'' err)), w)
      | (None, w) \<Rightarrow> (Saving meta a, newTracker w))"
| "reg_step uni parse stamp (Saving meta a) w =
     (case userRepository_Save stamp a w of
        (Some err, w) \<Rightarrow> (Ending (Some err) a, w)
      | (None, w) \<Rightarrow> (Draining meta a, w))"
| "reg_step uni parse stamp (Draining meta a) w =
     (let (es, w) = drain w
      in if es \<noteq> [] then
           (case CloudEventFactory_From UUIDv7_New es meta w of
              (Inl err, w) \<Rightarrow> (Ending (Some err) a, w)
            | (Inr envelopes, w) \<Rightarrow>
                (if envelopes = [] then Ending None a else Appending 0 envelopes a, w))
         else (Ending None a, w))"
| "reg_step uni parse stamp (Appending i [] a) w =
     (case in_tx close_batch w of
        (Inl err, w) \<Rightarrow> (Ending (Some (wrapf ''postgres: close outbox batch'' err)) a, w)
      | (Inr _, w) \<Rightarrow> (Ending None a, w))"
| "reg_step uni parse stamp (Appending i (e # es) a) w =
     (case in_tx (insertOutbox stamp e) w of
        (Inl err, w) \<Rightarrow>
          (Ending (Some (wrapf (''postgres: append outbox row '' @ Itoa (int i) @ '' (event_id '' @
                        uuid_text (env_EventID e) @ '')'') err)) a, w)
      | (Inr _, w) \<Rightarrow> (Appending (Suc i) es a, w))"
| "reg_step uni parse stamp (Ending (Some err) a) w = (Answered (Inl err), pg_rollback w)"
| "reg_step uni parse stamp (Ending None a) w =
     (case pg_commit w of
        (Some err, w) \<Rightarrow> (Answered (Inl (wrapf ''postgres: commit'' err)), pg_rollback w)
      | (None, w) \<Rightarrow> (Waking a, pg_rollback w))"
| "reg_step uni parse stamp (Waking a) w = (let w = Notify w in (Answered (Inr (u_id (w_heap w a))), w))"
| "reg_step uni parse stamp (Answered x) w = (Answered x, w)"

fun reg_steps :: "nat \<Rightarrow> (string \<Rightarrow> string) \<Rightarrow> (string \<Rightarrow> string option) \<Rightarrow> (time \<Rightarrow> time) \<Rightarrow>
    reg_phase \<Rightarrow> world \<Rightarrow> reg_phase \<times> world" where
  "reg_steps 0 uni parse stamp ph w = (ph, w)"
| "reg_steps (Suc n) uni parse stamp ph w =
     (let (ph, w) = reg_step uni parse stamp ph w in reg_steps n uni parse stamp ph w)"

subsection \<open>The machine runs the registration\<close>

text \<open>\<open>reaches\<close>: the machine gets from one configuration to another by some number of steps.\<close>

definition reaches :: "(string \<Rightarrow> string) \<Rightarrow> (string \<Rightarrow> string option) \<Rightarrow> (time \<Rightarrow> time) \<Rightarrow>
    reg_phase \<times> world \<Rightarrow> reg_phase \<times> world \<Rightarrow> bool" where
  "reaches uni parse stamp c d \<longleftrightarrow> (\<exists>n. reg_steps n uni parse stamp (fst c) (snd c) = d)"

lemma reaches_refl: "reaches uni parse stamp c c"
  by (auto simp: reaches_def intro: exI [of _ 0])

lemma reaches_step:
  assumes "reg_step uni parse stamp ph w = c" "reaches uni parse stamp c d"
  shows "reaches uni parse stamp (ph, w) d"
proof -
  from assms(2) obtain n where "reg_steps n uni parse stamp (fst c) (snd c) = d" by (auto simp: reaches_def)
  with assms(1) have "reg_steps (Suc n) uni parse stamp ph w = d" by (simp add: case_prod_unfold)
  then show ?thesis unfolding reaches_def fst_conv snd_conv ..
qed

lemma reaches_once: "reg_step uni parse stamp ph w = c \<Longrightarrow> reaches uni parse stamp (ph, w) c"
  by (erule reaches_step) (rule reaches_refl)

lemma reg_steps_add:
  "reg_steps (m + n) uni parse stamp ph w =
     (let (ph, w) = reg_steps m uni parse stamp ph w in reg_steps n uni parse stamp ph w)"
  by (induction m arbitrary: ph w) (simp_all add: case_prod_unfold Let_def)

lemma reaches_trans [trans]:
  assumes "reaches uni parse stamp c d" "reaches uni parse stamp d e"
  shows "reaches uni parse stamp c e"
proof -
  from assms obtain m n where "reg_steps m uni parse stamp (fst c) (snd c) = d"
    "reg_steps n uni parse stamp (fst d) (snd d) = e" by (auto simp: reaches_def)
  then have "reg_steps (m + n) uni parse stamp (fst c) (snd c) = e" by (simp add: reg_steps_add case_prod_unfold)
  then show ?thesis unfolding reaches_def ..
qed

text \<open>The batch, from any of its statements to the end of the function.\<close>

definition closing_batch :: "gerr option \<times> world \<Rightarrow> gerr option \<times> world" where
  "closing_batch c = (case c of (Some err, w) \<Rightarrow> (Some err, w)
      | (None, w) \<Rightarrow> (case in_tx close_batch w of
           (Inl err, w) \<Rightarrow> (Some (wrapf ''postgres: close outbox batch'' err), w)
         | (Inr _, w) \<Rightarrow> (None, w)))"

lemma Append_closing: "es \<noteq> [] \<Longrightarrow> OutboxRepository_Append stamp es w = closing_batch (Append_loop stamp 0 es w)"
  by (simp add: OutboxRepository_Append_def closing_batch_def)

lemma machine_append:
  "closing_batch (Append_loop stamp i es w) = (err, w') \<Longrightarrow>
     reaches uni parse stamp (Appending i es a, w) (Ending err a, w')"
proof (induction es arbitrary: i w)
  case Nil
  then show ?case
    by (intro reaches_once) (auto simp: closing_batch_def split: sum.splits prod.splits)
next
  case (Cons e es)
  obtain y v where y: "in_tx (insertOutbox stamp e) w = (y, v)" by (metis prod.exhaust)
  show ?case
  proof (cases y)
    case (Inl x)
    with Cons.prems y show ?thesis by (intro reaches_once) (auto simp: closing_batch_def)
  next
    case (Inr u)
    from y Inr have s: "reg_step uni parse stamp (Appending i (e # es) a) w = (Appending (Suc i) es a, v)" by simp
    from Cons.prems y Inr have "closing_batch (Append_loop stamp (Suc i) es v) = (err, w')" by simp
    from reaches_step [OF s Cons.IH [OF this]] show ?thesis .
  qed
qed

text \<open>The closure and the drain inside the transaction.\<close>

lemma machine_write_body:
  assumes "write_body (api_uow stamp) stamp meta (\<lambda>save. save a) r w = ((err, r'), w')"
  shows "reaches uni parse stamp (Saving meta a, newTracker w) (Ending err a, w')"
proof -
  obtain y v where y: "userRepository_Save stamp a (newTracker w) = (y, v)" by (metis prod.exhaust)
  obtain es u where d: "drain v = (es, u)" by (metis prod.exhaust)
  obtain z q where z: "CloudEventFactory_From UUIDv7_New es meta u = (z, q)" by (metis prod.exhaust)
  show ?thesis
  proof (cases y)
    case (Some e)
    with assms y show ?thesis by (intro reaches_once) (auto simp: write_body_def)
  next
    case None
    with y have s: "reg_step uni parse stamp (Saving meta a) (newTracker w) = (Draining meta a, v)" by simp
    consider (nothing) "es = []" | (refused) e where "es \<noteq> []" "z = Inl e"
      | (none) "es \<noteq> []" "z = Inr []" | (some) envs where "es \<noteq> []" "z = Inr envs" "envs \<noteq> []"
      by (cases z) auto
    then have "reaches uni parse stamp (Draining meta a, v) (Ending err a, w')"
    proof cases
      case nothing
      with assms y None d show ?thesis by (intro reaches_once) (simp add: write_body_def)
    next
      case refused
      with assms y None d z show ?thesis
        by (intro reaches_once) (simp add: write_body_def api_uow_def NewUnitOfWork_def)
    next
      case none
      with assms y None d z show ?thesis
        by (intro reaches_once) (simp add: write_body_def api_uow_def NewUnitOfWork_def OutboxRepository_Append_def)
    next
      case some
      with d z have t: "reg_step uni parse stamp (Draining meta a) v = (Appending 0 envs a, q)" by simp
      have "closing_batch (Append_loop stamp 0 envs q) = (err, w')"
        using assms y None d z some
        by (auto simp: write_body_def api_uow_def NewUnitOfWork_def Append_closing split: option.splits prod.splits)
      from reaches_step [OF t machine_append [OF this]] show ?thesis .
    qed
    with s show ?thesis by (rule reaches_step)
  qed
qed

lemma machine_do:
  assumes "UnitOfWork_Do (api_uow stamp) stamp meta (\<lambda>save. save a) w = (err, w')"
  shows "reaches uni parse stamp (Beginning meta a, w)
    (case err of Some e \<Rightarrow> Answered (Inl e) | None \<Rightarrow> Waking a, w')"
proof -
  obtain x v where b: "pg_begin w = (x, v)" by (metis prod.exhaust)
  show ?thesis
  proof (cases x)
    case (Some e)
    with assms b show ?thesis by (intro reaches_once) (auto simp: UnitOfWork_Do_def WithTx_def)
  next
    case None
    with b have s: "reg_step uni parse stamp (Beginning meta a) w = (Saving meta a, newTracker v)" by simp
    obtain y r u where f: "write_body (api_uow stamp) stamp meta (\<lambda>save. save a) () v = ((y, r), u)" by (metis prod.exhaust)
    have "reg_step uni parse stamp (Ending y a) u =
        (case err of Some e \<Rightarrow> Answered (Inl e) | None \<Rightarrow> Waking a, w')"
      using assms b None f
      by (cases y; cases "pg_commit u"; cases "fst (pg_commit u)") (auto simp: UnitOfWork_Do_def WithTx_def)
    with reaches_step [OF s reaches_trans [OF machine_write_body [OF f] reaches_once]] show ?thesis .
  qed
qed

text \<open>
  The machine is the registration: stepped on its own from the command, it comes to an answer,
  and the answer and the world are the ones \<open>RegisterUser.Execute\<close> returns, for every outcome of
  every statement.
\<close>

lemma write_machine_runs_the_registration:
  "\<exists>n x w'. RegisterUser_Execute uni parse (api_uow stamp) stamp cmd w = (x, w') \<and>
     reg_steps n uni parse stamp (Arrived cmd) w = (Answered x, w')"
proof -
  obtain x w' where run: "RegisterUser_Execute uni parse (api_uow stamp) stamp cmd w = (x, w')" by (metis prod.exhaust)
  obtain m v where m: "UUIDv7_New w = (m, v)" by (metis prod.exhaust)
  obtain now u where now: "System_Now v = (now, u)" by (metis prod.exhaust)
  have "reaches uni parse stamp (Arrived cmd, w) (Answered x, w')"
  proof (cases m)
    case (Inl e)
    with run m show ?thesis by (intro reaches_once) (auto simp: RegisterUser_Execute_def)
  next
    case i: (Inr i)
    show ?thesis
    proof (cases "Register uni parse i (cmd_Email cmd) (cmd_DisplayName cmd) now")
      case (Inl e)
      with run m i now show ?thesis by (intro reaches_once) (auto simp: RegisterUser_Execute_def)
    next
      case (Inr user)
      obtain a q where q: "alloc user u = (a, q)" by (metis prod.exhaust)
      with m i now Inr have s: "reg_step uni parse stamp (Arrived cmd) w = (Beginning (cmd_Meta cmd) a, q)" by simp
      obtain err p where p: "UnitOfWork_Do (api_uow stamp) stamp (cmd_Meta cmd) (\<lambda>save. save a) q = (err, p)"
        by (metis prod.exhaust)
      note to_end = reaches_step [OF s machine_do [OF p]]
      show ?thesis
      proof (cases err)
        case (Some e)
        with run m i now Inr q p to_end show ?thesis by (simp add: RegisterUser_Execute_def)
      next
        case None
        have "reg_step uni parse stamp (Waking a) p = (Answered x, w')"
          using run m i now Inr q p None by (auto simp: RegisterUser_Execute_def Let_def)
        from reaches_trans [OF to_end [unfolded None option.case] reaches_once [OF this]] show ?thesis .
      qed
    qed
  qed
  with run show ?thesis by (auto simp: reaches_def)
qed

end
