(* ===== verification/Writers.thy ===== *)
theory Writers
  imports WriteMachine SecondRelay System
begin

text \<open>
  The running service: any number of clients register users, statement by statement, on the tables on
  which the relays of a \<open>Cluster\<close> run their passes.  A registration is a transaction like the relays'
  ones, that may fail, be rolled back or be killed at any statement, and only its commit shows.
\<close>

subsection \<open>Clients\<close>

text \<open>
  A client is a request in flight: where its registration stands, and its world, of which the heap,
  the tracker and the transaction are its own.
\<close>

record client =
  cli_phase :: reg_phase
  cli_world :: world

text \<open>
  The tables, the id sequence of \<open>accounts.outbox\<close>, and the event ids minted so far, a history
  variable.
\<close>

record service =
  sv_cluster :: cluster
  sv_users :: "user_row list"
  sv_seq :: int
  sv_minted :: "uuid list"
  sv_clients :: "client list"

abbreviation sv_phase :: "service \<Rightarrow> nat \<Rightarrow> reg_phase" where
  "sv_phase v k \<equiv> cli_phase (sv_clients v ! k)"

abbreviation sv_world :: "service \<Rightarrow> nat \<Rightarrow> world" where
  "sv_world v k \<equiv> cli_world (sv_clients v ! k)"

abbreviation sv_outbox :: "service \<Rightarrow> outbox_row list" where
  "sv_outbox v \<equiv> cl_outbox (sv_cluster v)"

abbreviation sv_broker :: "service \<Rightarrow> kafka_record list" where
  "sv_broker v \<equiv> cl_broker (sv_cluster v)"

text \<open>What client \<open>k\<close> works on, and the state it leaves.\<close>

definition client_enter :: "service \<Rightarrow> nat \<Rightarrow> world" where
  "client_enter v k = (sv_world v k)\<lparr>w_users := sv_users v, w_outbox := sv_outbox v,
     w_broker := sv_broker v, w_seq := sv_seq v\<rparr>"

fun minted :: "reg_phase \<Rightarrow> reg_phase \<Rightarrow> uuid list" where
  "minted (Draining _ _) (Appending _ es _) = map env_EventID es"
| "minted _ _ = []"

definition client_leave :: "service \<Rightarrow> nat \<Rightarrow> reg_phase \<Rightarrow> world \<Rightarrow> service" where
  "client_leave v k ph w = \<lparr>sv_cluster = (sv_cluster v)\<lparr>cl_outbox := w_outbox w\<rparr>, sv_users = w_users w,
     sv_seq = w_seq w, sv_minted = sv_minted v @ minted (sv_phase v k) ph,
     sv_clients = (sv_clients v)[k := \<lparr>cli_phase = ph, cli_world = w\<rparr>]\<rparr>"

subsection \<open>Waiting for a key\<close>

text \<open>What an open transaction has inserted; a transaction with a failed statement holds nothing any more.\<close>

definition live_users :: "txn option \<Rightarrow> user_row list" where
  "live_users tx = (case tx of None \<Rightarrow> [] | Some x \<Rightarrow> if tx_aborted x then [] else tx_users x)"

definition live_rows :: "txn option \<Rightarrow> outbox_row list" where
  "live_rows tx = (case tx of None \<Rightarrow> [] | Some x \<Rightarrow> if tx_aborted x then [] else tx_rows x)"

text \<open>
  An insert whose key is in a unique index by an open transaction waits until that transaction has
  ended.
\<close>

definition waits_for :: "service \<Rightarrow> nat \<Rightarrow> nat \<Rightarrow> bool" where
  "waits_for v k j \<longleftrightarrow> (case sv_phase v k of
       Saving meta a \<Rightarrow>
         (let u = w_heap (sv_world v k) a
          in list_ex (\<lambda>r. usr_email r = Email_String (u_email u) \<or> usr_id r = u_id u) (live_users (w_tx (sv_world v j))))
     | _ \<Rightarrow> False)"

definition waits :: "service \<Rightarrow> nat \<Rightarrow> bool" where
  "waits v k \<longleftrightarrow> list_ex (\<lambda>j. j \<noteq> k \<and> waits_for v k j) [0..<length (sv_clients v)]"

subsection \<open>Steps\<close>

definition new_ids :: "service \<Rightarrow> uuid list \<Rightarrow> bool" where
  "new_ids v is \<longleftrightarrow> distinct is \<and> list_all (\<lambda>i. i \<notin> set (sv_minted v)) is"

text \<open>
  \<open>relays\<close>: a step of a relay, of the purge, or of what surrounds them.  \<open>writes\<close>: a client takes the
  next step of its registration; a minted event id is new, as a UUID promises, and an insert that waits
  can end with an error, a lost connection or a timeout, but not succeed.  \<open>arrives\<close>: the next command,
  behind an answer or behind the end of a killed process, whose transaction is rolled back.
\<close>

inductive service_step :: "(string \<Rightarrow> string) \<Rightarrow> (string \<Rightarrow> string option) \<Rightarrow> (time \<Rightarrow> time) \<Rightarrow> Topics \<Rightarrow>
    service \<Rightarrow> string list \<Rightarrow> service \<Rightarrow> bool" for uni parse stamp t where
  relays: "relay_step t (sv_cluster v) h c \<Longrightarrow> service_step uni parse stamp t v h (v\<lparr>sv_cluster := c\<rparr>)"
| writes: "k < length (sv_clients v) \<Longrightarrow>
     reg_step uni parse stamp (sv_phase v k) (client_enter v k) = (ph, w) \<Longrightarrow>
     waits v k \<longrightarrow> env_pg (w_env (sv_world v k)) (w_tick (sv_world v k)) \<noteq> PgOk \<Longrightarrow>
     new_ids v (minted (sv_phase v k) ph) \<Longrightarrow>
     service_step uni parse stamp t v [] (client_leave v k ph w)"
| arrives: "k < length (sv_clients v) \<Longrightarrow> w_tx w = None \<Longrightarrow>
     service_step uni parse stamp t v []
       (v\<lparr>sv_clients := (sv_clients v)[k := \<lparr>cli_phase = Arrived cmd, cli_world = w\<rparr>]\<rparr>)"

inductive service_run :: "(string \<Rightarrow> string) \<Rightarrow> (string \<Rightarrow> string option) \<Rightarrow> (time \<Rightarrow> time) \<Rightarrow> Topics \<Rightarrow>
    service \<Rightarrow> string list \<Rightarrow> service \<Rightarrow> bool" for uni parse stamp t v where
  start: "service_run uni parse stamp t v [] v"
| more: "service_run uni parse stamp t v hs v' \<Longrightarrow> service_step uni parse stamp t v' h v'' \<Longrightarrow>
    service_run uni parse stamp t v (hs @ h) v''"

subsection \<open>The invariant of a client\<close>

text \<open>What a registration has in its transaction.\<close>

definition holds :: "txn option \<Rightarrow> user_row list \<Rightarrow> outbox_row list \<Rightarrow> bool" where
  "holds tx us rs \<longleftrightarrow> (\<exists>x. tx = Some x \<and> tx_patch x = (\<lambda>i r. r) \<and> tx_users x = us \<and> tx_rows x = rs)"

text \<open>The envelope of the event of a user, and a row of it that waits for a relay.\<close>

definition event_envelope :: "user_row \<Rightarrow> Envelope \<Rightarrow> bool" where
  "event_envelope u e \<longleftrightarrow> env_AggregateType e = AggregateTypeUser \<and>
     env_AggregateID e = uuid_text (usr_id u) \<and> env_EventType e = EventTypeUserRegistered"

definition new_row :: "user_row \<Rightarrow> outbox_row \<Rightarrow> bool" where
  "new_row u r \<longleftrightarrow> event_row u r \<and> bk_status r = StatusPending"

definition new_user :: "User \<Rightarrow> bool" where
  "new_user u \<longleftrightarrow> events u = [registered_event u]"

text \<open>\<open>committed\<close> are the ids of the users in the table.\<close>

fun client_ok :: "uuid set \<Rightarrow> reg_phase \<Rightarrow> world \<Rightarrow> bool" where
  "client_ok committed (Arrived cmd) w \<longleftrightarrow> w_tx w = None"
| "client_ok committed (Beginning meta a) w \<longleftrightarrow> w_tx w = None \<and> new_user (w_heap w a)"
| "client_ok committed (Saving meta a) w \<longleftrightarrow> holds (w_tx w) [] [] \<and> new_user (w_heap w a) \<and> w_tracked w = []"
| "client_ok committed (Draining meta a) w \<longleftrightarrow> new_user (w_heap w a) \<and> w_tracked w = [a] \<and>
     (\<exists>u. usr_id u = u_id (w_heap w a) \<and> holds (w_tx w) [u] [])"
| "client_ok committed (Appending i es a) w \<longleftrightarrow> (\<exists>u. usr_id u = u_id (w_heap w a) \<and>
     ((\<exists>e. es = [e] \<and> event_envelope u e \<and> holds (w_tx w) [u] []) \<or>
      (\<exists>r. es = [] \<and> new_row u r \<and> holds (w_tx w) [u] [r])))"
| "client_ok committed (Ending (Some err) a) w \<longleftrightarrow> True"
| "client_ok committed (Ending None a) w \<longleftrightarrow>
     (\<exists>u r. usr_id u = u_id (w_heap w a) \<and> new_row u r \<and> holds (w_tx w) [u] [r])"
| "client_ok committed (Waking a) w \<longleftrightarrow> w_tx w = None \<and> u_id (w_heap w a) \<in> committed"
| "client_ok committed (Answered (Inl err)) w \<longleftrightarrow> w_tx w = None"
| "client_ok committed (Answered (Inr i)) w \<longleftrightarrow> w_tx w = None \<and> i \<in> committed"

lemma client_ok_mono: "client_ok I ph w \<Longrightarrow> I \<subseteq> J \<Longrightarrow> client_ok J ph w"
  by (induction ph w rule: client_ok.induct) auto

subsection \<open>Keys\<close>

text \<open>
  What has to be unique in the database, as values of one type: emails and ids of users, ids and
  event ids of outbox rows.  An envelope that is still to be inserted counts with its event id.
\<close>

datatype key = EmailKey string | IdKey uuid | RowKey int | EventKey uuid

definition keys :: "user_row list \<Rightarrow> outbox_row list \<Rightarrow> uuid list \<Rightarrow> key set" where
  "keys us rs es = (EmailKey \<circ> usr_email) ` set us \<union> (IdKey \<circ> usr_id) ` set us \<union>
     (RowKey \<circ> row_id) ` set rs \<union> (EventKey \<circ> row_event_id) ` set rs \<union> EventKey ` set es"

fun to_append :: "reg_phase \<Rightarrow> uuid list" where
  "to_append (Appending i es a) = map env_EventID es"
| "to_append _ = []"

definition client_keys :: "reg_phase \<Rightarrow> txn option \<Rightarrow> key set" where
  "client_keys ph tx = keys (live_users tx) (live_rows tx) (to_append ph)"

definition table_keys :: "user_row list \<Rightarrow> outbox_row list \<Rightarrow> key set" where
  "table_keys us rs = keys us rs []"

lemma keys_simps [simp]:
  "EmailKey m \<in> keys us rs es \<longleftrightarrow> m \<in> usr_email ` set us"
  "IdKey i \<in> keys us rs es \<longleftrightarrow> i \<in> usr_id ` set us"
  "RowKey n \<in> keys us rs es \<longleftrightarrow> n \<in> row_id ` set rs"
  "EventKey j \<in> keys us rs es \<longleftrightarrow> j \<in> row_event_id ` set rs \<or> j \<in> set es"
  by (auto simp: keys_def)

lemma key_subsetI:
  assumes "\<And>m. EmailKey m \<in> A \<Longrightarrow> EmailKey m \<in> B" "\<And>i. IdKey i \<in> A \<Longrightarrow> IdKey i \<in> B"
    "\<And>n. RowKey n \<in> A \<Longrightarrow> RowKey n \<in> B" "\<And>j. EventKey j \<in> A \<Longrightarrow> EventKey j \<in> B"
  shows "A \<subseteq> B"
proof
  show "x \<in> B" if "x \<in> A" for x using assms that by (cases x) auto
qed

end
