(* ===== verification/WriterMoves.thy ===== *)
theory WriterMoves
  imports Writers
begin

text \<open>
  What one step of a registration does, seen from outside: it stays inside its transaction, and may
  take keys nobody else holds, or it commits one user and the row of its event.
\<close>

subsection \<open>The two kinds of step\<close>

definition takes :: "reg_phase \<Rightarrow> world \<Rightarrow> reg_phase \<Rightarrow> world \<Rightarrow> key \<Rightarrow> bool" where
  "takes ph w ph' w' x \<longleftrightarrow> (case x of
       EmailKey m \<Rightarrow> m \<notin> usr_email ` set (w_users w) \<and> env_pg (w_env w) (w_tick w) = PgOk \<and>
         (\<exists>meta a. ph = Saving meta a \<and> m = Email_String (u_email (w_heap w a)))
     | IdKey i \<Rightarrow> i \<notin> usr_id ` set (w_users w) \<and> env_pg (w_env w) (w_tick w) = PgOk \<and>
         (\<exists>meta a. ph = Saving meta a \<and> i = u_id (w_heap w a))
     | RowKey n \<Rightarrow> n = w_seq w \<and> w_seq w < w_seq w'
     | EventKey j \<Rightarrow> j \<in> set (minted ph ph'))"

definition stays_inside :: "reg_phase \<Rightarrow> world \<Rightarrow> reg_phase \<Rightarrow> world \<Rightarrow> bool" where
  "stays_inside ph w ph' w' \<longleftrightarrow> w_users w' = w_users w \<and> w_outbox w' = w_outbox w \<and> w_seq w \<le> w_seq w' \<and>
     (\<forall>x \<in> client_keys ph' (w_tx w'). x \<in> client_keys ph (w_tx w) \<or> takes ph w ph' w' x)"

definition commits_user :: "reg_phase \<Rightarrow> world \<Rightarrow> reg_phase \<Rightarrow> world \<Rightarrow> bool" where
  "commits_user ph w ph' w' \<longleftrightarrow> (\<exists>u r. live_users (w_tx w) = [u] \<and> live_rows (w_tx w) = [r] \<and> new_row u r \<and>
     w_users w' = w_users w @ [u] \<and> w_outbox w' = w_outbox w @ [r] \<and> w_seq w' = w_seq w \<and>
     client_keys ph' (w_tx w') = {} \<and> minted ph ph' = [])"

abbreviation user_ids :: "world \<Rightarrow> uuid set" where
  "user_ids w \<equiv> usr_id ` set (w_users w)"

lemma live_simps [simp]:
  "live_users None = []" "live_rows None = []"
  "live_users (Some x) = (if tx_aborted x then [] else tx_users x)"
  "live_rows (Some x) = (if tx_aborted x then [] else tx_rows x)"
  by (simp_all add: live_users_def live_rows_def)

lemma no_keys [simp]: "keys [] [] [] = {}"
  by (simp add: keys_def)

lemma quiet_inside:
  assumes "w_users w' = w_users w" "w_outbox w' = w_outbox w" "w_seq w \<le> w_seq w'"
    "live_users (w_tx w') = []" "live_rows (w_tx w') = []" "to_append ph' = []"
  shows "stays_inside ph w ph' w'"
  using assms by (simp add: stays_inside_def client_keys_def)

text \<open>A statement that failed leaves nothing alive.\<close>

lemma in_tx_Inl_live:
  assumes "in_tx body w = (Inl e, w')"
  shows "live_users (w_tx w') = []" "live_rows (w_tx w') = []"
  using assms
  by (auto simp: in_tx_def abort_def split: option.splits if_splits pg_reply.splits sum.splits prod.splits)

lemma in_tx_seq:
  assumes "in_tx body w = (x, w')" "\<And>w t. w_seq w \<le> snd (body w t)"
  shows "w_users w' = w_users w" "w_outbox w' = w_outbox w" "w_seq w \<le> w_seq w'"
  using in_tx_calm [OF assms] by (simp_all add: calm_def same_db_def)

subsection \<open>Phase by phase\<close>

lemma arrived_effect:
  assumes "reg_step uni parse stamp (Arrived cmd) w = (ph', w')" "client_ok I (Arrived cmd) w"
  shows "client_ok (user_ids w') ph' w' \<and> stays_inside (Arrived cmd) w ph' w'"
proof -
  obtain m where m: "UUIDv7_New w = (m, tick w)" by (simp add: UUIDv7_New_def)
  show ?thesis
  proof (cases m)
    case (Inl e)
    with assms m show ?thesis by (auto intro!: quiet_inside)
  next
    case (Inr i)
    let ?now = "env_clock (w_env w) (Suc (w_tick w))"
    show ?thesis
    proof (cases "Register uni parse i (cmd_Email cmd) (cmd_DisplayName cmd) ?now")
      case (Inl e)
      with assms m Inr show ?thesis by (auto simp: System_Now_def intro!: quiet_inside)
    next
      case user: (Inr u)
      with assms m Inr Register_InrD(7) [OF user] show ?thesis
        by (auto simp: System_Now_def alloc_def new_user_def intro!: quiet_inside)
    qed
  qed
qed

lemma beginning_effect:
  assumes "reg_step uni parse stamp (Beginning meta a) w = (ph', w')" "client_ok I (Beginning meta a) w"
  shows "client_ok (user_ids w') ph' w' \<and> stays_inside (Beginning meta a) w ph' w'"
proof -
  obtain x v where b: "pg_begin w = (x, v)" by (metis prod.exhaust)
  show ?thesis
  proof (cases x)
    case (Some e)
    with assms b pg_begin_Some [of w e v] show ?thesis by (auto intro!: quiet_inside)
  next
    case None
    with assms b pg_begin_None [of w v] show ?thesis
      by (auto simp: newTracker_def fresh_txn_def holds_def intro!: quiet_inside)
  qed
qed

lemma saving_effect:
  assumes step: "reg_step uni parse stamp (Saving meta a) w = (ph', w')" and ok: "client_ok I (Saving meta a) w"
  shows "client_ok (user_ids w') ph' w' \<and> stays_inside (Saving meta a) w ph' w'"
proof -
  let ?u = "user_row_of stamp (w_heap w a)"
  obtain y v where y: "userRepository_Save stamp a w = (y, v)" by (metis prod.exhaust)
  note f = Save_frame [OF y]
  show ?thesis
  proof (cases y)
    case (Some e)
    with step y have s: "ph' = Ending (Some e) a" "w' = v" by simp_all
    from y Some obtain e' where "in_tx (insertUser ?u) w = (Inl e', v)"
      by (auto simp: userRepository_Save_def Let_def split: sum.splits prod.splits if_splits)
    from in_tx_Inl_live [OF this] f(1) show ?thesis
      unfolding s by (auto simp: calm_def same_db_def intro!: quiet_inside)
  next
    case None
    with step y have s: "ph' = Draining meta a" "w' = v" by simp_all
    from ok obtain x where x: "w_tx w = Some x" "tx_patch x = (\<lambda>i r. r)" "tx_users x = []" "tx_rows x = []"
      by (auto simp: holds_def)
    from y None have r: "\<not> tx_aborted x" "usr_id ?u \<notin> user_ids w" "usr_email ?u \<notin> usr_email ` set (w_users w)"
      "w_tx v = Some (x\<lparr>tx_users := [?u]\<rparr>)" "w_tracked v = w_tracked w @ [a]" "w_seq v = w_seq w"
      by (auto elim!: Save_None simp: x users_view_def)
    have "env_pg (w_env w) (w_tick w) = PgOk"
      using y None by (auto simp: userRepository_Save_def Let_def split: sum.splits prod.splits if_splits elim!: in_tx_Inr)
    with f r x have "stays_inside (Saving meta a) w (Draining meta a) v"
      unfolding stays_inside_def
      by (auto simp: calm_def same_db_def client_keys_def takes_def keys_def user_row_of_def)
    moreover have "holds (w_tx v) [?u] []" using r(4) x by (simp add: holds_def)
    moreover have "usr_id ?u = u_id (w_heap v a)" using f(2) by (simp add: user_row_of_def)
    ultimately show ?thesis using ok f(2) r(5) by (auto simp: s)
  qed
qed

lemma envelope_of_registered:
  assumes "envelope_of meta (registered_event user) e" "usr_id u = u_id user"
  shows "event_envelope u e"
  using assms by (simp add: envelope_of_def event_envelope_def registered_event_def)

lemma draining_effect:
  assumes step: "reg_step uni parse stamp (Draining meta a) w = (ph', w')" and ok: "client_ok I (Draining meta a) w"
  shows "client_ok (user_ids w') ph' w' \<and> stays_inside (Draining meta a) w ph' w'"
proof -
  from ok obtain u where u: "usr_id u = u_id (w_heap w a)" "holds (w_tx w) [u] []"
    and ev: "events (w_heap w a) = [registered_event (w_heap w a)]" "w_tracked w = [a]"
    by (auto simp: new_user_def)
  define v where "v = snd (drain w)"
  have d: "drain w = ([registered_event (w_heap w a)], v)" by (simp add: v_def drain_eq ev)
  have v: "w_tx v = w_tx w" "u_id (w_heap v a) = u_id (w_heap w a)" "w_users v = w_users w"
    "w_outbox v = w_outbox w" "w_seq v = w_seq w"
    by (simp_all add: v_def drain_eq ev)
  obtain z q where z: "CloudEventFactory_From UUIDv7_New [registered_event (w_heap w a)] meta v = (z, q)"
    by (metis prod.exhaust)
  note q = only_ticks_simps [OF Factory_ticks [OF z]]
  have same: "w_users q = w_users w" "w_outbox q = w_outbox w" "w_seq q = w_seq w" "w_tx q = w_tx w" "w_heap q = w_heap v"
    using q v by (simp_all add: calm_def same_db_def)
  show ?thesis
  proof (cases z)
    case (Inl e)
    with step d z have s: "ph' = Ending (Some e) a" "w' = q" by simp_all
    then show ?thesis by (auto simp: stays_inside_def client_keys_def same)
  next
    case (Inr envs)
    from CloudEventFactory_From_Inr [OF z [unfolded Inr]] obtain e where e: "envs = [e]"
      "envelope_of meta (registered_event (w_heap w a)) e" by (auto simp: list_all2_singleton)
    with step d z Inr have s: "ph' = Appending 0 [e] a" "w' = q" by simp_all
    have "stays_inside (Draining meta a) w ph' w'"
      unfolding stays_inside_def s by (auto simp: client_keys_def same takes_def keys_def)
    with u v(2) envelope_of_registered [OF e(2) u(1)] show ?thesis by (auto simp: s same)
  qed
qed

lemma appending_effect:
  assumes step: "reg_step uni parse stamp (Appending i es a) w = (ph', w')" and ok: "client_ok I (Appending i es a) w"
  shows "client_ok (user_ids w') ph' w' \<and> stays_inside (Appending i es a) w ph' w'"
proof (cases es)
  case Nil
  with ok obtain u r x where u: "usr_id u = u_id (w_heap w a)" "new_row u r"
    and x: "w_tx w = Some x" "tx_patch x = (\<lambda>i r. r)" "tx_users x = [u]" "tx_rows x = [r]"
    by (auto simp: holds_def)
  obtain y v where y: "in_tx close_batch w = (y, v)" by (metis prod.exhaust)
  note f = in_tx_seq [OF y] in_tx_frame(4) [OF y]
  show ?thesis
  proof (cases y)
    case (Inl e)
    with step y Nil obtain err where s: "ph' = Ending (Some err) a" "w' = v" by auto
    from in_tx_Inl_live [OF y [unfolded Inl]] f show ?thesis
      unfolding s by (auto simp: close_batch_def intro!: quiet_inside)
  next
    case (Inr k)
    with step y Nil have s: "ph' = Ending None a" "w' = v" by simp_all
    from y Inr have v: "w_tx v = w_tx w" by (auto elim!: in_tx_Inr simp: close_batch_def)
    have "stays_inside (Appending i [] a) w ph' w'"
      using f by (simp add: s stays_inside_def v client_keys_def close_batch_def)
    moreover have "holds (w_tx v) [u] [r]" using x by (simp add: v holds_def)
    ultimately show ?thesis using Nil u f by (auto simp: s close_batch_def)
  qed
next
  case (Cons e es')
  with ok obtain u x where u: "usr_id u = u_id (w_heap w a)" "event_envelope u e" "es' = []"
    and x: "w_tx w = Some x" "tx_patch x = (\<lambda>i r. r)" "tx_users x = [u]" "tx_rows x = []"
    by (auto simp: holds_def)
  obtain y v where y: "in_tx (insertOutbox stamp e) w = (y, v)" by (metis prod.exhaust)
  note c = insertOutbox_calm [OF y]
  then have f: "w_users v = w_users w" "w_outbox v = w_outbox w" "w_seq w \<le> w_seq v" "w_heap v = w_heap w"
    using in_tx_frame(4) [OF y] by (simp_all add: calm_def same_db_def)
  show ?thesis
  proof (cases y)
    case (Inl k)
    with step y Cons obtain err where s: "ph' = Ending (Some err) a" "w' = v" by auto
    from in_tx_Inl_live [OF y [unfolded Inl]] f show ?thesis
      unfolding s by (auto intro!: quiet_inside)
  next
    case (Inr k)
    with step y Cons u(3) have s: "ph' = Appending (Suc i) [] a" "w' = v" by simp_all
    let ?r = "outbox_row_of (w_env w) stamp (tx_now x) (w_seq w) e"
    from y Inr have v: "w_tx v = Some (x\<lparr>tx_rows := [?r]\<rparr>)" "w_seq v = w_seq w + 1" "\<not> tx_aborted x"
      by (auto elim!: in_tx_Inr simp: insertOutbox_def x split: if_splits)
    have r: "row_id ?r = w_seq w" "row_event_id ?r = env_EventID e" by (simp_all add: outbox_row_of_def)
    have "new_row u ?r" using u(2) by (simp add: new_row_def event_row_def event_envelope_def outbox_row_of_def)
    moreover have "holds (w_tx v) [u] [?r]" using v x by (simp add: holds_def)
    moreover have "stays_inside (Appending i [e] a) w ph' w'"
      using f v x r by (auto simp: s stays_inside_def client_keys_def takes_def keys_def)
    ultimately show ?thesis using Cons u f by (auto simp: s)
  qed
qed

lemma apply_live:
  assumes "w_tx w = Some x" "\<not> tx_aborted x" "tx_patch x = (\<lambda>i r. r)"
  shows "w_users (apply_txn x (tick w)) = w_users w @ live_users (w_tx w)"
    "w_outbox (apply_txn x (tick w)) = w_outbox w @ live_rows (w_tx w)"
  using apply_fresh [OF assms(1,3) same_db_refl] assms(1,2) by simp_all

lemma ending_effect:
  assumes step: "reg_step uni parse stamp (Ending err a) w = (ph', w')" and ok: "client_ok I (Ending err a) w"
  shows "client_ok (user_ids w') ph' w' \<and>
    (stays_inside (Ending err a) w ph' w' \<or> commits_user (Ending err a) w ph' w')"
proof (cases err)
  case (Some e)
  with step have "ph' = Answered (Inl e)" "w' = pg_rollback w" by simp_all
  then show ?thesis by (auto simp: pg_rollback_def intro!: quiet_inside)
next
  case None
  with ok obtain u r x where u: "usr_id u = u_id (w_heap w a)" "new_row u r"
    and x: "w_tx w = Some x" "tx_patch x = (\<lambda>i r. r)" "tx_users x = [u]" "tx_rows x = [r]"
    by (auto simp: holds_def)
  obtain y v where y: "pg_commit w = (y, v)" by (metis prod.exhaust)
  from step None y have s: "ph' = (case y of None \<Rightarrow> Waking a | Some e \<Rightarrow> Answered (Inl (wrapf ''postgres: commit'' e)))"
    "w' = pg_rollback v" by (cases y; simp)+
  consider (lost) e where "y = Some e" "w_users w' = w_users w" "w_outbox w' = w_outbox w" "w_seq w' = w_seq w" "w_tx w' = None"
    | (took) "\<not> tx_aborted x" "w' = pg_rollback (apply_txn x (tick w))"
    using y x(1) s(2)
    by (auto simp: pg_commit_def pg_rollback_def split: if_splits pg_reply.splits)
  then show ?thesis
  proof cases
    case lost
    then show ?thesis by (auto simp: s(1) intro!: quiet_inside)
  next
    case took
    note ap = apply_live [OF x(1) took(1) x(2)]
    have w': "w_users w' = w_users w @ [u]" "w_outbox w' = w_outbox w @ [r]" "w_seq w' = w_seq w" "w_tx w' = None"
      "w_heap w' = w_heap w"
      using ap x took(1) by (simp_all add: took(2)) (simp_all add: pg_rollback_def apply_txn_def)
    have "commits_user (Ending err a) w ph' w'"
      unfolding commits_user_def using w' x took(1) u(2)
      by (intro exI [of _ u] exI [of _ r]) (cases y; simp add: s(1) client_keys_def)
    then show ?thesis using w' u(1) by (cases y) (auto simp: s(1))
  qed
qed

lemma waking_effect:
  assumes "reg_step uni parse stamp (Waking a) w = (ph', w')" "client_ok (user_ids w) (Waking a) w"
  shows "client_ok (user_ids w') ph' w' \<and> stays_inside (Waking a) w ph' w'"
proof -
  have "w_tx (Notify w) = w_tx w" by (auto simp: Notify_def log_write_def split: pg_reply.split)
  with assms show ?thesis
    by (auto simp: Notify_frame Let_def intro!: quiet_inside)
qed

text \<open>
  Every step of a registration keeps the client's invariant, and stays inside or commits.
\<close>

lemma reg_step_effect:
  assumes step: "reg_step uni parse stamp ph w = (ph', w')" and ok: "client_ok (user_ids w) ph w"
  shows "client_ok (user_ids w') ph' w' \<and> (stays_inside ph w ph' w' \<or> commits_user ph w ph' w')"
proof (cases ph)
  case (Arrived cmd)
  with arrived_effect assms show ?thesis by blast
next
  case (Beginning meta a)
  with beginning_effect assms show ?thesis by blast
next
  case (Saving meta a)
  with saving_effect assms show ?thesis by blast
next
  case (Draining meta a)
  with draining_effect assms show ?thesis by blast
next
  case (Appending i es a)
  with appending_effect assms show ?thesis by blast
next
  case (Ending err a)
  with ending_effect assms show ?thesis by blast
next
  case (Waking a)
  with waking_effect assms show ?thesis by blast
next
  case (Answered x)
  with step ok have "ph' = ph" "w' = w" "w_tx w = None" by (cases x; auto)+
  with ok Answered show ?thesis by (auto intro!: quiet_inside)
qed

end
