(* ===== verification/Service.thy ===== *)
theory Service
  imports WriterMoves
begin

text \<open>
  What the running service keeps, however the statements of its clients and of its relays interleave:
  addresses and ids stay unique, a client is told of a registration only when it is in the table, and
  every user has exactly one event, in the outbox or in the topic.
\<close>

subsection \<open>What a relay derives\<close>

text \<open>A relay writes back rows with the contents they had, and what it adds to the topic carries a row.\<close>

definition derived :: "Topics \<Rightarrow> outbox_row list \<Rightarrow> kafka_record list \<Rightarrow> outbox_row list \<Rightarrow> kafka_record list \<Rightarrow> bool" where
  "derived t rows ks rows' ks' \<longleftrightarrow> (\<forall>r' \<in> set rows'. \<exists>r \<in> set rows. content r' = content r) \<and>
     (ks' = ks \<or> (\<exists>r \<in> set rows. \<exists>k. ks' = ks @ [k] \<and> carries t k r))"

lemma derived_same: "set rows' \<subseteq> set rows \<Longrightarrow> derived t rows ks rows' ks"
  by (auto simp: derived_def)

lemma produced:
  assumes "session_ok t rows ks (Publishing (m # ms) res) (Some x)" "Topics_For t (env_AggregateType m) = Inr topic"
  shows "derived t rows ks rows (ks @ [record_of (message_of m topic)])"
proof -
  from assms(1) obtain r where r: "r \<in> set rows" "m = scan_row r"
    by (auto simp: session_Some tx_ok_def todo_ok_def)
  with assms(2) have "Topics_For t (row_aggregate_type r) = Inr topic" by (simp add: scan_row_def)
  from record_carries [OF this] r show ?thesis unfolding derived_def by (auto simp: carries_def)
qed

lemma move_derived:
  assumes "move t locked rows ks ph tx h rows' ks' ph' tx'" "session_ok t rows ks ph tx"
  shows "derived t rows ks rows' ks'"
  using assms(1)
proof cases
  case (commits err res x)
  with assms(2) have "tx_ok t rows ks ph x" by (simp add: session_Some)
  from commit_row(1) [OF this] commits show ?thesis by (auto simp: derived_def)
qed (use assms(2) in \<open>auto intro: derived_same produced\<close>)

lemma relay_step_derived:
  assumes "relay_step t c h d" "cluster_ok t R c hs"
  shows "derived t (cl_outbox c) (cl_broker c) (cl_outbox d) (cl_broker d)"
  using assms(1)
proof cases
  case (works s stamp b base cap m ph w)
  from assms(2) works(3) have ok: "session_ok t (cl_outbox c) (cl_broker c) (cl_phase c s) (cl_tx c s)"
    and dist: "distinct (map row_id (cl_outbox c))" by (simp_all add: cluster_ok_def sessions_ok_def rows_fine_def)
  from pass_step_move [OF works(4)] ok dist
  have "move t (w_locked (enter c s)) (cl_outbox c) (cl_broker c) (cl_phase c s) (cl_tx c s)
      (risk (cl_phase c s) (enter c s) ph w) (w_outbox w) (w_broker w) ph (w_tx w)"
    by (simp add: enter_def)
  from move_derived [OF this ok] works(2) show ?thesis by (simp add: leave_def)
next
  case (purges retention limit w y w')
  from assms(2) have "distinct (map row_id (w_outbox w))"
    by (simp add: cluster_ok_def rows_fine_def purges(4))
  from page_purged [OF purges(3) this] have "set (w_outbox w') \<subseteq> set (cl_outbox c)"
    by (auto simp: purged_def purges(4) dest: list_emb_set)
  with purges show ?thesis by (simp add: derived_same)
qed (simp_all add: derived_same)

subsection \<open>The keys stay apart\<close>

definition bounded :: "int \<Rightarrow> uuid list \<Rightarrow> key \<Rightarrow> bool" where
  "bounded n is x \<longleftrightarrow> (case x of RowKey i \<Rightarrow> i < n | EventKey j \<Rightarrow> j \<in> set is | _ \<Rightarrow> True)"

text \<open>Whether an event was ever in the topic.\<close>

fun untold :: "kafka_record list \<Rightarrow> key \<Rightarrow> bool" where
  "untold ks (EventKey j) = (deliveries ks (uuid_text j) = 0)"
| "untold ks _ = True"

abbreviation sv_keys :: "service \<Rightarrow> nat \<Rightarrow> key set" where
  "sv_keys v k \<equiv> client_keys (sv_phase v k) (w_tx (sv_world v k))"

abbreviation sv_table :: "service \<Rightarrow> key set" where
  "sv_table v \<equiv> table_keys (sv_users v) (sv_outbox v)"

definition keys_ok :: "service \<Rightarrow> bool" where
  "keys_ok v \<longleftrightarrow> (\<forall>x \<in> sv_table v. bounded (sv_seq v) (sv_minted v) x) \<and>
     (\<forall>j. j \<notin> set (sv_minted v) \<longrightarrow> deliveries (sv_broker v) (uuid_text j) = 0) \<and>
     (\<forall>k < length (sv_clients v). \<forall>x \<in> sv_keys v k.
        bounded (sv_seq v) (sv_minted v) x \<and> x \<notin> sv_table v \<and> untold (sv_broker v) x \<and>
        (\<forall>j < length (sv_clients v). j \<noteq> k \<longrightarrow> x \<notin> sv_keys v j))"

lemma keys_okI:
  assumes "\<And>x. x \<in> sv_table v \<Longrightarrow> bounded (sv_seq v) (sv_minted v) x"
    and "\<And>j. j \<notin> set (sv_minted v) \<Longrightarrow> deliveries (sv_broker v) (uuid_text j) = 0"
    and "\<And>k x. k < length (sv_clients v) \<Longrightarrow> x \<in> sv_keys v k \<Longrightarrow>
      bounded (sv_seq v) (sv_minted v) x \<and> x \<notin> sv_table v \<and> untold (sv_broker v) x"
    and "\<And>k j x. k < length (sv_clients v) \<Longrightarrow> x \<in> sv_keys v k \<Longrightarrow> j < length (sv_clients v) \<Longrightarrow> j \<noteq> k \<Longrightarrow>
      x \<notin> sv_keys v j"
  shows "keys_ok v"
  unfolding keys_ok_def using assms by blast

lemma keys_okD:
  assumes "keys_ok v"
  shows "x \<in> sv_table v \<Longrightarrow> bounded (sv_seq v) (sv_minted v) x"
    "j \<notin> set (sv_minted v) \<Longrightarrow> deliveries (sv_broker v) (uuid_text j) = 0"
    "k < length (sv_clients v) \<Longrightarrow> x \<in> sv_keys v k \<Longrightarrow> bounded (sv_seq v) (sv_minted v) x"
    "k < length (sv_clients v) \<Longrightarrow> x \<in> sv_keys v k \<Longrightarrow> x \<notin> sv_table v"
    "k < length (sv_clients v) \<Longrightarrow> x \<in> sv_keys v k \<Longrightarrow> untold (sv_broker v) x"
    "k < length (sv_clients v) \<Longrightarrow> x \<in> sv_keys v k \<Longrightarrow> i < length (sv_clients v) \<Longrightarrow> i \<noteq> k \<Longrightarrow> x \<notin> sv_keys v i"
  using assms unfolding keys_ok_def by blast+

lemma bounded_mono: "bounded n is x \<Longrightarrow> n \<le> n' \<Longrightarrow> set is \<subseteq> set is' \<Longrightarrow> bounded n' is' x"
  by (cases x) (auto simp: bounded_def)

text \<open>One client takes the place of another, the tables are the same.\<close>

lemma keys_ok_update:
  assumes ok: "keys_ok v" and k: "k < length (sv_clients v)"
    and same: "sv_users v' = sv_users v" "sv_outbox v' = sv_outbox v" "sv_broker v' = sv_broker v"
    and more: "sv_seq v \<le> sv_seq v'" "set (sv_minted v) \<subseteq> set (sv_minted v')"
    and cl: "sv_clients v' = (sv_clients v)[k := cl]"
    and new: "\<And>x. x \<in> client_keys (cli_phase cl) (w_tx (cli_world cl)) \<Longrightarrow> x \<in> sv_keys v k \<or>
      bounded (sv_seq v') (sv_minted v') x \<and> x \<notin> sv_table v \<and> untold (sv_broker v) x \<and>
      (\<forall>j < length (sv_clients v). j \<noteq> k \<longrightarrow> x \<notin> sv_keys v j)"
  shows "keys_ok v'"
proof (rule keys_okI)
  note up = bounded_mono [OF _ more]
  have n: "length (sv_clients v') = length (sv_clients v)" by (simp add: cl)
  have t: "sv_table v' = sv_table v" by (simp add: same)
  have at: "sv_keys v' i = (if i = k then client_keys (cli_phase cl) (w_tx (cli_world cl)) else sv_keys v i)"
    if "i < length (sv_clients v)" for i
    using that by (simp add: cl)
  show "bounded (sv_seq v') (sv_minted v') x" if "x \<in> sv_table v'" for x
    using up [OF keys_okD(1) [OF ok]] that unfolding t .
  show "deliveries (sv_broker v') (uuid_text j) = 0" if "j \<notin> set (sv_minted v')" for j
    unfolding same(3) by (rule keys_okD(2) [OF ok]) (use that more(2) in blast)
  have mine: "bounded (sv_seq v') (sv_minted v') x \<and> x \<notin> sv_table v \<and> untold (sv_broker v) x \<and>
      (\<forall>j < length (sv_clients v). j \<noteq> k \<longrightarrow> x \<notin> sv_keys v j)"
    if "x \<in> client_keys (cli_phase cl) (w_tx (cli_world cl))" for x
    using new [OF that]
  proof
    assume x: "x \<in> sv_keys v k"
    show ?thesis using up [OF keys_okD(3) [OF ok k x]] keys_okD(4-6) [OF ok k x] by blast
  qed
  show "bounded (sv_seq v') (sv_minted v') x \<and> x \<notin> sv_table v' \<and> untold (sv_broker v') x"
    if i: "i < length (sv_clients v')" and x: "x \<in> sv_keys v' i" for i x
  proof (cases "i = k")
    case True
    with x at k have "x \<in> client_keys (cli_phase cl) (w_tx (cli_world cl))" by simp
    from mine [OF this] show ?thesis unfolding t same by blast
  next
    case False
    with i n x at have x': "i < length (sv_clients v)" "x \<in> sv_keys v i" by simp_all
    from up [OF keys_okD(3) [OF ok x']] keys_okD(4,5) [OF ok x'] show ?thesis unfolding t same by blast
  qed
  show "x \<notin> sv_keys v' j"
    if i: "i < length (sv_clients v')" and x: "x \<in> sv_keys v' i" and j: "j < length (sv_clients v')" "j \<noteq> i" for i j x
  proof
    assume y: "x \<in> sv_keys v' j"
    consider "i = k" | "j = k" | "i \<noteq> k" "j \<noteq> k" by blast
    then show False
    proof cases
      case 1
      with x y at i j n have "x \<in> client_keys (cli_phase cl) (w_tx (cli_world cl))" "x \<in> sv_keys v j" by simp_all
      with mine [of x] 1 j n show False by simp
    next
      case 2
      with x y at i j n have "x \<in> client_keys (cli_phase cl) (w_tx (cli_world cl))" "x \<in> sv_keys v i" by simp_all
      with mine [of x] 2 i j n show False by simp
    next
      case 3
      with x y at i j n have "x \<in> sv_keys v i" "x \<in> sv_keys v j" by simp_all
      with keys_okD(6) [OF ok, of i x j] i j n show False by simp
    qed
  qed
qed

text \<open>A registration commits: its keys go to the tables.\<close>

lemma keys_ok_commit:
  assumes ok: "keys_ok v" and k: "k < length (sv_clients v)"
    and live: "live_users (w_tx (sv_world v k)) = [u]" "live_rows (w_tx (sv_world v k)) = [r]"
    and tables: "sv_users v' = sv_users v @ [u]" "sv_outbox v' = sv_outbox v @ [r]" "sv_broker v' = sv_broker v"
    and same: "sv_seq v' = sv_seq v" "sv_minted v' = sv_minted v"
    and cl: "sv_clients v' = (sv_clients v)[k := cl]"
    and gone: "client_keys (cli_phase cl) (w_tx (cli_world cl)) = {}"
  shows "keys_ok v'"
proof (rule keys_okI)
  have mine: "keys [u] [r] [] \<subseteq> sv_keys v k" by (auto simp: client_keys_def live keys_def)
  have table: "sv_table v' = sv_table v \<union> keys [u] [r] []"
    by (auto simp: table_keys_def tables keys_def)
  have n: "length (sv_clients v') = length (sv_clients v)" by (simp add: cl)
  have at: "x \<in> sv_keys v i \<and> i \<noteq> k" if "i < length (sv_clients v)" "x \<in> sv_keys v' i" for i x
    using that k gone by (cases "i = k") (simp_all add: cl)
  show "bounded (sv_seq v') (sv_minted v') x" if "x \<in> sv_table v'" for x
    using that keys_okD(1) [OF ok, of x] keys_okD(3) [OF ok k, of x] mine unfolding table same by blast
  show "deliveries (sv_broker v') (uuid_text j) = 0" if "j \<notin> set (sv_minted v')" for j
    using keys_okD(2) [OF ok] that unfolding same tables(3) .
  show "bounded (sv_seq v') (sv_minted v') x \<and> x \<notin> sv_table v' \<and> untold (sv_broker v') x"
    if i: "i < length (sv_clients v')" and x: "x \<in> sv_keys v' i" for i x
  proof -
    from at i n x have x': "i < length (sv_clients v)" "x \<in> sv_keys v i" "i \<noteq> k" by simp_all
    have "x \<notin> sv_keys v k" by (rule keys_okD(6) [OF ok x'(1,2) k]) (use x'(3) in simp)
    with mine have "x \<notin> keys [u] [r] []" by blast
    with keys_okD(3-5) [OF ok x'(1,2)] show ?thesis unfolding table unfolding same tables(3) by blast
  qed
  show "x \<notin> sv_keys v' j"
    if i: "i < length (sv_clients v')" and x: "x \<in> sv_keys v' i" and j: "j < length (sv_clients v')" "j \<noteq> i" for i j x
    using at [of i x] at [of j x] keys_okD(6) [OF ok, of i x j] i j x unfolding n by blast
qed

text \<open>A relay changes the tables.\<close>

lemma derived_table:
  assumes "derived t rows ks rows' ks'"
  shows "table_keys us rows' \<subseteq> table_keys us rows"
proof (rule key_subsetI)
  from assms have c: "\<exists>r \<in> set rows. content r' = content r" if "r' \<in> set rows'" for r'
    using that by (simp add: derived_def)
  show "RowKey n \<in> table_keys us rows" if "RowKey n \<in> table_keys us rows'" for n
    using that c by (fastforce simp: table_keys_def content_def)
  show "EventKey n \<in> table_keys us rows" if "EventKey n \<in> table_keys us rows'" for n
    using that c by (fastforce simp: table_keys_def content_def)
qed (simp_all add: table_keys_def)

lemma derived_untold:
  assumes "derived t rows ks rows' ks'" "untold ks x" "x \<notin> table_keys us rows"
  shows "untold ks' x"
proof (cases x)
  case (EventKey j)
  from assms(1) consider "ks' = ks" | r k where "r \<in> set rows" "ks' = ks @ [k]" "carries t k r"
    by (auto simp: derived_def)
  then show ?thesis
  proof cases
    case 2
    with assms(3) EventKey have "row_event_id r \<noteq> j" by (auto simp: table_keys_def)
    then have "uuid_text (row_event_id r) \<noteq> uuid_text j" by (metis uuid.collapse)
    with 2 assms(2) EventKey show ?thesis by (simp add: carries_def) (simp add: deliveries_def)
  qed (use assms EventKey in simp)
qed simp_all

lemma keys_ok_relay:
  assumes ok: "keys_ok v" and der: "derived t (sv_outbox v) (sv_broker v) (cl_outbox c) (cl_broker c)"
  shows "keys_ok (v\<lparr>sv_cluster := c\<rparr>)"
proof (rule keys_okI)
  have sub: "sv_table (v\<lparr>sv_cluster := c\<rparr>) \<subseteq> sv_table v" using derived_table [OF der] by simp
  show "bounded (sv_seq (v\<lparr>sv_cluster := c\<rparr>)) (sv_minted (v\<lparr>sv_cluster := c\<rparr>)) x"
    if "x \<in> sv_table (v\<lparr>sv_cluster := c\<rparr>)" for x
    using keys_okD(1) [OF ok subsetD [OF sub that]] by simp
  show "bounded (sv_seq (v\<lparr>sv_cluster := c\<rparr>)) (sv_minted (v\<lparr>sv_cluster := c\<rparr>)) x \<and>
      x \<notin> sv_table (v\<lparr>sv_cluster := c\<rparr>) \<and> untold (sv_broker (v\<lparr>sv_cluster := c\<rparr>)) x"
    if "k < length (sv_clients (v\<lparr>sv_cluster := c\<rparr>))" "x \<in> sv_keys (v\<lparr>sv_cluster := c\<rparr>) k" for k x
  proof -
    from that have x: "k < length (sv_clients v)" "x \<in> sv_keys v k" by simp_all
    note d = keys_okD(3-5) [OF ok x]
    from derived_untold [OF der d(3,2)] d(1,2) subsetD [OF sub] show ?thesis by auto
  qed
  show "deliveries (sv_broker (v\<lparr>sv_cluster := c\<rparr>)) (uuid_text j) = 0" if "j \<notin> set (sv_minted (v\<lparr>sv_cluster := c\<rparr>))" for j
  proof -
    from that have j: "j \<notin> set (sv_minted v)" by simp
    with keys_okD(2) [OF ok] have "untold (sv_broker v) (EventKey j)" by simp
    moreover have "EventKey j \<notin> sv_table v" using keys_okD(1) [OF ok, of "EventKey j"] j by (auto simp: bounded_def)
    ultimately have "untold (cl_broker c) (EventKey j)" by (rule derived_untold [OF der])
    then show ?thesis by simp
  qed
  show "x \<notin> sv_keys (v\<lparr>sv_cluster := c\<rparr>) j"
    if "k < length (sv_clients (v\<lparr>sv_cluster := c\<rparr>))" "x \<in> sv_keys (v\<lparr>sv_cluster := c\<rparr>) k"
      "j < length (sv_clients (v\<lparr>sv_cluster := c\<rparr>))" "j \<noteq> k" for k j x
    using keys_okD(6) [OF ok, of k x j] that by simp
qed

end
