(* ===== verification/ServiceSafety.thy ===== *)
theory ServiceSafety
  imports Service
begin

text \<open>
  The invariant of the running service, and the theorem it gives: whatever the interleaving of
  clients, relays and purges, whatever fails and whoever is killed, the database is consistent, an
  answer is true, and the event of every user is told once, plus the repetitions a failure accounts for.
\<close>

subsection \<open>Users and their events\<close>

text \<open>Which event was told, or will be, of which aggregate.\<close>

definition told :: "outbox_row list \<Rightarrow> kafka_record list \<Rightarrow> (string \<times> string option) set" where
  "told rows ks = (\<lambda>r. (row_aggregate_id r, Some (row_event r))) ` set rows \<union>
     (\<lambda>k. (rec_Key k, map_of (rec_Headers k) HeaderEventID)) ` set ks"

definition users_ok :: "Topics \<Rightarrow> user_row list \<Rightarrow> outbox_row list \<Rightarrow> kafka_record list \<Rightarrow> bool" where
  "users_ok t us rows ks \<longleftrightarrow> distinct (map usr_email us) \<and> distinct (map usr_id us) \<and>
     (\<forall>r \<in> set rows. \<exists>u \<in> set us. event_row u r) \<and> (\<forall>k \<in> set ks. \<exists>u \<in> set us. event_record t u k) \<and>
     (\<forall>u \<in> set us. \<exists>r. event_row u r \<and> kept t rows ks r) \<and> single_valued (told rows ks)"

lemma toldI:
  "r \<in> set rows \<Longrightarrow> (row_aggregate_id r, Some (row_event r)) \<in> told rows ks"
  "k \<in> set ks \<Longrightarrow> (rec_Key k, map_of (rec_Headers k) HeaderEventID) \<in> told rows ks"
  by (simp_all add: told_def)

lemma derived_told: "derived t rows ks rows' ks' \<Longrightarrow> told rows' ks' \<subseteq> told rows ks"
proof
  fix p
  assume der: "derived t rows ks rows' ks'" and "p \<in> told rows' ks'"
  then consider r' where "r' \<in> set rows'" "p = (row_aggregate_id r', Some (row_event r'))"
    | k where "k \<in> set ks'" "p = (rec_Key k, map_of (rec_Headers k) HeaderEventID)" by (auto simp: told_def)
  then show "p \<in> told rows ks"
  proof cases
    case 1
    with der obtain r where r: "r \<in> set rows" "content r' = content r" by (auto simp: derived_def)
    then have "p = (row_aggregate_id r, Some (row_event r))" using 1(2) by (simp add: content_def row_event_def)
    with r(1) show ?thesis by (auto simp: told_def)
  next
    case 2
    with der consider "k \<in> set ks" | r where "r \<in> set rows" "carries t k r" by (auto simp: derived_def)
    then show ?thesis
    proof cases
      case (2 r)
      then have "p = (row_aggregate_id r, Some (row_event r))"
        using \<open>p = _\<close> by (simp add: carries_def row_event_def)
      with 2 show ?thesis by (auto simp: told_def)
    qed (use 2 in \<open>auto simp: told_def\<close>)
  qed
qed

lemma carries_event_record: "event_row u r \<Longrightarrow> carries t k r \<Longrightarrow> event_record t u k"
  by (auto simp: carries_def event_row_def event_record_def)

lemma users_ok_relay:
  assumes ok: "users_ok t us rows ks" and der: "derived t rows ks rows' ks'"
    and keep: "\<And>r. kept t rows ks r \<Longrightarrow> kept t rows' ks' r"
  shows "users_ok t us rows' ks'"
proof -
  have "\<exists>u \<in> set us. event_row u r'" if "r' \<in> set rows'" for r'
  proof -
    from der that obtain r where r: "r \<in> set rows" "content r' = content r" by (auto simp: derived_def)
    with ok event_row_content [OF r(2)] show ?thesis by (auto simp: users_ok_def)
  qed
  moreover have "\<exists>u \<in> set us. event_record t u k" if "k \<in> set ks'" for k
  proof -
    from der that consider "k \<in> set ks" | r where "r \<in> set rows" "carries t k r" by (auto simp: derived_def)
    then show ?thesis
    proof cases
      case 1
      with ok show ?thesis by (simp add: users_ok_def)
    next
      case (2 r)
      with ok carries_event_record show ?thesis by (fastforce simp: users_ok_def)
    qed
  qed
  moreover have "single_valued (told rows' ks')"
    using ok single_valued_subset [OF derived_told [OF der]] by (simp add: users_ok_def)
  moreover have "\<forall>u \<in> set us. \<exists>r. event_row u r \<and> kept t rows' ks' r"
    using ok keep unfolding users_ok_def by blast
  ultimately show ?thesis using ok by (simp add: users_ok_def)
qed

lemma users_ok_commit:
  assumes ok: "users_ok t us rows ks" and u: "event_row u r" "usr_id u \<notin> usr_id ` set us" "usr_email u \<notin> usr_email ` set us"
  shows "users_ok t (us @ [u]) (rows @ [r]) ks"
proof -
  have new: "fst p \<noteq> uuid_text (usr_id u)" if "p \<in> told rows ks" for p
  proof -
    from that ok obtain v where "v \<in> set us" "fst p = uuid_text (usr_id v)"
      by (fastforce simp: told_def users_ok_def event_row_def event_record_def)
    with u(2) show ?thesis by (metis imageI uuid.collapse)
  qed
  have "told (rows @ [r]) ks = insert (row_aggregate_id r, Some (row_event r)) (told rows ks)"
    by (auto simp: told_def)
  moreover have "row_aggregate_id r = uuid_text (usr_id u)" using u(1) by (simp add: event_row_def)
  ultimately have "single_valued (told (rows @ [r]) ks)"
    using ok new unfolding users_ok_def single_valued_def by fastforce
  moreover have "kept t (rows @ [r]) ks q" if "kept t rows ks q \<or> q = r" for q
    using that by (auto simp: kept_def)
  ultimately show ?thesis using ok u by (fastforce simp: users_ok_def)
qed

subsection \<open>The invariant of the service\<close>

definition service_ok :: "Topics \<Rightarrow> service \<Rightarrow> string list \<Rightarrow> bool" where
  "service_ok t v hs \<longleftrightarrow> cluster_ok t {} (sv_cluster v) hs \<and> users_ok t (sv_users v) (sv_outbox v) (sv_broker v) \<and>
     keys_ok v \<and>
     (\<forall>k < length (sv_clients v). client_ok (usr_id ` set (sv_users v)) (sv_phase v k) (sv_world v k))"

lemma cluster_ok_with: "cluster_ok t {} c hs \<Longrightarrow> \<forall>r \<in> R. kept t (cl_outbox c) (cl_broker c) r \<Longrightarrow> cluster_ok t R c hs"
  by (simp add: cluster_ok_def)

lemma cluster_ok_without: "cluster_ok t R c hs \<Longrightarrow> cluster_ok t {} c hs"
  by (simp add: cluster_ok_def)

lemma service_relays:
  assumes ok: "service_ok t v hs" and step: "relay_step t (sv_cluster v) h c"
  shows "service_ok t (v\<lparr>sv_cluster := c\<rparr>) (hs @ h)"
proof -
  let ?R = "Collect (kept t (sv_outbox v) (sv_broker v))"
  from ok have cl: "cluster_ok t ?R (sv_cluster v) hs" by (simp add: service_ok_def cluster_ok_with)
  note der = relay_step_derived [OF step cl] and cl' = relay_step_ok [OF step cl]
  have "kept t (sv_outbox v) (sv_broker v) r \<Longrightarrow> kept t (cl_outbox c) (cl_broker c) r" for r
    using cl' by (simp add: cluster_ok_def)
  with ok users_ok_relay [OF _ der] have "users_ok t (sv_users v) (cl_outbox c) (cl_broker c)"
    by (simp add: service_ok_def)
  with ok keys_ok_relay [OF _ der] cluster_ok_without [OF cl'] show ?thesis by (simp add: service_ok_def)
qed

lemma client_ok_cong:
  "w_tx w' = w_tx w \<Longrightarrow> w_heap w' = w_heap w \<Longrightarrow> w_tracked w' = w_tracked w \<Longrightarrow> client_ok I ph w' = client_ok I ph w"
  by (induction ph w rule: client_ok.induct) simp_all

lemma enter_simps [simp]:
  "w_tx (client_enter v k) = w_tx (sv_world v k)" "w_heap (client_enter v k) = w_heap (sv_world v k)"
  "w_users (client_enter v k) = sv_users v" "w_outbox (client_enter v k) = sv_outbox v"
  "w_seq (client_enter v k) = sv_seq v" "w_env (client_enter v k) = w_env (sv_world v k)"
  "w_tick (client_enter v k) = w_tick (sv_world v k)" "client_ok I ph (client_enter v k) = client_ok I ph (sv_world v k)"
  by (simp_all add: client_enter_def client_ok_cong [of "client_enter v k" "sv_world v k"])
    (rule client_ok_cong; simp)

text \<open>A key that is taken is nobody's: the insert has waited, the sequence and the UUID are new.\<close>

lemma taken_key_is_free:
  assumes ok: "keys_ok v" and k: "k < length (sv_clients v)"
    and takes: "takes (sv_phase v k) (client_enter v k) ph w x"
    and wait: "waits v k \<longrightarrow> env_pg (w_env (sv_world v k)) (w_tick (sv_world v k)) \<noteq> PgOk"
    and fresh: "new_ids v (minted (sv_phase v k) ph)"
  shows "bounded (w_seq w) (sv_minted v @ minted (sv_phase v k) ph) x \<and> x \<notin> sv_table v \<and> untold (sv_broker v) x \<and>
    (\<forall>j < length (sv_clients v). j \<noteq> k \<longrightarrow> x \<notin> sv_keys v j)"
proof (cases x)
  case (EmailKey m)
  with takes obtain meta a where t: "m \<notin> usr_email ` set (sv_users v)" "sv_phase v k = Saving meta a"
    "m = Email_String (u_email (w_heap (sv_world v k) a))" "\<not> waits v k"
    using wait by (auto simp: takes_def)
  have "EmailKey m \<notin> sv_keys v j" if "j < length (sv_clients v)" "j \<noteq> k" for j
  proof -
    from t(4) that have "\<not> waits_for v k j" by (auto simp: waits_def list_ex_iff)
    with t(2,3) show ?thesis by (auto simp: waits_for_def client_keys_def list_ex_iff)
  qed
  with EmailKey t(1) show ?thesis by (simp add: bounded_def table_keys_def)
next
  case (IdKey i)
  with takes obtain meta a where t: "i \<notin> usr_id ` set (sv_users v)" "sv_phase v k = Saving meta a"
    "i = u_id (w_heap (sv_world v k) a)" "\<not> waits v k"
    using wait by (auto simp: takes_def)
  have "IdKey i \<notin> sv_keys v j" if "j < length (sv_clients v)" "j \<noteq> k" for j
  proof -
    from t(4) that have "\<not> waits_for v k j" by (auto simp: waits_def list_ex_iff)
    with t(2,3) show ?thesis by (auto simp: waits_for_def client_keys_def list_ex_iff)
  qed
  with IdKey t(1) show ?thesis by (simp add: bounded_def table_keys_def)
next
  case (RowKey n)
  with takes have n: "n = sv_seq v" "sv_seq v < w_seq w" by (simp_all add: takes_def)
  then have "\<not> bounded (sv_seq v) (sv_minted v) x" by (simp add: RowKey bounded_def)
  with keys_okD(1) [OF ok, of x] keys_okD(3) [OF ok, of _ x] n RowKey show ?thesis by (auto simp: bounded_def)
next
  case (EventKey j)
  with takes fresh have j: "j \<in> set (minted (sv_phase v k) ph)" "j \<notin> set (sv_minted v)"
    by (auto simp: takes_def new_ids_def list_all_iff)
  then have "\<not> bounded (sv_seq v) (sv_minted v) x" by (simp add: EventKey bounded_def)
  with keys_okD(1) [OF ok, of x] keys_okD(3) [OF ok, of _ x] keys_okD(2) [OF ok j(2)] j EventKey show ?thesis by (auto simp: bounded_def)
qed

lemma clients_ok_update:
  assumes "\<forall>i < length cs. client_ok I (cli_phase (cs ! i)) (cli_world (cs ! i))" "I \<subseteq> J"
    "client_ok J ph w" "k < length cs"
  shows "\<forall>i < length (cs[k := \<lparr>cli_phase = ph, cli_world = w\<rparr>]).
    client_ok J (cli_phase (cs[k := \<lparr>cli_phase = ph, cli_world = w\<rparr>] ! i)) (cli_world (cs[k := \<lparr>cli_phase = ph, cli_world = w\<rparr>] ! i))"
  using assms client_ok_mono [OF _ assms(2)] by (auto simp: nth_list_update)

lemma service_writes:
  assumes ok: "service_ok t v hs" and k: "k < length (sv_clients v)"
    and step: "reg_step uni parse stamp (sv_phase v k) (client_enter v k) = (ph, w)"
    and wait: "waits v k \<longrightarrow> env_pg (w_env (sv_world v k)) (w_tick (sv_world v k)) \<noteq> PgOk"
    and fresh: "new_ids v (minted (sv_phase v k) ph)"
  shows "service_ok t (client_leave v k ph w) hs"
proof -
  let ?v = "client_leave v k ph w"
  from ok have cl: "cluster_ok t {} (sv_cluster v) hs" and us: "users_ok t (sv_users v) (sv_outbox v) (sv_broker v)"
    and ks: "keys_ok v" and cs: "\<forall>k < length (sv_clients v). client_ok (usr_id ` set (sv_users v)) (sv_phase v k) (sv_world v k)"
    by (simp_all add: service_ok_def)
  from cs k have "client_ok (user_ids (client_enter v k)) (sv_phase v k) (client_enter v k)" by simp
  from reg_step_effect [OF step this] have own: "client_ok (user_ids w) ph w"
    and effect: "stays_inside (sv_phase v k) (client_enter v k) ph w \<or> commits_user (sv_phase v k) (client_enter v k) ph w"
    by simp_all
  from effect show ?thesis
  proof
    assume "stays_inside (sv_phase v k) (client_enter v k) ph w"
    then have in': "w_users w = sv_users v" "w_outbox w = sv_outbox v" "sv_seq v \<le> w_seq w"
      "\<And>x. x \<in> client_keys ph (w_tx w) \<Longrightarrow> x \<in> sv_keys v k \<or> takes (sv_phase v k) (client_enter v k) ph w x"
      by (simp_all add: stays_inside_def)
    have "keys_ok ?v"
      by (rule keys_ok_update [OF ks k, where cl = "\<lparr>cli_phase = ph, cli_world = w\<rparr>"])
        (use in' taken_key_is_free [OF ks k _ wait fresh] in \<open>auto simp: client_leave_def\<close>)
    moreover have "(sv_cluster v)\<lparr>cl_outbox := w_outbox w\<rparr> = sv_cluster v" by (simp add: in'(2))
    ultimately show ?thesis
      using cl us clients_ok_update [OF cs subset_refl own [unfolded in'(1)] k]
      by (simp add: service_ok_def client_leave_def in'(1))
  next
    assume "commits_user (sv_phase v k) (client_enter v k) ph w"
    then obtain u r where c: "live_users (w_tx (sv_world v k)) = [u]" "live_rows (w_tx (sv_world v k)) = [r]" "new_row u r"
      "w_users w = sv_users v @ [u]" "w_outbox w = sv_outbox v @ [r]" "w_seq w = sv_seq v"
      "client_keys ph (w_tx w) = {}" "minted (sv_phase v k) ph = []"
      by (auto simp: commits_user_def)
    have keys': "keys_ok ?v"
      by (rule keys_ok_commit [OF ks k c(1,2), where cl = "\<lparr>cli_phase = ph, cli_world = w\<rparr>"])
        (simp_all add: client_leave_def c)
    have mine: "x \<notin> sv_table v \<and> untold (sv_broker v) x" if "x \<in> keys [u] [r] []" for x
      using that keys_okD(4,5) [OF ks k, of x] by (auto simp: client_keys_def c keys_def)
    have key: "row_id r \<notin> row_id ` set (sv_outbox v)" "row_event_id r \<notin> row_event_id ` set (sv_outbox v)"
      "deliveries (sv_broker v) (uuid_text (row_event_id r)) = 0"
      "usr_id u \<notin> usr_id ` set (sv_users v)" "usr_email u \<notin> usr_email ` set (sv_users v)"
      using mine [of "RowKey (row_id r)"] mine [of "EventKey (row_event_id r)"] mine [of "IdKey (usr_id u)"]
        mine [of "EmailKey (usr_email u)"] by (simp_all add: table_keys_def)
    then have "row_event r \<notin> row_event ` set (sv_outbox v)"
      unfolding row_event_def by (metis (no_types, lifting) image_iff uuid.collapse)
    with key cl have "fresh_rows (sv_cluster v) [r]"
      by (simp add: fresh_rows_def cluster_ok_def rows_fine_def row_event_def)
    from cluster_appends [OF cl this] c(3)
    have "cluster_ok t {} ((sv_cluster v)\<lparr>cl_outbox := w_outbox w\<rparr>) hs" by (simp add: new_row_def c(5))
    moreover have "users_ok t (w_users w) (w_outbox w) (sv_broker v)"
      unfolding c(4,5) using users_ok_commit [OF us _ key(4,5)] c(3) by (simp add: new_row_def)
    moreover have "usr_id ` set (sv_users v) \<subseteq> user_ids w" by (auto simp: c(4))
    note clients_ok_update [OF cs this own k]
    ultimately show ?thesis using keys' by (simp add: service_ok_def client_leave_def)
  qed
qed

lemma service_arrives:
  assumes ok: "service_ok t v hs" and k: "k < length (sv_clients v)" and w: "w_tx w = None"
  shows "service_ok t (v\<lparr>sv_clients := (sv_clients v)[k := \<lparr>cli_phase = Arrived cmd, cli_world = w\<rparr>]\<rparr>) hs"
proof -
  let ?cl = "\<lparr>cli_phase = Arrived cmd, cli_world = w\<rparr>"
  from ok have ks: "keys_ok v"
    and cs: "\<forall>k < length (sv_clients v). client_ok (usr_id ` set (sv_users v)) (sv_phase v k) (sv_world v k)"
    by (simp_all add: service_ok_def)
  have "keys_ok (v\<lparr>sv_clients := (sv_clients v)[k := ?cl]\<rparr>)"
    by (rule keys_ok_update [OF ks k, where cl = ?cl]) (simp_all add: client_keys_def w)
  moreover have "client_ok (usr_id ` set (sv_users v)) (Arrived cmd) w" by (simp add: w)
  note clients_ok_update [OF cs subset_refl this k]
  ultimately show ?thesis using ok by (simp add: service_ok_def)
qed

lemma service_step_ok:
  assumes "service_step uni parse stamp t v h v'" "service_ok t v hs"
  shows "service_ok t v' (hs @ h)"
  using assms(1)
proof cases
  case relays
  with service_relays [OF assms(2)] show ?thesis by simp
next
  case writes
  with service_writes [OF assms(2)] show ?thesis by simp
next
  case arrives
  with service_arrives [OF assms(2)] show ?thesis by simp
qed

lemma service_run_ok:
  assumes "service_run uni parse stamp t v hs v'" "service_ok t v []"
  shows "service_ok t v' hs"
  using assms by induction (auto dest: service_step_ok)

text \<open>An empty database: no user, no row, no record, and no transaction open.\<close>

fun arrived :: "reg_phase \<Rightarrow> bool" where
  "arrived (Arrived cmd) = True"
| "arrived _ = False"

definition service_start :: "service \<Rightarrow> bool" where
  "service_start v \<longleftrightarrow> quiet_start (sv_cluster v) \<and> sv_users v = [] \<and> sv_outbox v = [] \<and>
     list_all (\<lambda>cl. w_tx (cli_world cl) = None \<and> arrived (cli_phase cl)) (sv_clients v)"

lemma service_start_ok:
  assumes "service_start v"
  shows "service_ok t v []"
proof -
  from assms have s: "sv_users v = []" "sv_outbox v = []" "sv_broker v = []"
    by (simp_all add: service_start_def quiet_start_def)
  have cl: "w_tx (sv_world v k) = None" "\<exists>cmd. sv_phase v k = Arrived cmd" if "k < length (sv_clients v)" for k
    using assms that by (cases "sv_phase v k"; auto simp: service_start_def list_all_length)+
  have none: "sv_keys v k = {}" if "k < length (sv_clients v)" for k
    using cl [OF that] by (auto simp: client_keys_def)
  have "cluster_ok t {} (sv_cluster v) []"
    using assms cluster_ok_without [OF quiet_start_ok] by (simp add: service_start_def)
  moreover have "users_ok t (sv_users v) (sv_outbox v) (sv_broker v)"
    by (simp add: users_ok_def s told_def single_valued_def)
  moreover have "keys_ok v"
    by (rule keys_okI) (use none in \<open>simp_all add: s table_keys_def deliveries_def\<close>)
  moreover have "client_ok (usr_id ` set (sv_users v)) (sv_phase v k) (sv_world v k)" if "k < length (sv_clients v)" for k
    using cl [OF that] by auto
  ultimately show ?thesis by (simp add: service_ok_def)
qed

lemma users_ok_event:
  assumes ok: "users_ok t us rows ks" and u: "u \<in> set us"
  shows "\<exists>e. (\<forall>r \<in> set rows. row_aggregate_id r = uuid_text (usr_id u) \<longrightarrow> row_event r = e) \<and>
    (\<forall>k \<in> set ks. rec_Key k = uuid_text (usr_id u) \<longrightarrow> map_of (rec_Headers k) HeaderEventID = Some e) \<and>
    ((\<exists>r \<in> set rows. event_row u r \<and> row_event r = e) \<or>
     (\<exists>k \<in> set ks. event_record t u k \<and> map_of (rec_Headers k) HeaderEventID = Some e))"
proof -
  from ok u obtain q where q: "event_row u q" "kept t rows ks q" by (auto simp: users_ok_def)
  let ?e = "row_event q"
  have id: "row_aggregate_id q = uuid_text (usr_id u)" using q(1) by (simp add: event_row_def)
  from q(2) have told: "(uuid_text (usr_id u), Some ?e) \<in> told rows ks \<and>
      ((\<exists>r \<in> set rows. event_row u r \<and> row_event r = ?e) \<or>
       (\<exists>k \<in> set ks. event_record t u k \<and> map_of (rec_Headers k) HeaderEventID = Some ?e))"
    unfolding kept_def
  proof
    assume "\<exists>r \<in> set rows. content r = content q"
    then obtain r where r: "r \<in> set rows" "content r = content q" by blast
    with event_row_content [OF r(2)] content_row_event [OF r(2)] q(1) have "event_row u r" "row_event r = ?e" by simp_all
    moreover from this have "row_aggregate_id r = uuid_text (usr_id u)" by (simp add: event_row_def)
    ultimately show ?thesis using r(1) toldI(1) [OF r(1), of ks] by auto
  next
    assume "announced_in t ks q"
    then obtain k where k: "k \<in> set ks" "carries t k q" by (auto simp: announced_in_def)
    then have "rec_Key k = uuid_text (usr_id u)" "map_of (rec_Headers k) HeaderEventID = Some ?e"
      using id by (simp_all add: carries_def row_event_def)
    with k carries_event_record [OF q(1) k(2)] toldI(2) [OF k(1), of rows] show ?thesis by auto
  qed
  have one: "x = Some ?e" if "(uuid_text (usr_id u), x) \<in> told rows ks" for x
    using ok told that by (auto simp: users_ok_def single_valued_def)
  have "row_event r = ?e" if "r \<in> set rows" "row_aggregate_id r = uuid_text (usr_id u)" for r
    using one [of "Some (row_event r)"] that toldI(1) [OF that(1), of ks] by simp
  moreover have "map_of (rec_Headers k) HeaderEventID = Some ?e" if "k \<in> set ks" "rec_Key k = uuid_text (usr_id u)" for k
    using one [of "map_of (rec_Headers k) HeaderEventID"] that toldI(2) [OF that(1), of rows] by simp
  ultimately show ?thesis using told by blast
qed

subsection \<open>The theorem\<close>

text \<open>
  C2: The running service.  Start any number of API requests and of relays on an empty database, and
  let their statements interleave in any order, with purges between them, with any answers of the
  server and the broker, and with processes killed at any point.  Then no two users share an address or
  an id; a client that was answered with an id is in the table under it; every outbox row and every
  record in the topic is the event of a user in the table; and every user has exactly one event, which is
  in the outbox or in the topic, and in the topic at most once, plus once for every step that put it at
  risk of a repetition.
\<close>

theorem concurrent_service_is_safe:
  assumes "service_start start" "service_run uni parse stamp t start hs v"
  shows "distinct (map usr_email (sv_users v)) \<and> distinct (map usr_id (sv_users v)) \<and>
    (\<forall>k < length (sv_clients v). \<forall>i. sv_phase v k = Answered (Inr i) \<longrightarrow> i \<in> usr_id ` set (sv_users v)) \<and>
    (\<forall>r \<in> set (sv_outbox v). \<exists>u \<in> set (sv_users v). event_row u r) \<and>
    (\<forall>k \<in> set (sv_broker v). \<exists>u \<in> set (sv_users v). event_record t u k) \<and>
    (\<forall>u \<in> set (sv_users v). \<exists>e.
      (\<forall>r \<in> set (sv_outbox v). row_aggregate_id r = uuid_text (usr_id u) \<longrightarrow> row_event r = e) \<and>
      (\<forall>k \<in> set (sv_broker v). rec_Key k = uuid_text (usr_id u) \<longrightarrow> map_of (rec_Headers k) HeaderEventID = Some e) \<and>
      ((\<exists>r \<in> set (sv_outbox v). event_row u r \<and> row_event r = e) \<or>
       (\<exists>k \<in> set (sv_broker v). event_record t u k \<and> map_of (rec_Headers k) HeaderEventID = Some e)) \<and>
      deliveries (sv_broker v) e \<le> 1 + count_list hs e)"
proof -
  from service_run_ok [OF assms(2) service_start_ok [OF assms(1)]] have ok: "service_ok t v hs" .
  then have us: "users_ok t (sv_users v) (sv_outbox v) (sv_broker v)" by (simp add: service_ok_def)
  have "deliveries (sv_broker v) e \<le> 1 + count_list hs e" for e
  proof -
    have "deliveries (sv_broker v) e \<le> count_list hs e + of_bool (spent (sv_cluster v) e)"
      using ok by (simp add: service_ok_def cluster_ok_def in_budget_def)
    then show ?thesis by (cases "spent (sv_cluster v) e") auto
  qed
  with users_ok_event [OF us]
  have events: "\<forall>u \<in> set (sv_users v). \<exists>e.
      (\<forall>r \<in> set (sv_outbox v). row_aggregate_id r = uuid_text (usr_id u) \<longrightarrow> row_event r = e) \<and>
      (\<forall>k \<in> set (sv_broker v). rec_Key k = uuid_text (usr_id u) \<longrightarrow> map_of (rec_Headers k) HeaderEventID = Some e) \<and>
      ((\<exists>r \<in> set (sv_outbox v). event_row u r \<and> row_event r = e) \<or>
       (\<exists>k \<in> set (sv_broker v). event_record t u k \<and> map_of (rec_Headers k) HeaderEventID = Some e)) \<and>
      deliveries (sv_broker v) e \<le> 1 + count_list hs e" by blast
  have answers: "i \<in> usr_id ` set (sv_users v)"
    if "k < length (sv_clients v)" "sv_phase v k = Answered (Inr i)" for k i
  proof -
    from ok that(1) have "client_ok (usr_id ` set (sv_users v)) (sv_phase v k) (sv_world v k)" by (simp add: service_ok_def)
    then show ?thesis unfolding that(2) by simp
  qed
  from us have "distinct (map usr_email (sv_users v))" "distinct (map usr_id (sv_users v))"
    "\<forall>r \<in> set (sv_outbox v). \<exists>u \<in> set (sv_users v). event_row u r"
    "\<forall>k \<in> set (sv_broker v). \<exists>u \<in> set (sv_users v). event_record t u k" by (simp_all add: users_ok_def)
  with answers events show ?thesis by blast
qed

text \<open>
  The witness: two clients register one address, one of them waits at its insert and is refused behind
  the commit of the other; a relay publishes the one event.  (The stored payload is cut to an empty
  object, to keep the evaluation small.)
\<close>

fun drive :: "(nat + nat) list \<Rightarrow> string list \<times> service \<Rightarrow> string list \<times> service" where
  "drive [] (hs, v) = (hs, v)"
| "drive (Inl k # ts) (hs, v) =
     (case reg_step (\<lambda>s. s) parse_bare (\<lambda>t. t) (sv_phase v k) (client_enter v k) of
        (ph, w) \<Rightarrow> drive ts (hs, if waits v k \<or> \<not> new_ids v (minted (sv_phase v k) ph) then v
          else client_leave v k ph w))"
| "drive (Inr s # ts) (hs, v) =
     (case pass_step two_relay (NewRelayOutbox (\<lambda>t. t)) (cl_phase (sv_cluster v) s) (enter (sv_cluster v) s) of
        (ph, w) \<Rightarrow> drive ts (hs @ risk (cl_phase (sv_cluster v) s) (enter (sv_cluster v) s) ph w,
          v\<lparr>sv_cluster := leave (sv_cluster v) s ph w\<rparr>))"

abbreviation sample_run :: "service \<Rightarrow> string list \<Rightarrow> service \<Rightarrow> bool" where
  "sample_run \<equiv> service_run (\<lambda>s. s) parse_bare (\<lambda>t. t) two_topics"

definition turns_ok :: "nat \<Rightarrow> nat \<Rightarrow> (nat + nat) list \<Rightarrow> bool" where
  "turns_ok clients relays ts \<longleftrightarrow> list_all (\<lambda>x. case x of Inl k \<Rightarrow> k < clients | Inr s \<Rightarrow> s < relays) ts"

abbreviation turns_in :: "service \<Rightarrow> (nat + nat) list \<Rightarrow> bool" where
  "turns_in v ts \<equiv> turns_ok (length (sv_clients v)) (length (cl_sessions (sv_cluster v))) ts"

lemma drive_run:
  assumes "sample_run start hs v" "turns_in v ts"
  shows "sample_run start (fst (drive ts (hs, v))) (snd (drive ts (hs, v)))"
  using assms
proof (induction ts "(hs, v)" arbitrary: hs v rule: drive.induct)
  case (2 k ts hs v)
  obtain ph w where p: "reg_step (\<lambda>s. s) parse_bare (\<lambda>t. t) (sv_phase v k) (client_enter v k) = (ph, w)" by (metis prod.exhaust)
  from 2(3) have k: "k < length (sv_clients v)" and ts: "turns_in v ts" by (simp_all add: turns_ok_def)
  define v' where "v' = (if waits v k \<or> \<not> new_ids v (minted (sv_phase v k) ph) then v else client_leave v k ph w)"
  have "sample_run start hs v'"
  proof (cases "waits v k \<or> \<not> new_ids v (minted (sv_phase v k) ph)")
    case False
    have "service_step (\<lambda>s. s) parse_bare (\<lambda>t. t) two_topics v [] (client_leave v k ph w)"
      by (rule service_step.writes [OF k p]) (use False in simp_all)
    from service_run.more [OF 2(2) this] False show ?thesis by (auto simp: v'_def)
  qed (use 2(2) in \<open>auto simp: v'_def\<close>)
  moreover have "turns_in v' ts" using ts by (simp add: v'_def client_leave_def)
  ultimately show ?case using 2(1) [OF p [symmetric]] p by (simp add: v'_def)
next
  case (3 s ts hs v)
  let ?c = "sv_cluster v"
  obtain ph w where p: "pass_step two_relay (NewRelayOutbox (\<lambda>t. t)) (cl_phase ?c s) (enter ?c s) = (ph, w)" by (metis prod.exhaust)
  from 3(3) have s: "s < length (cl_sessions ?c)" and ts: "turns_in v ts" by (simp_all add: turns_ok_def)
  have run: "sample_run start (hs @ risk (cl_phase ?c s) (enter ?c s) ph w) (v\<lparr>sv_cluster := leave ?c s ph w\<rparr>)"
    by (rule service_run.more [OF 3(2)], rule service_step.relays, rule relay_step.works [OF s p])
  have "turns_in (v\<lparr>sv_cluster := leave ?c s ph w\<rparr>) ts" using ts by (simp add: leave_def)
  from 3(1) [OF p [symmetric] run this] p show ?case by simp
qed simp

definition small_world :: "nat \<Rightarrow> world" where
  "small_world n = (sample_world [] [])\<lparr>w_env := (sample_env [] [])\<lparr>env_jsonb := (\<lambda>s. ''{}'')\<rparr>, w_outbox := [], w_tick := n\<rparr>"

definition two_clients :: service where
  "two_clients = \<lparr>sv_cluster = \<lparr>cl_outbox = [], cl_broker = [],
       cl_sessions = [\<lparr>ses_phase = Opening (first_result 1), ses_world = small_world 100\<rparr>]\<rparr>,
     sv_users = [], sv_seq = 1, sv_minted = [],
     sv_clients = [\<lparr>cli_phase = Arrived ada_command, cli_world = small_world 0\<rparr>,
       \<lparr>cli_phase = Arrived ada_command, cli_world = small_world 50\<rparr>]\<rparr>"

definition race :: "(nat + nat) list" where
  "race = [Inl 0, Inl 1, Inl 0, Inl 1, Inl 0, Inl 1, Inl 0, Inl 1, Inl 0, Inl 0, Inl 0, Inr 0, Inl 0,
     Inl 1, Inl 1, Inr 0, Inr 0, Inr 0, Inr 0, Inr 0]"

lemma concurrent_service_is_safe_witness:
  "\<exists>hs v. drive race ([], two_clients) = (hs, v) \<and> sv_phase v 0 = Answered (Inr (UUID ''id-0'')) \<and>
     (case sv_phase v 1 of Answered (Inl e) \<Rightarrow> errors_Is e ErrEmailTaken | _ \<Rightarrow> False) \<and>
     length (sv_users v) = 1 \<and> length (sv_broker v) = 1 \<and>
     (\<forall>k \<in> set (sv_broker v). \<exists>u \<in> set (sv_users v). event_record two_topics u k)"
proof -
  let ?x = "drive race ([], two_clients)"
  have "case ?x of (hs, v) \<Rightarrow> sv_phase v 0 = Answered (Inr (UUID ''id-0'')) \<and>
     (case sv_phase v 1 of Answered (Inl e) \<Rightarrow> errors_Is e ErrEmailTaken | _ \<Rightarrow> False) \<and>
     length (sv_users v) = 1 \<and> length (sv_broker v) = 1" by code_simp
  then have v: "sv_phase (snd ?x) 0 = Answered (Inr (UUID ''id-0''))"
    "case sv_phase (snd ?x) 1 of Answered (Inl e) \<Rightarrow> errors_Is e ErrEmailTaken | _ \<Rightarrow> False"
    "length (sv_users (snd ?x)) = 1" "length (sv_broker (snd ?x)) = 1" by (simp_all only: case_prod_unfold)
  have "service_start two_clients" by code_simp
  moreover have "turns_in two_clients race" by code_simp
  then have "sample_run two_clients (fst ?x) (snd ?x)" by (rule drive_run [OF service_run.start])
  ultimately have "\<forall>k \<in> set (sv_broker (snd ?x)). \<exists>u \<in> set (sv_users (snd ?x)). event_record two_topics u k"
    by (rule concurrent_service_is_safe [THEN conjunct2, THEN conjunct2, THEN conjunct2, THEN conjunct2, THEN conjunct1])
  with v show ?thesis by (metis prod.collapse)
qed

end
