(* ===== verification/ServiceLiveness.thy ===== *)
theory ServiceLiveness
  imports ServiceSafety
begin

text \<open>
  No request waits for ever.  An insert waits only for a transaction that itself waits for nothing, and
  every request is answered behind a bounded number of statements of its own, whatever the other
  clients, the relays and the purge do between them.
\<close>

subsection \<open>The steps that are left\<close>

fun steps_left :: "reg_phase \<Rightarrow> nat" where
  "steps_left (Arrived cmd) = 8"
| "steps_left (Beginning meta a) = 7"
| "steps_left (Saving meta a) = 6"
| "steps_left (Draining meta a) = 5"
| "steps_left (Appending i es a) = 3 + length es"
| "steps_left (Ending err a) = 2"
| "steps_left (Waking a) = 1"
| "steps_left (Answered x) = 0"

lemma steps_left_0: "steps_left ph = 0 \<Longrightarrow> \<exists>x. ph = Answered x"
  by (cases ph) simp_all

text \<open>A registration has one event, so one row to append.\<close>

lemma reg_step_lowers:
  assumes step: "reg_step uni parse stamp ph w = (ph', w')" and ok: "client_ok (user_ids w) ph w"
  shows "steps_left ph' \<le> steps_left ph - 1"
proof (cases ph)
  case (Draining meta a)
  from reg_step_effect [OF assms] have "client_ok (user_ids w') ph' w'" by simp
  with step Draining show ?thesis
    by (auto simp: Let_def split: prod.splits sum.splits if_splits)
next
  case (Appending i es a)
  with step show ?thesis by (cases es) (auto split: prod.splits sum.splits)
next
  case (Ending err a)
  with step show ?thesis by (cases err) (auto split: prod.splits option.splits)
qed (use step in \<open>auto simp: Let_def split: prod.splits sum.splits option.splits\<close>)

subsection \<open>The steps of one client among those of the others\<close>

text \<open>
  \<open>own_steps k v n v'\<close>: client \<open>k\<close> has taken \<open>n\<close> steps between \<open>v\<close> and \<open>v'\<close>, and anything else may have
  happened but that its process was killed.
\<close>

inductive own_steps :: "(string \<Rightarrow> string) \<Rightarrow> (string \<Rightarrow> string option) \<Rightarrow> (time \<Rightarrow> time) \<Rightarrow> Topics \<Rightarrow>
    nat \<Rightarrow> service \<Rightarrow> nat \<Rightarrow> service \<Rightarrow> bool" for uni parse stamp t k v where
  none: "own_steps uni parse stamp t k v 0 v"
| own: "own_steps uni parse stamp t k v n v' \<Longrightarrow>
    reg_step uni parse stamp (sv_phase v' k) (client_enter v' k) = (ph, w) \<Longrightarrow>
    service_step uni parse stamp t v' h (client_leave v' k ph w) \<Longrightarrow>
    own_steps uni parse stamp t k v (Suc n) (client_leave v' k ph w)"
| other: "own_steps uni parse stamp t k v n v' \<Longrightarrow> service_step uni parse stamp t v' h v'' \<Longrightarrow>
    sv_clients v'' ! k = sv_clients v' ! k \<Longrightarrow> own_steps uni parse stamp t k v n v''"

lemma step_clients:
  "service_step uni parse stamp t v h v' \<Longrightarrow> length (sv_clients v') = length (sv_clients v)"
  by (erule service_step.cases) (simp_all add: client_leave_def)

lemma service_okD:
  assumes "service_ok t v hs" "k < length (sv_clients v)"
  shows "client_ok (usr_id ` set (sv_users v)) (sv_phase v k) (sv_world v k)"
  using assms by (simp add: service_ok_def)

lemma own_steps_lower:
  assumes "own_steps uni parse stamp t k v n v'" "service_ok t v hs" "k < length (sv_clients v)"
  shows "(\<exists>hs'. service_ok t v' hs') \<and> k < length (sv_clients v') \<and> steps_left (sv_phase v' k) \<le> 8 - n"
  using assms(1)
proof induction
  case none
  have "steps_left (sv_phase v k) \<le> 8"
    using service_okD [OF assms(2,3)] by (cases "sv_phase v k") auto
  with assms show ?case by auto
next
  case (own n v' ph w h)
  then obtain hs' where ok: "service_ok t v' hs'" and k: "k < length (sv_clients v')" by blast
  from service_okD [OF ok k] have "client_ok (user_ids (client_enter v' k)) (sv_phase v' k) (client_enter v' k)" by simp
  from reg_step_lowers [OF own(2) this] own.IH have "steps_left ph \<le> 8 - Suc n" by arith
  then have "steps_left (sv_phase (client_leave v' k ph w) k) \<le> 8 - Suc n" using k by (simp add: client_leave_def)
  with service_step_ok [OF own(3) ok] step_clients [OF own(3)] k show ?case by auto
next
  case (other n v' h v'')
  then obtain hs' where ok: "service_ok t v' hs'" by blast
  with service_step_ok [OF other(2) ok] step_clients [OF other(2)] other.IH other(3) show ?case by auto
qed

subsection \<open>Waiting\<close>

text \<open>Only a client that has inserted its user is waited for, and that one waits for nobody.\<close>

lemma waited_for_is_busy:
  assumes ok: "service_ok t v hs" and j: "j < length (sv_clients v)" and waits: "waits_for v k j"
  shows "\<not> waits v j \<and> w_tx (sv_world v j) \<noteq> None \<and> (\<forall>x. sv_phase v j \<noteq> Answered x)"
proof -
  have users: "live_users (w_tx (sv_world v j)) \<noteq> []"
    using waits by (auto simp: waits_for_def Let_def split: reg_phase.splits)
  note c = service_okD [OF ok j]
  have "\<forall>meta a. sv_phase v j \<noteq> Saving meta a" using users c by (auto simp: holds_def)
  then have "\<not> waits_for v j i" for i by (cases "sv_phase v j") (simp_all add: waits_for_def)
  moreover have "\<forall>x. sv_phase v j \<noteq> Answered x"
  proof (intro allI notI)
    fix x assume "sv_phase v j = Answered x"
    with users c show False by (cases x) auto
  qed
  moreover have "w_tx (sv_world v j) \<noteq> None" using users by (cases "w_tx (sv_world v j)") simp_all
  ultimately show ?thesis by (simp add: waits_def list_ex_iff)
qed

text \<open>
  C10: No request waits for ever.  In every state the running service can reach, with any number of
  requests and relays, a request that waits for the key of another transaction waits for one that is
  open and itself waits for nothing: there is no deadlock, and no chain of waits.  And behind eight steps
  of its own, whatever else happens between them, a request is answered and its transaction is closed,
  so nobody waits for it any more.
\<close>

theorem no_request_waits_for_ever:
  assumes "service_start start" "service_run uni parse stamp t start hs v" "k < length (sv_clients v)"
  shows "(\<forall>j < length (sv_clients v). waits_for v k j \<longrightarrow>
      \<not> waits v j \<and> w_tx (sv_world v j) \<noteq> None \<and> (\<forall>x. sv_phase v j \<noteq> Answered x)) \<and>
    (\<forall>n v'. own_steps uni parse stamp t k v n v' \<and> 8 \<le> n \<longrightarrow>
      (\<exists>x. sv_phase v' k = Answered x) \<and> w_tx (sv_world v' k) = None \<and> (\<forall>i. \<not> waits_for v' i k))"
proof (intro conjI allI impI)
  have ok: "service_ok t v hs" by (rule service_run_ok [OF assms(2) service_start_ok [OF assms(1)]])
  show "\<not> waits v j" "w_tx (sv_world v j) \<noteq> None" "sv_phase v j \<noteq> Answered x"
    if "j < length (sv_clients v)" "waits_for v k j" for j x
    using waited_for_is_busy [OF ok that] by blast+
  fix n v'
  assume run: "own_steps uni parse stamp t k v n v' \<and> 8 \<le> n"
  from own_steps_lower [OF _ ok assms(3)] run obtain hs' where ok': "service_ok t v' hs'"
    and k: "k < length (sv_clients v')" and left: "steps_left (sv_phase v' k) \<le> 8 - n" by blast
  from left run steps_left_0 obtain x where x: "sv_phase v' k = Answered x" by force
  then show "\<exists>x. sv_phase v' k = Answered x" ..
  show tx: "w_tx (sv_world v' k) = None" using service_okD [OF ok' k] x by (cases x) auto
  show "\<not> waits_for v' i k" for i using waited_for_is_busy [OF ok' k, of i] tx by blast
qed

text \<open>The witness: two clients race for one address, and the second waits for the first.\<close>

lemma no_request_waits_for_ever_witness:
  "\<exists>hs v. drive [Inl 0, Inl 1, Inl 0, Inl 1, Inl 0] ([], two_clients) = (hs, v) \<and> waits_for v 1 0 \<and> waits v 1 \<and> \<not> waits v 0"
proof -
  let ?ts = "[Inl 0, Inl 1, Inl 0, Inl 1, Inl 0] :: (nat + nat) list"
  obtain hs v where x: "drive ?ts ([], two_clients) = (hs, v)" by (metis prod.exhaust)
  have "case drive ?ts ([], two_clients) of (hs, v) \<Rightarrow> waits_for v 1 0 \<and> waits v 1 \<and> length (sv_clients v) = 2"
    by code_simp
  then have w: "waits_for v 1 0" "waits v 1" "length (sv_clients v) = 2" unfolding x by simp_all
  have "turns_in two_clients ?ts" by code_simp
  from drive_run [OF service_run.start this] have run: "sample_run two_clients hs v" unfolding x by simp
  have "service_start two_clients" by code_simp
  from no_request_waits_for_ever [OF this run, of 1] w have "\<not> waits v 0" by simp
  with x w show ?thesis by blast
qed

end
