(* ===== verification/Progress.thy ===== *)
theory Progress
  imports Delivery Purge
begin

text \<open>
  Liveness: while the server and the broker answer, every pass takes the first rows of the backlog
  out of it, so that a backlog of any size is published after so many passes.
\<close>

subsection \<open>A world that answers\<close>

text \<open>
  \<open>answering\<close>: no statement and no produce fails from now on, no other session holds a row, and the
  aggregate type of every pending row has a topic.  \<open>healthy\<close>: every pending row is due, too.
\<close>

definition answers :: "env \<Rightarrow> bool" where
  "answers E \<longleftrightarrow> (\<forall>n. env_pg E n = PgOk) \<and> (\<forall>n. env_produce E n = Acked) \<and> (\<forall>n i. env_scan E n i = None)"

definition answering :: "Topics \<Rightarrow> world \<Rightarrow> bool" where
  "answering t w \<longleftrightarrow> answers (w_env w) \<and> w_tx w = None \<and> w_locked w = [] \<and>
     distinct (map row_id (w_outbox w)) \<and>
     (\<forall>r \<in> set (w_outbox w). bk_status r = StatusPending \<longrightarrow> (\<exists>topic. Topics_For t (row_aggregate_type r) = Inr topic))"

definition healthy :: "Topics \<Rightarrow> world \<Rightarrow> bool" where
  "healthy t w \<longleftrightarrow> answering t w \<and>
     (\<forall>r \<in> set (w_outbox w). bk_status r = StatusPending \<longrightarrow> (\<forall>n. bk_available r \<le> env_pg_clock (w_env w) n))"

lemmas healthy_defs = healthy_def answering_def

definition backlog :: "world \<Rightarrow> outbox_row list" where
  "backlog w = filter pending_row (w_outbox w)"

subsection \<open>The statements of a pass\<close>

text \<open>The records of some rows, in their order.\<close>

definition records :: "Topics \<Rightarrow> outbox_row list \<Rightarrow> kafka_record list" where
  "records t rs = concat (map (routed record_of t \<circ> scan_row) rs)"

lemma records_append: "records t (rs @ qs) = records t rs @ records t qs"
  by (simp add: records_def)

lemma publish_answers:
  assumes "answers (w_env w)" "Topics_For t (row_aggregate_type r) = Inr topic"
  shows "publish (relay stamp t b base cap m) (scan_row r) w =
    (None, (tick w)\<lparr>w_broker := w_broker w @ [record_of (message_of (scan_row r) topic)]\<rparr>)"
  using assms by (simp add: publish_def port_simps scan_row_def Publisher_Publish_def ProduceSync_def answers_def)

definition published_now :: "txn \<Rightarrow> outbox_row \<Rightarrow> outbox_row" where
  "published_now tx r = r\<lparr>bk_status := StatusPublished, bk_error := None, row_published_at := Some (tx_now tx)\<rparr>"

text \<open>The transaction with the published marks of some rows.\<close>

definition marked :: "txn \<Rightarrow> int list \<Rightarrow> txn \<Rightarrow> bool" where
  "marked tx ids tx' \<longleftrightarrow> tx_now tx' = tx_now tx \<and> tx_users tx' = tx_users tx \<and> tx_rows tx' = tx_rows tx \<and>
     \<not> tx_aborted tx' \<and>
     (\<forall>r. patched tx' r = (if row_id r \<in> set ids then published_now tx (patched tx r) else patched tx r))"

lemma mark_answers:
  assumes "answers (w_env w)" "w_tx w = Some tx" "\<not> tx_aborted tx" "i \<notin> set (w_locked w)"
    and "filter (\<lambda>r. row_id r = i) (base_rows w tx) = [r]"
  shows "\<exists>tx'. RelayOutbox_MarkPublished i w = (None, (tick w)\<lparr>w_tx := Some tx'\<rparr>) \<and> marked tx [i] tx'"
proof -
  let ?tx = "tx\<lparr>tx_patch := (tx_patch tx)(i := published_now tx \<circ> patched tx), tx_locks := tx_locks tx @ [row_id r]\<rparr>"
  have "update_row i set_published w tx = (Inr (1, ?tx), w_seq w)"
    using assms(4,5) by (simp add: update_row_def set_published_def published_now_def comp_def)
  then have "RelayOutbox_MarkPublished i w = (None, (tick w)\<lparr>w_seq := w_seq w, w_tx := Some ?tx\<rparr>)"
    using assms(1-3) by (simp add: RelayOutbox_MarkPublished_def markOne_def in_tx_def answers_def)
  moreover have "(tick w)\<lparr>w_seq := w_seq w, w_tx := Some ?tx\<rparr> = (tick w)\<lparr>w_tx := Some ?tx\<rparr>"
    by (simp add: tick_def)
  moreover have "marked tx [i] ?tx" using assms(3) by (auto simp: marked_def patched_def)
  ultimately show ?thesis by metis
qed

lemma marked_Nil: "\<not> tx_aborted tx \<Longrightarrow> marked tx [] tx"
  by (simp add: marked_def)

lemma marked_Cons: "marked tx [i] u \<Longrightarrow> marked u ids v \<Longrightarrow> i \<notin> set ids \<Longrightarrow> marked tx (i # ids) v"
  by (auto simp: marked_def published_now_def)

lemma batch_answers:
  assumes "answers (w_env w)" "w_tx w = Some tx" "\<not> tx_aborted tx" "w_locked w = []"
    and "distinct (map row_id (base_rows w tx))" "set rs \<subseteq> set (base_rows w tx)" "distinct (map row_id rs)"
    and "\<forall>r \<in> set rs. \<exists>topic. Topics_For t (row_aggregate_type r) = Inr topic"
  shows "\<exists>res' w' tx'. publishBatch (relay stamp t b base cap m) (NewRelayOutbox stamp) (map scan_row rs) res w =
      ((None, res'), w') \<and> w_tx w' = Some tx' \<and> marked tx (map row_id rs) tx' \<and> same_db w w' \<and> w_locked w' = [] \<and>
      w_broker w' = w_broker w @ records t rs"
  using assms
proof (induction rs arbitrary: w tx res)
  case Nil
  then show ?case by (auto simp: records_def intro: marked_Nil)
next
  case (Cons r rs)
  from Cons.prems(8) obtain topic where topic: "Topics_For t (row_aggregate_type r) = Inr topic" by auto
  let ?w1 = "(tick w)\<lparr>w_broker := w_broker w @ [record_of (message_of (scan_row r) topic)]\<rparr>"
  note pub = publish_answers [OF Cons.prems(1) topic]
  have base: "base_rows ?w1 tx = base_rows w tx" by (simp add: base_rows_def)
  have "filter (\<lambda>q. row_id q = row_id r) (base_rows w tx) = [r]"
    using Cons.prems(6) by (intro filter_key_singleton [OF Cons.prems(5)]) simp
  then obtain u where u: "RelayOutbox_MarkPublished (row_id r) ?w1 = (None, (tick ?w1)\<lparr>w_tx := Some u\<rparr>)"
    "marked tx [row_id r] u"
    using mark_answers [of ?w1 tx "row_id r" r] Cons.prems(1-4) base by auto
  let ?w2 = "(tick ?w1)\<lparr>w_tx := Some u\<rparr>"
  have b2: "base_rows ?w2 u = base_rows w tx" using u(2) by (simp add: base_rows_def marked_def)
  have "\<exists>res' w' tx'. publishBatch (relay stamp t b base cap m) (NewRelayOutbox stamp) (map scan_row rs)
      (res\<lparr>res_Published := res_Published res + 1\<rparr>) ?w2 = ((None, res'), w') \<and> w_tx w' = Some tx' \<and>
      marked u (map row_id rs) tx' \<and> same_db ?w2 w' \<and> w_locked w' = [] \<and> w_broker w' = w_broker ?w2 @ records t rs"
    by (rule Cons.IH) (use Cons.prems u(2) b2 in \<open>simp_all add: marked_def\<close>)
  then obtain res' w' tx' where rest:
    "publishBatch (relay stamp t b base cap m) (NewRelayOutbox stamp) (map scan_row rs)
      (res\<lparr>res_Published := res_Published res + 1\<rparr>) ?w2 = ((None, res'), w')"
    "w_tx w' = Some tx'" "marked u (map row_id rs) tx'" "same_db ?w2 w'" "w_locked w' = []"
    "w_broker w' = w_broker ?w2 @ records t rs" by blast
  have "pm_ID (scan_row r) = row_id r" by (simp add: scan_row_def)
  with pub u(1) rest(1) have "publishBatch (relay stamp t b base cap m) (NewRelayOutbox stamp)
      (map scan_row (r # rs)) res w = ((None, res'), w')" by (simp add: Let_def port_simps)
  moreover have "marked tx (map row_id (r # rs)) tx'"
    using marked_Cons [OF u(2) rest(3)] Cons.prems(7) by simp
  moreover have "same_db w w'" using rest(4) by (simp add: same_db_def)
  moreover have "records t (r # rs) = record_of (message_of (scan_row r) topic) # records t rs"
    using topic by (simp add: records_def routed_def scan_row_def)
  then have "w_broker w' = w_broker w @ records t (r # rs)" using rest(6) by simp
  ultimately show ?case using rest(2,5) by blast
qed

subsection \<open>A pass that is answered\<close>

lemma scan_rows_answers: "(\<And>i. verdict i = None) \<Longrightarrow> scan_rows verdict rows = Inr (map scan_row rows)"
  by (induction rows) simp_all

lemma claim_answers:
  assumes "answers (w_env w)" "w_tx w = Some (fresh_txn now)" "0 \<le> b"
  shows "\<exists>w'. RelayOutbox_ClaimPending b w = (Inr (map scan_row (claimed now b w)), w') \<and>
    w_tx w' = Some ((fresh_txn now)\<lparr>tx_locks := map row_id (claimed now b w)\<rparr>) \<and>
    same_db w w' \<and> w_locked w' = w_locked w"
proof -
  have view: "tx_view w (fresh_txn now) = w_outbox w"
    by (simp add: tx_view_def base_rows_def patched_def [abs_def] fresh_txn_def)
  have c: "claimPending b w (fresh_txn now) =
      (Inr (claimed now b w, (fresh_txn now)\<lparr>tx_locks := map row_id (claimed now b w)\<rparr>), w_seq w)"
    using assms(3) by (simp add: claimPending_def view claimed_def Let_def) (simp add: fresh_txn_def)
  have open_tx: "\<not> tx_aborted (fresh_txn now)" by (simp add: fresh_txn_def)
  have "fst (RelayOutbox_ClaimPending b w) = Inr (map scan_row (claimed now b w))"
    using assms(1,2) by (simp add: RelayOutbox_ClaimPending_def in_tx_def answers_def c rows_Err_def
        scan_rows_answers open_tx)
  then obtain w' where run: "RelayOutbox_ClaimPending b w = (Inr (map scan_row (claimed now b w)), w')"
    by (metis prod.collapse)
  from claim_fresh(3) [OF run assms(2)] ClaimPending_frame [OF run] run show ?thesis by blast
qed

lemma claimed_pending:
  assumes "healthy t w"
  shows "claimed (env_pg_clock (w_env w) n) b w = take (nat b) (sort_key row_id (backlog w))"
proof -
  have "filter (due (env_pg_clock (w_env w) n) (w_locked w)) (w_outbox w) = backlog w"
    unfolding backlog_def using assms by (intro filter_cong) (auto simp: healthy_defs due_def pending_row_def)
  then show ?thesis by (simp add: claimed_def)
qed

lemma claimed_props:
  assumes "distinct (map row_id (w_outbox w))"
  shows "set (claimed now b w) \<subseteq> set (backlog w)" "distinct (map row_id (claimed now b w))"
proof -
  let ?s = "sort_key row_id (filter (due now (w_locked w)) (w_outbox w))"
  have "distinct (map row_id ?s)" using assms by (simp add: distinct_map inj_on_def)
  then show "distinct (map row_id (claimed now b w))"
    unfolding claimed_def take_map [symmetric] by (rule distinct_take)
  show "set (claimed now b w) \<subseteq> set (backlog w)"
    by (auto simp: claimed_def backlog_def pending_row_def due_def dest!: in_set_takeD)
qed

text \<open>What such a pass makes of a row: the ids are those it claimed.\<close>

definition settled :: "time \<Rightarrow> int list \<Rightarrow> outbox_row \<Rightarrow> outbox_row" where
  "settled now ids r = (if row_id r \<in> set ids then published_now (fresh_txn now) r else r)"

lemma answering_body:
  assumes "answering t w" "0 \<le> b" "pg_begin w = (None, v)"
  defines "now \<equiv> env_pg_clock (w_env w) (w_tick w)"
  shows "\<exists>res' w' tx. pass_body (relay stamp t b base cap m) (NewRelayOutbox stamp) res v = ((None, res'), w') \<and>
    w_tx w' = Some tx \<and> marked (fresh_txn now) (map row_id (claimed now b w)) tx \<and> same_db w w' \<and> w_locked w' = [] \<and>
    w_broker w' = w_broker w @ records t (claimed now b w)"
proof -
  from assms(1) have w: "answers (w_env w)" "w_locked w = []" "distinct (map row_id (w_outbox w))"
    by (simp_all add: answering_def)
  note v = pg_begin_relay [OF assms(3)]
  have vt: "w_tx v = Some (fresh_txn now)" using v(1) by (simp add: now_def)
  have vb: "w_outbox v = w_outbox w" using v(2) by (simp add: same_db_def)
  have cl: "claimed now b v = claimed now b w" using v(4) vb by (simp add: claimed_def)
  obtain u where u: "RelayOutbox_ClaimPending b v = (Inr (map scan_row (claimed now b w)), u)"
    "w_tx u = Some ((fresh_txn now)\<lparr>tx_locks := map row_id (claimed now b w)\<rparr>)" "same_db v u" "w_locked u = w_locked v"
    using claim_answers [OF _ vt assms(2)] w(1) v(5) unfolding cl by auto
  have ub: "w_broker u = w_broker w" using ClaimPending_frame(2) [OF u(1)] v(3) by simp
  let ?tx = "(fresh_txn now)\<lparr>tx_locks := map row_id (claimed now b w)\<rparr>"
  have base: "base_rows u ?tx = w_outbox w"
    using u(3) vb by (simp add: base_rows_def same_db_def fresh_txn_def)
  note c = claimed_props [OF w(3), of now b]
  have "\<exists>res' w' tx'. publishBatch (relay stamp t b base cap m) (NewRelayOutbox stamp)
      (map scan_row (claimed now b w)) (res\<lparr>res_Claimed := int (length (claimed now b w))\<rparr>) u = ((None, res'), w') \<and>
      w_tx w' = Some tx' \<and> marked ?tx (map row_id (claimed now b w)) tx' \<and> same_db u w' \<and> w_locked w' = [] \<and>
      w_broker w' = w_broker u @ records t (claimed now b w)"
  proof (rule batch_answers [OF _ u(2)])
    show "answers (w_env u)" "w_locked u = []" using w u(3,4) v by (simp_all add: same_db_def)
    show "\<not> tx_aborted ?tx" by (simp add: fresh_txn_def)
    show "distinct (map row_id (base_rows u ?tx))" using w(3) base by simp
    show "set (claimed now b w) \<subseteq> set (base_rows u ?tx)" using c(1) base by (auto simp: backlog_def)
    show "distinct (map row_id (claimed now b w))" by (rule c(2))
    show "\<forall>r \<in> set (claimed now b w). \<exists>topic. Topics_For t (row_aggregate_type r) = Inr topic"
      using c(1) assms(1) by (auto simp: answering_def backlog_def pending_row_def)
  qed
  then obtain res' w' tx' where r: "publishBatch (relay stamp t b base cap m) (NewRelayOutbox stamp)
      (map scan_row (claimed now b w)) (res\<lparr>res_Claimed := int (length (claimed now b w))\<rparr>) u = ((None, res'), w')"
    "w_tx w' = Some tx'" "marked ?tx (map row_id (claimed now b w)) tx'" "same_db u w'" "w_locked w' = []"
    "w_broker w' = w_broker u @ records t (claimed now b w)" by blast
  have "marked (fresh_txn now) (map row_id (claimed now b w)) tx'"
    using r(3) by (simp add: marked_def published_now_def patched_def)
  moreover have "same_db w w'" using v(2) u(3) r(4) by (metis same_db_trans)
  moreover have "pass_body (relay stamp t b base cap m) (NewRelayOutbox stamp) res v = ((None, res'), w')"
    using u(1) r(1) by (simp add: pass_body_def port_simps)
  ultimately show ?thesis using r(2,5,6) ub by metis
qed

lemma marked_settled:
  assumes "marked (fresh_txn now) ids tx" "same_db w v"
  shows "w_outbox (apply_txn tx v) = map (settled now ids) (w_outbox w)"
proof -
  have "patched tx r = settled now ids r" for r
    using assms(1) by (simp add: marked_def settled_def patched_def [of "fresh_txn now"]) (simp add: fresh_txn_def)
  moreover have "tx_rows tx = []" using assms(1) by (simp add: marked_def fresh_txn_def)
  ultimately show ?thesis using assms(2) by (simp add: apply_txn_def tx_view_def base_rows_def same_db_def)
qed

lemma answering_pass:
  assumes "answering t w" "0 \<le> b"
  defines "now \<equiv> env_pg_clock (w_env w) (Suc (w_tick w))"
  obtains res w' where "Execute (relay stamp t b base cap m) w = ((res, None), w')"
    "w_outbox w' = map (settled now (map row_id (claimed now b w))) (w_outbox w)"
    "w_env w' = w_env w" "w_tx w' = None" "w_locked w' = []"
    "w_broker w' = w_broker w @ records t (claimed now b w)"
proof -
  let ?uc = "relay stamp t b base cap m"
  have h: "answering t (tick w)" and E: "answers (w_env w)" using assms(1) by (simp_all add: answering_def)
  have cl: "claimed now b (tick w) = claimed now b w" by (simp add: claimed_def)
  obtain v where v: "pg_begin (tick w) = (None, v)" using E by (simp add: pg_begin_def answers_def)
  obtain res1 v2 tx where body: "pass_body ?uc (NewRelayOutbox stamp) (first_result b) v = ((None, res1), v2)"
    "w_tx v2 = Some tx" "marked (fresh_txn now) (map row_id (claimed now b w)) tx" "same_db (tick w) v2" "w_locked v2 = []"
    "w_broker v2 = w_broker w @ records t (claimed now b w)"
    using answering_body [OF h assms(2) v] unfolding tick_simps cl [unfolded now_def] now_def by metis
  have env: "w_env v2 = w_env w" using body(4) by (simp add: same_db_def)
  have "pg_commit v2 = (None, apply_txn tx (tick v2))"
    using body(2,3) E env by (simp add: pg_commit_def marked_def answers_def)
  with v body(1) have run: "WithTx (pass_body ?uc (NewRelayOutbox stamp)) (first_result b) (tick w)
      = ((None, res1), pg_rollback (apply_txn tx (tick v2)))" by (simp add: WithTx_def)
  obtain res err w' where ex: "Execute ?uc w = ((res, err), w')" by (metis prod.exhaust)
  show thesis
  proof (rule Execute_WithTx [OF ex])
    fix res2 w1
    assume "WithTx (pass_body ?uc (NewRelayOutbox stamp)) (first_result b) (tick w) = ((err, res2), w1)"
      and w': "same_db w1 w'" "w_tx w' = w_tx w1" "w_locked w' = w_locked w1" "w_broker w' = w_broker w1"
    with run have w1: "err = None" "w1 = pg_rollback (apply_txn tx (tick v2))" by simp_all
    have "same_db w (tick v2)" using body(4) by (simp add: same_db_def)
    from marked_settled [OF body(3) this] w' w1 ex body(5,6) env show thesis
      by (intro that [of res w']) (simp_all add: same_db_def, simp_all add: pg_rollback_def apply_txn_def)
  qed
qed

subsection \<open>The backlog shrinks\<close>

lemma settled_simps [simp]:
  "row_id (settled now ids r) = row_id r" "row_aggregate_type (settled now ids r) = row_aggregate_type r"
  "bk_available (settled now ids r) = bk_available r" "content (settled now ids r) = content r"
  "bk_status (settled now ids r) = (if row_id r \<in> set ids then StatusPublished else bk_status r)"
  by (simp_all add: settled_def published_now_def content_def)

text \<open>A row keeps its status, or it was pending and is published now.\<close>

definition progressed :: "world \<Rightarrow> world \<Rightarrow> bool" where
  "progressed w w' \<longleftrightarrow> (\<exists>g. w_outbox w' = map g (w_outbox w) \<and> (\<forall>r \<in> set (w_outbox w).
     bk_status (g r) = bk_status r \<or> bk_status r = StatusPending \<and> bk_status (g r) = StatusPublished))"

lemma progressed_refl: "progressed w w"
  unfolding progressed_def by (intro exI [of _ id]) simp

lemma progressed_trans:
  assumes "progressed u v" "progressed v w"
  shows "progressed u w"
proof -
  from assms(1) obtain g where g: "w_outbox v = map g (w_outbox u)" "\<forall>r \<in> set (w_outbox u).
     bk_status (g r) = bk_status r \<or> bk_status r = StatusPending \<and> bk_status (g r) = StatusPublished"
    unfolding progressed_def by blast
  from assms(2) obtain h where h: "w_outbox w = map h (w_outbox v)" "\<forall>r \<in> set (w_outbox v).
     bk_status (h r) = bk_status r \<or> bk_status r = StatusPending \<and> bk_status (h r) = StatusPublished"
    unfolding progressed_def by blast
  show ?thesis unfolding progressed_def
    by (intro exI [of _ "h \<circ> g"]) (use g h in fastforce)
qed

text \<open>The backlog in the order of the ids, and what is left of it behind its first rows.\<close>

definition queue :: "world \<Rightarrow> outbox_row list" where
  "queue w = sort_key row_id (backlog w)"

lemma filter_drops_first:
  assumes "distinct (map f xs)"
  shows "filter (\<lambda>x. f x \<notin> set (map f (take n xs))) xs = drop n xs"
proof -
  have d: "distinct (map f (take n xs @ drop n xs))" using assms by simp
  then have "f x \<notin> set (map f (take n xs))" if "x \<in> set (drop n xs)" for x
    using that by (auto simp del: append_take_drop_id)
  then have "filter (\<lambda>x. f x \<notin> set (map f (take n xs))) (drop n xs) = drop n xs" by (simp add: filter_id_conv)
  moreover have "filter (\<lambda>x. f x \<notin> set (map f (take n xs))) (take n xs) = []" by (simp add: filter_empty_conv)
  ultimately have "filter (\<lambda>x. f x \<notin> set (map f (take n xs))) (take n xs @ drop n xs) = drop n xs"
    by (simp only: filter_append append_Nil)
  then show ?thesis by (simp only: append_take_drop_id)
qed

lemma pass_progress:
  assumes "healthy t w" "0 \<le> b" "Execute (relay stamp t b base cap m) w = ((res, err), w')"
  shows "err = None" "healthy t w'" "progressed w w'"
    "queue w' = drop (nat b) (queue w)" "w_broker w' = w_broker w @ records t (take (nat b) (queue w))"
proof -
  let ?now = "env_pg_clock (w_env w) (Suc (w_tick w))"
  let ?ids = "map row_id (claimed ?now b w)"
  from assms(1) have ans: "answering t w" and dw: "distinct (map row_id (w_outbox w))" by (simp_all add: healthy_defs)
  from answering_pass [OF ans assms(2), of stamp base cap m] assms(3)
  have w': "err = None" "w_outbox w' = map (settled ?now ?ids) (w_outbox w)" "w_env w' = w_env w"
    "w_tx w' = None" "w_locked w' = []" "w_broker w' = w_broker w @ records t (claimed ?now b w)" by auto
  have first: "claimed ?now b w = take (nat b) (queue w)" using claimed_pending [OF assms(1)] by (simp add: queue_def)
  have "map row_id (w_outbox w') = map row_id (w_outbox w)" by (simp add: w'(2))
  with dw have dist: "distinct (map row_id (w_outbox w'))" by (simp only:)
  have "(\<forall>n. bk_available r \<le> env_pg_clock (w_env w) n) \<and> (\<exists>topic. Topics_For t (row_aggregate_type r) = Inr topic)"
    if "r \<in> set (w_outbox w')" "bk_status r = StatusPending" for r
    using that assms(1) unfolding w'(2) healthy_defs by (fastforce split: if_splits)
  with assms(1) w' dist show "healthy t w'" by (simp add: healthy_defs)
  have pend: "bk_status r = StatusPending" if "r \<in> set (w_outbox w)" "row_id r \<in> set ?ids" for r
  proof -
    from that(2) obtain q where q: "q \<in> set (claimed ?now b w)" "row_id q = row_id r" by auto
    with claimed_props(1) [OF dw] have b: "q \<in> set (w_outbox w)" "bk_status q = StatusPending"
      by (auto simp: backlog_def pending_row_def)
    from distinct_fst_eq [OF dw b(1) that(1) q(2)] b(2) show ?thesis by simp
  qed
  then show "progressed w w'"
    unfolding progressed_def by (intro exI [of _ "settled ?now ?ids"]) (auto simp: w'(2))
  have "backlog w' = map (settled ?now ?ids) (filter (\<lambda>r. row_id r \<notin> set ?ids) (backlog w))"
    by (simp add: backlog_def w'(2) filter_map comp_def pending_row_def conj_commute cong: conj_cong)
  also have "\<dots> = filter (\<lambda>r. row_id r \<notin> set ?ids) (backlog w)"
    by (rule map_idI) (simp add: settled_def)
  finally have "queue w' = filter (\<lambda>r. row_id r \<notin> set ?ids) (queue w)" by (simp add: queue_def filter_sort)
  moreover have "distinct (map row_id (queue w))"
    using dw by (simp add: queue_def backlog_def distinct_map inj_on_def)
  ultimately show "queue w' = drop (nat b) (queue w)" unfolding first by (simp only: filter_drops_first)
  show "err = None" by (rule w')
  show "w_broker w' = w_broker w @ records t (take (nat b) (queue w))" using w'(6) first by simp
qed

definition next_pass :: "world PublishPendingBatch \<Rightarrow> world \<Rightarrow> world" where
  "next_pass uc w = snd (Execute uc w)"

lemma passes_progress:
  assumes "healthy t w" "0 \<le> b" "uc = relay stamp t b base cap m"
  shows "healthy t ((next_pass uc ^^ k) w) \<and> progressed w ((next_pass uc ^^ k) w) \<and>
    delivers t w ((next_pass uc ^^ k) w) \<and>
    queue ((next_pass uc ^^ k) w) = drop (k * nat b) (queue w) \<and>
    w_broker ((next_pass uc ^^ k) w) = w_broker w @ records t (take (k * nat b) (queue w))"
proof (induction k)
  case 0
  then show ?case using assms(1) by (simp add: progressed_refl delivers_frame records_def)
next
  case (Suc k)
  let ?v = "(next_pass uc ^^ k) w"
  obtain res err w' where ex: "Execute uc ?v = ((res, err), w')" by (metis prod.exhaust)
  then have n: "(next_pass uc ^^ Suc k) w = w'" by (simp add: next_pass_def)
  have h: "healthy t ?v" using Suc by simp
  have run: "Execute (relay stamp t b base cap m) ?v = ((res, err), w')" using ex assms(3) by simp
  note p = pass_progress [OF h assms(2) run]
  have d: "delivers t ?v w'" using Execute_delivers [OF run] h by (simp add: healthy_defs)
  have "take (Suc k * nat b) (queue w) = take (k * nat b) (queue w) @ take (nat b) (drop (k * nat b) (queue w))"
    by (simp add: add.commute flip: take_add)
  with Suc p d show ?case unfolding n
    by (simp add: records_append add.commute) (blast intro: progressed_trans delivers_trans)
qed

subsection \<open>The backlog drains\<close>

lemma backlog_published:
  fixes stamp t b base cap m w k
  assumes "healthy t w" "0 < b" "int (length (backlog w)) \<le> int k * b"
  defines "w' \<equiv> (next_pass (relay stamp t b base cap m) ^^ k) w"
  shows "(\<forall>r \<in> set (w_outbox w'). bk_status r \<noteq> StatusPending) \<and>
    (\<forall>r \<in> set (w_outbox w). bk_status r = StatusPending \<longrightarrow> announced t w' r) \<and>
    w_broker w' = w_broker w @ records t (queue w)"
proof -
  have "healthy t w'" and p: "progressed w w'" and d: "delivers t w w'"
    and q: "queue w' = drop (k * nat b) (queue w)" and log: "w_broker w' = w_broker w @ records t (take (k * nat b) (queue w))"
    using passes_progress [OF assms(1) _ refl, of b k stamp base cap m] assms(2) by (simp_all add: w'_def)
  from assms(2) obtain n where "b = int n" by (metis zero_less_imp_eq_int)
  with assms(3) have "length (queue w) \<le> k * nat b" by (simp add: queue_def flip: of_nat_mult)
  with q log have "queue w' = []" and log: "w_broker w' = w_broker w @ records t (queue w)" by simp_all
  then have none: "\<forall>r \<in> set (w_outbox w'). bk_status r \<noteq> StatusPending"
    by (metis (mono_tags, lifting) backlog_def filter_empty_conv pending_row_def queue_def set_empty set_sort)
  moreover have "announced t w' r" if r: "r \<in> set (w_outbox w)" "bk_status r = StatusPending" for r
  proof -
    from p obtain g where g: "w_outbox w' = map g (w_outbox w)" "bk_status (g r) = bk_status r \<or> bk_status (g r) = StatusPublished"
      unfolding progressed_def using r(1) by blast
    from d obtain h where h: "w_outbox w' = map h (w_outbox w)" "content (h r) = content r"
      "bk_status (h r) = StatusPublished \<longrightarrow> bk_status r = StatusPublished \<or> announced t w' (h r)"
      unfolding delivers_def using r(1) by blast
    from g(1) h(1) r(1) have "g r = h r" by (metis map_eq_conv)
    moreover have "bk_status (g r) \<noteq> StatusPending" using none g(1) r(1) by auto
    ultimately show ?thesis using g(2) h(3) r(2) announced_content [OF h(2)] by auto
  qed
  ultimately show ?thesis using log by blast
qed

text \<open>
  C5: The backlog drains in order.  From a state in which the server and the broker answer, every
  pending row is due and has a topic, as many passes as it takes to cover the backlog in batches
  leave no pending row; every row that was pending is published; and what the passes append to the
  topic is one record for each of these rows, in the order of the ids.
\<close>

theorem backlog_drains:
  fixes stamp t b base cap m w k
  assumes "healthy t w" "0 < b" "int (length (backlog w)) \<le> int k * b"
  defines "w' \<equiv> (next_pass (relay stamp t b base cap m) ^^ k) w"
  shows "(\<forall>r \<in> set (w_outbox w'). bk_status r \<noteq> StatusPending) \<and>
    (\<forall>r \<in> set (w_outbox w). bk_status r = StatusPending \<longrightarrow> announced t w' r) \<and>
    w_broker w' = w_broker w @ records t (sort_key row_id (filter pending_row (w_outbox w)))"
  using backlog_published [OF assms(1-3)] by (simp add: w'_def queue_def backlog_def)

definition busy_world :: world where
  "busy_world = (sample_world [] [])\<lparr>w_outbox := map (\<lambda>i. sample_row i StatusPending 0) [5, 3, 4, 2, 1]\<rparr>"

definition user_topics :: Topics where
  "user_topics = [''User'' \<mapsto> ''accounts.users'']"

lemma backlog_drains_witness:
  "let w' = (next_pass (relay (\<lambda>t. t) user_topics 2 1000000000 60000000000 5) ^^ 3) busy_world
   in length (backlog busy_world) = 5 \<and> backlog w' = [] \<and> announced user_topics w' (sample_row 3 StatusPending 0) \<and>
     map (\<lambda>k. map_of (rec_Headers k) HeaderEventID) (w_broker w') =
       map Some [''event-1'', ''event-2'', ''event-3'', ''event-4'', ''event-5'']"
proof -
  let ?w' = "(next_pass (relay (\<lambda>t. t) user_topics 2 1000000000 60000000000 5) ^^ 3) busy_world"
  have rows: "w_outbox busy_world = map (\<lambda>i. sample_row i StatusPending 0) [5, 3, 4, 2, 1]"
    by (simp add: busy_world_def)
  have "healthy user_topics busy_world"
    by (simp add: healthy_defs rows answers_def busy_world_def sample_world_def sample_env_def scripted_def
        sample_row_def user_topics_def Topics_For_def Let_def)
  moreover have l: "length (backlog busy_world) = 5"
    by (simp add: backlog_def rows pending_row_def sample_row_def)
  ultimately have d: "(\<forall>r \<in> set (w_outbox ?w'). bk_status r \<noteq> StatusPending) \<and>
      (\<forall>r \<in> set (w_outbox busy_world). bk_status r = StatusPending \<longrightarrow> announced user_topics ?w' r) \<and>
      w_broker ?w' = w_broker busy_world @ records user_topics (sort_key row_id (filter pending_row (w_outbox busy_world)))"
    by (intro backlog_drains) simp_all
  then have "backlog ?w' = []" by (simp add: backlog_def pending_row_def filter_empty_conv)
  moreover have "sample_row 3 StatusPending 0 \<in> set (w_outbox busy_world)"
    "bk_status (sample_row 3 StatusPending 0) = StatusPending" by (simp_all add: rows sample_row_def)
  moreover have "map (\<lambda>k. map_of (rec_Headers k) HeaderEventID)
      (w_broker busy_world @ records user_topics (sort_key row_id (filter pending_row (w_outbox busy_world)))) =
      map Some [''event-1'', ''event-2'', ''event-3'', ''event-4'', ''event-5'']" by code_simp
  ultimately show ?thesis using d l by (simp only: Let_def simp_thms)
qed

end
