(* ===== verification/Ordering.thy ===== *)
theory Ordering
  imports Progress
begin

text \<open>
  The order of the events of one aggregate.  A pass publishes in the order of the ids, but the claim
  takes the rows that are due: a row that was rescheduled behind a transient failure does not hold
  back the later rows of its aggregate.
\<close>

lemma record_event_id:
  "Topics_For t (row_aggregate_type q) = Inr topic \<Longrightarrow> k \<in> set (routed record_of t (scan_row q)) \<Longrightarrow>
     map_of (rec_Headers k) HeaderEventID = Some (uuid_text (row_event_id q))"
  using record_carries [of t q topic] by (simp add: routed_def scan_row_def carries_def)

text \<open>
  C18: A retry is overtaken.  Let the server and the broker answer, and let an event wait for its retry:
  its row is pending but not due.  A pass that claims a later row of the same aggregate publishes it,
  under the same key, while the earlier row stays as it was and no record of it is appended: the
  topic has the later event of the aggregate first.
\<close>

theorem backed_off_event_is_overtaken:
  fixes stamp t b base cap m w
  defines "now \<equiv> env_pg_clock (w_env w) (Suc (w_tick w))"
  assumes "answering t w" "0 \<le> b" "distinct (map (\<lambda>q. uuid_text (row_event_id q)) (w_outbox w))"
    and "r \<in> set (w_outbox w)" "bk_status r = StatusPending" "now < bk_available r"
    and "s \<in> set (claimed now b w)" "row_id r < row_id s" "row_aggregate_id s = row_aggregate_id r"
    and "Execute (relay stamp t b base cap m) w = ((res, err), w')"
  shows "err = None \<and> r \<in> set (w_outbox w') \<and>
    (\<exists>new. w_broker w' = w_broker w @ new \<and>
       (\<exists>k \<in> set new. carries t k s \<and> rec_Key k = row_aggregate_id r) \<and> (\<forall>k \<in> set new. \<not> carries t k r))"
proof -
  let ?ids = "map row_id (claimed now b w)"
  from answering_pass [OF assms(2,3), of stamp base cap m] assms(11)
  have w': "err = None" "w_outbox w' = map (settled now ?ids) (w_outbox w)"
    "w_broker w' = w_broker w @ records t (claimed now b w)"
    by (auto simp: now_def)
  from assms(2) have dist: "distinct (map row_id (w_outbox w))" by (simp add: answering_def)
  note cl = claimed_props [OF dist, of now b]
  have due: "q \<in> set (w_outbox w) \<and> bk_status q = StatusPending \<and> bk_available q \<le> now" if "q \<in> set (claimed now b w)" for q
    using that by (auto simp: claimed_def due_def dest!: in_set_takeD)
  have topic: "\<exists>topic. Topics_For t (row_aggregate_type q) = Inr topic" if "q \<in> set (claimed now b w)" for q
    using due [OF that] assms(2) by (auto simp: answering_def)
  have "row_id r \<notin> set ?ids"
  proof
    assume "row_id r \<in> set ?ids"
    then obtain q where q: "q \<in> set (claimed now b w)" "row_id q = row_id r" by auto
    with due [OF q(1)] distinct_fst_eq [OF dist _ assms(5)] have "q = r" by blast
    with due [OF q(1)] assms(7) show False by simp
  qed
  then have "r \<in> set (w_outbox w')" using assms(5) w'(2) by (force simp: settled_def)
  moreover have "\<exists>k \<in> set (records t (claimed now b w)). carries t k s \<and> rec_Key k = row_aggregate_id r"
  proof -
    from topic [OF assms(8)] obtain topic where "Topics_For t (row_aggregate_type s) = Inr topic" by blast
    then have "record_of (message_of (scan_row s) topic) \<in> set (routed record_of t (scan_row s))"
      by (simp add: routed_def scan_row_def)
    with assms(8) have "record_of (message_of (scan_row s) topic) \<in> set (records t (claimed now b w))"
      unfolding records_def by auto
    moreover have "carries t (record_of (message_of (scan_row s) topic)) s"
      by (rule record_carries) (rule \<open>Topics_For t (row_aggregate_type s) = Inr topic\<close>)
    moreover note assms(10)
    ultimately show ?thesis by (auto simp: carries_def)
  qed
  moreover have "\<not> carries t k r" if k: "k \<in> set (records t (claimed now b w))" for k
  proof
    assume "carries t k r"
    from k obtain q where q: "q \<in> set (claimed now b w)" "k \<in> set (routed record_of t (scan_row q))"
      by (auto simp: records_def)
    with topic [OF q(1)] record_event_id [of t q _ k] \<open>carries t k r\<close>
    have "uuid_text (row_event_id q) = uuid_text (row_event_id r)" by (auto simp: carries_def)
    with due [OF q(1)] distinct_fst_eq [OF assms(4) _ assms(5)] have "q = r" by blast
    with due [OF q(1)] assms(7) show False by simp
  qed
  ultimately show ?thesis using w'(1,3) by blast
qed

text \<open>
  The witness: row 2 waits for its retry, row 3 of the same user is due.  The pass publishes row 3; the
  pass after the retry time publishes row 2, and the two records of the user are in the wrong order.
\<close>

definition retry_world :: world where
  "retry_world = (sample_world [] [])\<lparr>w_outbox := [sample_row 2 StatusPending 5000000000, sample_row 3 StatusPending 0]\<rparr>"

definition order_pass :: "world \<Rightarrow> world" where
  "order_pass w = snd (Execute (relay (\<lambda>t. t) user_topics 10 1000000000 60000000000 5) w)"

definition at_retry_time :: "world \<Rightarrow> world" where
  "at_retry_time w = w\<lparr>w_env := (w_env w)\<lparr>env_pg_clock := (\<lambda>n. 5000000000 + 1000 * int n)\<rparr>\<rparr>"

lemma backed_off_event_is_overtaken_witness:
  "sample_row 2 StatusPending 5000000000 \<in> set (w_outbox (order_pass retry_world)) \<and>
   (\<exists>k \<in> set (w_broker (order_pass retry_world)). carries user_topics k (sample_row 3 StatusPending 0)) \<and>
   map (\<lambda>k. (rec_Key k, map_of (rec_Headers k) HeaderEventID)) (w_broker (order_pass (at_retry_time (order_pass retry_world)))) =
     [(''user-1'', Some ''event-3''), (''user-1'', Some ''event-2'')]"
proof -
  let ?r = "sample_row 2 StatusPending 5000000000" and ?s = "sample_row 3 StatusPending 0"
  let ?run = "Execute (relay (\<lambda>t. t) user_topics 10 1000000000 60000000000 5) retry_world"
  have rows: "w_outbox retry_world = [?r, ?s]" by (simp add: retry_world_def)
  have ans: "answering user_topics retry_world"
    by (simp add: answering_def rows answers_def retry_world_def sample_world_def sample_env_def scripted_def
        sample_row_def user_topics_def Topics_For_def Let_def)
  have ev: "distinct (map (\<lambda>q. uuid_text (row_event_id q)) (w_outbox retry_world))" by code_simp
  have clock: "env_pg_clock (w_env retry_world) (Suc (w_tick retry_world)) < bk_available ?r" by code_simp
  have cl: "?s \<in> set (claimed (env_pg_clock (w_env retry_world) (Suc (w_tick retry_world))) 10 retry_world)" by code_simp
  have ids: "row_id ?r < row_id ?s" "row_aggregate_id ?s = row_aggregate_id ?r" "bk_status ?r = StatusPending"
    by (simp_all add: sample_row_def)
  have run: "?run = ((fst (fst ?run), snd (fst ?run)), order_pass retry_world)" by (simp add: order_pass_def)
  have "?r \<in> set (w_outbox retry_world)" by (simp add: rows)
  from backed_off_event_is_overtaken [OF ans _ ev this ids(3) clock cl ids(1,2) run]
  have "?r \<in> set (w_outbox (order_pass retry_world))"
    "\<exists>k \<in> set (w_broker (order_pass retry_world)). carries user_topics k ?s" by auto
  moreover have "map (\<lambda>k. (rec_Key k, map_of (rec_Headers k) HeaderEventID))
      (w_broker (order_pass (at_retry_time (order_pass retry_world)))) =
     [(''user-1'', Some ''event-3''), (''user-1'', Some ''event-2'')]" by code_simp
  ultimately show ?thesis by blast
qed

end
