(* ===== verification/EndToEnd.thy ===== *)
theory EndToEnd
  imports WriteProperties Progress
begin

text \<open>
  From the command to the topic: what a registration said is what the consumers of the topic read.
  The wire format is written out here once more, as the contract with the consumers.
\<close>

subsection \<open>The wire format\<close>

text \<open>The CloudEvent of a registration as a JSON document, field by field.\<close>

definition wire_event :: "Metadata \<Rightarrow> uuid \<Rightarrow> uuid \<Rightarrow> string \<Rightarrow> string \<Rightarrow> time \<Rightarrow> json" where
  "wire_event meta eventID userID email name now = JObj
     ([(''specversion'', JStr ''1.0''), (''id'', JStr (uuid_text eventID)),
       (''type'', JStr ''com.outboxexpress.accounts.user.registered''), (''source'', JStr ''/services/accounts''),
       (''subject'', JStr (uuid_text userID)), (''time'', JStr (Format_ms now)),
       (''dataschema'', JStr ''https://schemas.outboxexpress.dev/accounts/user.registered/1.json''),
       (''datacontenttype'', JStr ''application/json'')] @
      (if Traceparent meta = [] then [] else [(''traceparent'', JStr (Traceparent meta))]) @
      [(''data'', JObj [(''user_id'', JStr (uuid_text userID)), (''email'', JStr email),
          (''display_name'', JStr name), (''version'', JInt 1), (''registered_at'', JStr (Format_ms now))])])"

lemma envelope_wire:
  assumes "envelope_of meta (registered_event user) env" "u_version user = 1"
  shows "env_Payload env = json_text (wire_event meta (env_EventID env) (u_id user)
    (email_value (u_email user)) (name_value (u_displayName user)) (u_createdAt user))"
proof -
  have "Itoa 1 = ''1''" by code_simp
  then show ?thesis
  using assms
  by (auto simp: envelope_of_def registered_event_def EncodeCloudEvent_Inr_iff wire_event_def cloudEvent_json_def
      cloudEvent_of_def attributes_of_def SpecVersion_def DataContentType_def source_def schemaBase_def
      EventTypeUserRegistered_def userRegisteredData_json_def Email_String_def DisplayName_String_def)
qed

subsection \<open>A registration reaches the topic\<close>

text \<open>
  C4: Round trip.  A registration that returned an id is read back from the topic: behind as many
  healthy passes as cover the backlog, the topic of users has a record whose key is the user's id,
  whose value is the stored form of the CloudEvent that carries the id, the normalised email and the
  trimmed display name of the command, whose event id header is the event's id, and which carries the
  correlation id and the trace of the request.
\<close>

theorem registration_reaches_the_topic:
  assumes "RegisterUser_Execute uni parse (api_uow stamp) stamp cmd w = (Inr i, w1)"
    and "w_outbox v = w_outbox w1" "healthy t v" "0 < b" "int (length (backlog v)) \<le> int k * b"
  shows "\<exists>rec \<in> set (w_broker ((next_pass (relay stamp' t b base cap m) ^^ k) v)).
    \<exists>eventID now.
      Topics_For t AggregateTypeUser = Inr (rec_Topic rec) \<and> rec_Key rec = uuid_text i \<and>
      rec_Value rec = env_jsonb (w_env w) (json_text (wire_event (cmd_Meta cmd) eventID i
        (ToLower uni (TrimSpace (cmd_Email cmd))) (TrimSpace (cmd_DisplayName cmd)) now)) \<and>
      map_of (rec_Headers rec) HeaderEventID = Some (uuid_text eventID) \<and>
      map_of (rec_Headers rec) HeaderEventType = Some EventTypeUserRegistered \<and>
      (CorrelationID (cmd_Meta cmd) \<noteq> [] \<longrightarrow>
        map_of (rec_Headers rec) HeaderCorrelationID = Some (CorrelationID (cmd_Meta cmd))) \<and>
      (Traceparent (cmd_Meta cmd) \<noteq> [] \<longrightarrow>
        map_of (rec_Headers rec) HeaderTraceparent = Some (Traceparent (cmd_Meta cmd)))"
proof -
  from registration_outcome [OF assms(1)] have "registered uni stamp cmd i w w1" by auto
  then obtain user now env where r: "u_id user = i" "u_version user = 1"
      "email_value (u_email user) = ToLower uni (TrimSpace (cmd_Email cmd))"
      "name_value (u_displayName user) = TrimSpace (cmd_DisplayName cmd)"
      "envelope_of (cmd_Meta cmd) (registered_event user) env"
      "w_outbox w1 = w_outbox w @ [outbox_row_of (w_env w) stamp now (w_seq w) env]"
    unfolding registered_def by blast
  let ?r = "outbox_row_of (w_env w) stamp now (w_seq w) env"
  have "?r \<in> set (w_outbox v)" "bk_status ?r = StatusPending" using assms(2) r(6) by (simp_all add: outbox_row_of_def)
  with backlog_published [OF assms(3-5)] have "announced t ((next_pass (relay stamp' t b base cap m) ^^ k) v) ?r"
    by blast
  then obtain rec where rec: "rec \<in> set (w_broker ((next_pass (relay stamp' t b base cap m) ^^ k) v))" "carries t rec ?r"
    unfolding announced_def by blast
  have e: "env_AggregateType env = AggregateTypeUser" "env_AggregateID env = uuid_text i"
    "env_EventType env = EventTypeUserRegistered" "env_Headers env = headers (cmd_Meta cmd)"
    using r(1,5) by (simp_all add: envelope_of_def registered_event_def)
  have head: "map_of (rec_Headers rec) h = Some x"
    if "map_of (headers (cmd_Meta cmd)) h = Some x" "h \<notin> set contract_headers" for h x
  proof -
    have "h \<in> set (map fst (row_headers ?r))"
      using that(1) e(4) by (auto simp: outbox_row_of_def dest!: map_of_SomeD intro: image_eqI [rotated])
    with rec(2) that(2) have "map_of (rec_Headers rec) h = map_of (rev (row_headers ?r)) h"
      by (auto simp: carries_def list_all_iff)
    moreover have "map_of (rev (headers (cmd_Meta cmd))) h = Some x"
      using that(1) by (simp add: map_of_eq_Some_iff distinct_headers rev_map [symmetric])
    ultimately show ?thesis using e(4) by (simp add: outbox_row_of_def)
  qed
  show ?thesis
  proof (intro bexI [OF _ rec(1)] exI [of _ "env_EventID env"] exI [of _ "u_createdAt user"] conjI impI)
    show "map_of (rec_Headers rec) HeaderCorrelationID = Some (CorrelationID (cmd_Meta cmd))"
      if "CorrelationID (cmd_Meta cmd) \<noteq> []"
      using that by (intro head) (simp_all add: map_of_headers contract_headers_def header_names)
    show "map_of (rec_Headers rec) HeaderTraceparent = Some (Traceparent (cmd_Meta cmd))"
      if "Traceparent (cmd_Meta cmd) \<noteq> []"
      using that by (intro head) (simp_all add: map_of_headers contract_headers_def header_names)
    show "rec_Value rec = env_jsonb (w_env w) (json_text (wire_event (cmd_Meta cmd) (env_EventID env) i
        (ToLower uni (TrimSpace (cmd_Email cmd))) (TrimSpace (cmd_DisplayName cmd)) (u_createdAt user)))"
      using rec(2) envelope_wire [OF r(5,2)] by (simp add: carries_def outbox_row_of_def r(1,3,4))
  qed (use rec(2) e in \<open>simp_all add: carries_def outbox_row_of_def\<close>)
qed

text \<open>The witness: Ada registers in an empty database, and a minute later the relay makes a pass.\<close>

definition first_world :: world where
  "first_world = (sample_world [] [])\<lparr>w_outbox := []\<rparr>"

definition registered_world :: world where
  "registered_world = snd (RegisterUser_Execute (\<lambda>s. s) parse_bare (api_uow (\<lambda>t. t)) (\<lambda>t. t) ada_command first_world)"

definition relay_world :: world where
  "relay_world = (sample_world [] [])\<lparr>w_env := (sample_env [] [])\<lparr>env_pg_clock := \<lambda>_. 60000000000\<rparr>,
     w_outbox := w_outbox registered_world\<rparr>"

lemma registration_reaches_the_topic_witness:
  "\<exists>rec \<in> set (w_broker ((next_pass (relay (\<lambda>t. t) user_topics 2 1000000000 60000000000 5) ^^ 1) relay_world)).
     rec_Key rec = ''id-0'' \<and> rec_Topic rec = ''accounts.users'' \<and>
     map_of (rec_Headers rec) HeaderCorrelationID = Some ''c-1''"
proof -
  let ?run = "RegisterUser_Execute (\<lambda>s. s) parse_bare (api_uow (\<lambda>t. t)) (\<lambda>t. t) ada_command first_world"
  have "case ?run of (x, w) \<Rightarrow> x = Inr (UUID ''id-0'') \<and>
      (case w_outbox w of [r] \<Rightarrow> bk_status r = StatusPending \<and> bk_available r = 1000002000 \<and>
         row_aggregate_type r = ''User'' | _ \<Rightarrow> False)" by code_simp
  then have x: "fst ?run = Inr (UUID ''id-0'')" and o: "case w_outbox registered_world of
      [r] \<Rightarrow> bk_status r = StatusPending \<and> bk_available r = 1000002000 \<and> row_aggregate_type r = ''User'' | _ \<Rightarrow> False"
    by (simp_all only: case_prod_unfold registered_world_def)
  from o obtain r where r: "w_outbox registered_world = [r]" "bk_status r = StatusPending"
    "bk_available r = 1000002000" "row_aggregate_type r = ''User''"
    by (cases "w_outbox registered_world"; cases "tl (w_outbox registered_world)") auto
  have run: "?run = (Inr (UUID ''id-0''), registered_world)"
    using x by (metis prod.collapse registered_world_def)
  have t: "Topics_For user_topics ''User'' = Inr ''accounts.users''"
    by (simp add: Topics_For_def user_topics_def)
  have "healthy user_topics relay_world"
    by (simp add: healthy_defs relay_world_def r answers_def sample_world_def sample_env_def scripted_def t)
  moreover have "int (length (backlog relay_world)) \<le> int 1 * 2"
    by (simp add: backlog_def relay_world_def r)
  moreover have "w_outbox relay_world = w_outbox registered_world" by (simp add: relay_world_def)
  moreover have "CorrelationID (cmd_Meta ada_command) = ''c-1''" by (simp add: ada_command_def no_meta_def)
  moreover have "Topics_For user_topics AggregateTypeUser = Inr ''accounts.users''"
    using t by (simp add: AggregateTypeUser_def)
  ultimately show ?thesis
    using registration_reaches_the_topic [OF run, of relay_world user_topics 2 1 "\<lambda>t. t" 1000000000 60000000000 5]
    by fastforce
qed

end
