(* ===== verification/Group.thy ===== *)
theory Group
  imports Processes
begin

text \<open>
  The goroutines of the two servers, \<open>run\<close> of \<open>cmd/api\<close> and \<open>cmd/relay\<close> from \<open>errgroup.WithContext\<close> to
  \<open>g.Wait()\<close>, as a labelled step relation, and the process around \<open>run\<close>.  What a loop does inside is
  modelled elsewhere; here are its start, the conditions under which it returns, and its error.
\<close>

subsection \<open>Goroutines\<close>

text \<open>A loop with a context, a listening server, and the goroutine that shuts the servers down.\<close>

datatype goroutine = Loop string | Serving string | Stopper

text \<open>
  \<open>pg_start\<close> are the goroutines in the order of the calls of \<open>g.Go\<close>, \<open>pg_listen\<close> what the goroutine of
  a server returns when \<open>ListenAndServe\<close> does, \<open>pg_shutdowns\<close> the servers in the order in which the
  stopper shuts them down, and \<open>pg_join\<close> what it returns of their errors.
\<close>

record process_group =
  pg_start :: "goroutine list"
  pg_listen :: "string \<Rightarrow> gerr option \<Rightarrow> gerr option"
  pg_shutdowns :: "string list"
  pg_join :: "gerr option list \<Rightarrow> gerr option"

definition relay_group :: process_group where
  "relay_group =
     \<lparr>pg_start = [Loop ''relay'', Loop ''purge'', Serving ''admin'', Stopper], pg_listen = listen_result,
      pg_shutdowns = [''admin''], pg_join = (\<lambda>errs. case errs of [] \<Rightarrow> None | e # _ \<Rightarrow> e)\<rparr>"

definition api_group :: process_group where
  "api_group =
     \<lparr>pg_start = [Serving ''public'', Serving ''admin'', Stopper], pg_listen = listen_result,
      pg_shutdowns = [''public'', ''admin''],
      pg_join = (\<lambda>errs. errors_Join (concat (map (\<lambda>e. case e of None \<Rightarrow> [] | Some err \<Rightarrow> [err]) errs)))\<rparr>"

text \<open>
  The state: whether \<open>gctx\<close> has ended, the first error, the goroutines that have not returned; of the
  stopper, the servers on which \<open>Shutdown\<close> was called, the one whose \<open>Shutdown\<close> has not returned, the
  servers still to come, and the results so far.
\<close>

record group =
  gr_ended :: bool
  gr_err :: "gerr option"
  gr_live :: "goroutine list"
  gr_called :: "string list"
  gr_busy :: "string option"
  gr_open :: "string list"
  gr_results :: "gerr option list"

definition group_start :: "process_group \<Rightarrow> group" where
  "group_start p =
     \<lparr>gr_ended = False, gr_err = None, gr_live = pg_start p, gr_called = [], gr_busy = None,
      gr_open = pg_shutdowns p, gr_results = []\<rparr>"

text \<open>
  The package \<open>errgroup\<close> is a parameter: what it makes of the end of the context and of the error to
  return when a function of the group has returned.  What is relied on is its documentation: the first
  error is kept, and it ends the context; a function that returns nil changes neither.
\<close>

type_synonym errgroup = "gerr option \<Rightarrow> bool \<times> gerr option \<Rightarrow> bool \<times> gerr option"

definition errgroup_contract :: "errgroup \<Rightarrow> bool" where
  "errgroup_contract eg \<longleftrightarrow> (\<forall>s. eg None s = s) \<and>
     (\<forall>err ended. eg (Some err) (ended, None) = (True, Some err)) \<and>
     (\<forall>err ended first. eg (Some err) (ended, Some first) = (ended, Some first))"

definition returns :: "errgroup \<Rightarrow> goroutine \<Rightarrow> gerr option \<Rightarrow> group \<Rightarrow> group" where
  "returns eg x result g =
     (let (ended, err) = eg result (gr_ended g, gr_err g)
      in g\<lparr>gr_live := remove1 x (gr_live g), gr_ended := ended, gr_err := err\<rparr>)"

text \<open>
  The steps, with their labels.  \<open>signal\<close>: the process is told to stop.  A loop returns nil, and only
  once its context has ended.  \<open>ListenAndServe\<close> fails at any time with an error of its own, or returns
  \<open>ErrServerClosed\<close> as soon as \<open>Shutdown\<close> was called on its server, whether that call has returned or
  not.  The stopper waits for the context, calls \<open>Shutdown\<close> on one server after the other, each with
  its own result, and returns.
\<close>

datatype group_event =
    Signalled
  | LoopReturned string
  | ServeFailed string gerr
  | ServeClosed string
  | ShutdownCalled string
  | ShutdownReturned string "gerr option"
  | StopperReturned "gerr option"

inductive group_step :: "errgroup \<Rightarrow> process_group \<Rightarrow> group \<Rightarrow> group_event \<Rightarrow> group \<Rightarrow> bool" for eg p where
  signal: "\<not> gr_ended g \<Longrightarrow> group_step eg p g Signalled (g\<lparr>gr_ended := True\<rparr>)"
| loop_stops: "gr_ended g \<Longrightarrow> Loop x \<in> set (gr_live g) \<Longrightarrow>
    group_step eg p g (LoopReturned x) (returns eg (Loop x) None g)"
| serve_fails: "Serving x \<in> set (gr_live g) \<Longrightarrow> \<not> errors_Is err ErrServerClosed \<Longrightarrow>
    group_step eg p g (ServeFailed x err) (returns eg (Serving x) (pg_listen p x (Some err)) g)"
| serve_closes: "Serving x \<in> set (gr_live g) \<Longrightarrow> x \<in> set (gr_called g) \<Longrightarrow>
    group_step eg p g (ServeClosed x) (returns eg (Serving x) (pg_listen p x (Some ErrServerClosed)) g)"
| calls_shutdown: "gr_ended g \<Longrightarrow> Stopper \<in> set (gr_live g) \<Longrightarrow> gr_busy g = None \<Longrightarrow> gr_open g = x # xs \<Longrightarrow>
    group_step eg p g (ShutdownCalled x) (g\<lparr>gr_called := gr_called g @ [x], gr_busy := Some x, gr_open := xs\<rparr>)"
| shutdown_returns: "gr_busy g = Some x \<Longrightarrow>
    group_step eg p g (ShutdownReturned x result) (g\<lparr>gr_busy := None, gr_results := gr_results g @ [result]\<rparr>)"
| stopper_returns: "gr_ended g \<Longrightarrow> Stopper \<in> set (gr_live g) \<Longrightarrow> gr_busy g = None \<Longrightarrow> gr_open g = [] \<Longrightarrow>
    group_step eg p g (StopperReturned (pg_join p (gr_results g))) (returns eg Stopper (pg_join p (gr_results g)) g)"

inductive_cases group_stepE: "group_step eg p g e g'"

inductive group_run :: "errgroup \<Rightarrow> process_group \<Rightarrow> group_event list \<Rightarrow> group \<Rightarrow> bool" for eg p where
  start: "group_run eg p [] (group_start p)"
| more: "group_run eg p es g \<Longrightarrow> group_step eg p g e g' \<Longrightarrow> group_run eg p (es @ [e]) g'"

subsection \<open>The process\<close>

text \<open>\<open>main\<close>: the error goes to standard error, and the exit status says whether there was one.\<close>

definition exit_of :: "string \<Rightarrow> gerr option \<Rightarrow> int \<times> string" where
  "exit_of name result =
     (case result of None \<Rightarrow> (0, []) | Some err \<Rightarrow> (1, name @ '': '' @ error_text err @ [CHR 0x0A]))"

subsection \<open>What a run is judged by\<close>

text \<open>
  The error an event stands for: a listener that failed has its error under its name, the stopper the
  error it returned, and nothing else is an error.
\<close>

fun event_error :: "group_event \<Rightarrow> gerr option" where
  "event_error (ServeFailed x err) = Some (wrapf (x @ '' listener'') err)"
| "event_error (StopperReturned result) = result"
| "event_error _ = None"

fun shut_down :: "group_event list \<Rightarrow> string list" where
  "shut_down [] = []"
| "shut_down (ShutdownCalled x # es) = x # shut_down es"
| "shut_down (e # es) = shut_down es"

lemma shut_down_append [simp]: "shut_down (es @ fs) = shut_down es @ shut_down fs"
  by (induction es rule: shut_down.induct) simp_all

lemma first_some_append:
  "first_some f (xs @ ys) = (case first_some f xs of None \<Rightarrow> first_some f ys | Some y \<Rightarrow> Some y)"
  by (induction xs) (simp_all split: option.split)

text \<open>What is left to do: a goroutine to return, the two ends of a shutdown, the end of the context.\<close>

definition left :: "group \<Rightarrow> nat" where
  "left g = length (gr_live g) + 2 * length (gr_open g) + (if gr_busy g = None then 0 else 1) +
     (if gr_ended g then 0 else 1)"

text \<open>
  What the proofs use of a group: the stopper is there and shuts down every server that is started, a
  listener's own error comes back under its name and the end of a shut-down server is none, and of the
  errors of the shutdowns at least one is returned.
\<close>

definition well_formed :: "process_group \<Rightarrow> bool" where
  "well_formed p \<longleftrightarrow> distinct (pg_start p) \<and> Stopper \<in> set (pg_start p) \<and>
     (\<forall>x. Serving x \<in> set (pg_start p) \<longrightarrow> x \<in> set (pg_shutdowns p)) \<and>
     (\<forall>x err. \<not> errors_Is err ErrServerClosed \<longrightarrow> pg_listen p x (Some err) = Some (wrapf (x @ '' listener'') err)) \<and>
     (\<forall>x. pg_listen p x (Some ErrServerClosed) = None) \<and>
     (\<forall>errs err. length errs = length (pg_shutdowns p) \<longrightarrow> Some err \<in> set errs \<longrightarrow> pg_join p errs \<noteq> None)"

lemma relay_well_formed: "well_formed relay_group"
proof -
  have "pg_join relay_group errs \<noteq> None" if "length errs = 1" "Some err \<in> set errs" for errs err
    using that by (cases errs) (auto simp: relay_group_def)
  then show ?thesis by (auto simp: well_formed_def relay_group_def listen_result_def)
qed

lemma api_well_formed: "well_formed api_group"
  by (force simp: well_formed_def api_group_def listen_result_def)

lemma errgroup_result:
  assumes "errgroup_contract eg"
  shows "eg result (ended, err) = (ended \<or> err = None \<and> result \<noteq> None, if err = None then result else err)"
  using assms unfolding errgroup_contract_def by (cases result; cases err) auto

lemma returns_simps:
  "gr_live (returns eg x result g) = remove1 x (gr_live g)" "gr_open (returns eg x result g) = gr_open g"
  "gr_results (returns eg x result g) = gr_results g" "gr_called (returns eg x result g) = gr_called g"
  "gr_busy (returns eg x result g) = gr_busy g"
  "errgroup_contract eg \<Longrightarrow> gr_ended (returns eg x result g) \<longleftrightarrow> gr_ended g \<or> gr_err g = None \<and> result \<noteq> None"
  "errgroup_contract eg \<Longrightarrow> gr_err (returns eg x result g) = (if gr_err g = None then result else gr_err g)"
  by (simp_all add: returns_def case_prod_unfold Let_def errgroup_result)

subsection \<open>The invariant of a run\<close>

text \<open>
  Three parts: the goroutines and the context, the stopper and its servers, and the error.  Before the
  context ends nothing has happened.
\<close>

definition live_ok :: "process_group \<Rightarrow> group_event list \<Rightarrow> group \<Rightarrow> bool" where
  "live_ok p es g \<longleftrightarrow> set (gr_live g) \<subseteq> set (pg_start p) \<and> distinct (gr_live g) \<and>
     (if es = [] then g = group_start p
      else gr_ended g \<and> (hd es = Signalled \<or> (\<exists>x err. hd es = ServeFailed x err)))"

definition stopper_ok :: "process_group \<Rightarrow> group_event list \<Rightarrow> group \<Rightarrow> bool" where
  "stopper_ok p es g \<longleftrightarrow> gr_called g @ gr_open g = pg_shutdowns p \<and> gr_called g = shut_down es \<and>
     length (gr_results g) + (if gr_busy g = None then 0 else 1) = length (gr_called g) \<and>
     (\<forall>x e. ShutdownReturned x e \<in> set es \<longrightarrow> e \<in> set (gr_results g)) \<and>
     (if Stopper \<in> set (gr_live g) then (\<forall>r. StopperReturned r \<notin> set es)
      else gr_open g = [] \<and> gr_busy g = None \<and> StopperReturned (pg_join p (gr_results g)) \<in> set es)"

definition error_ok :: "group_event list \<Rightarrow> group \<Rightarrow> bool" where
  "error_ok es g \<longleftrightarrow> gr_err g = first_some event_error es \<and> (gr_err g \<noteq> None \<longrightarrow> gr_ended g)"

lemma live_step:
  assumes "group_step eg p g e g'" "errgroup_contract eg" "well_formed p" "live_ok p es g"
  shows "live_ok p (es @ [e]) g'"
  using assms
  by cases (auto simp: live_ok_def returns_simps well_formed_def group_start_def dest: notin_set_remove1
    split: if_splits)

lemma stopper_step:
  assumes "group_step eg p g e g'" "errgroup_contract eg" "stopper_ok p es g" "distinct (gr_live g)"
  shows "stopper_ok p (es @ [e]) g'"
  using assms(1)
proof cases
  case (shutdown_returns x result)
  with assms(3) have "Stopper \<in> set (gr_live g)" by (auto simp: stopper_ok_def split: if_splits)
  with shutdown_returns assms(3) show ?thesis by (auto simp: stopper_ok_def)
qed (use assms(2-) in \<open>auto simp: stopper_ok_def returns_simps split: if_splits\<close>)

lemma error_step:
  assumes "group_step eg p g e g'" "errgroup_contract eg" "well_formed p" "error_ok es g"
  shows "error_ok (es @ [e]) g'"
  using assms(1)
  by cases (use assms(2-) in \<open>auto simp: error_ok_def returns_simps first_some_append well_formed_def
    split: option.splits\<close>)

lemma step_left: "group_step eg p g e g' \<Longrightarrow> errgroup_contract eg \<Longrightarrow> left g' < left g"
  by (erule group_stepE) (auto simp: left_def returns_simps length_remove1 dest: length_pos_if_in_set)

lemma run_ok:
  assumes "group_run eg p es g" "errgroup_contract eg" "well_formed p"
  shows "live_ok p es g \<and> stopper_ok p es g \<and> error_ok es g \<and> length es + left g \<le> left (group_start p)"
  using assms(1)
proof induction
  case start
  with assms(3) show ?case
    by (auto simp: live_ok_def stopper_ok_def error_ok_def group_start_def well_formed_def)
next
  case (more es g e g')
  with live_step [OF more(2) assms(2,3)] stopper_step [OF more(2) assms(2)] error_step [OF more(2) assms(2,3)]
    step_left [OF more(2) assms(2)]
  show ?case by (auto simp: live_ok_def)
qed

lemma all_called:
  assumes "stopper_ok p es g" "Stopper \<notin> set (gr_live g)"
  shows "gr_called g = pg_shutdowns p" "shut_down es = pg_shutdowns p"
proof -
  from assms have "gr_called g @ [] = pg_shutdowns p" "gr_called g = shut_down es" by (auto simp: stopper_ok_def)
  then show "gr_called g = pg_shutdowns p" "shut_down es = pg_shutdowns p" by simp_all
qed

lemma step_possible:
  assumes ok: "live_ok p es g" "stopper_ok p es g" "well_formed p" and live: "gr_ended g" "gr_live g \<noteq> []"
  shows "\<exists>e g'. group_step eg p g e g'"
proof (cases "Stopper \<in> set (gr_live g)")
  case True
  then show ?thesis
    using live group_step.calls_shutdown [of g _ _ eg p] group_step.shutdown_returns [of g _ eg p]
      group_step.stopper_returns [of g eg p]
    by (cases "gr_busy g"; cases "gr_open g") blast+
next
  case False
  then have called: "gr_called g = pg_shutdowns p" by (rule all_called [OF ok(2)])
  from False live(2) obtain x where "Loop x \<in> set (gr_live g) \<or> Serving x \<in> set (gr_live g)"
    by (metis goroutine.exhaust list.set_intros(1) neq_Nil_conv)
  moreover have "x \<in> set (gr_called g)" if "Serving x \<in> set (gr_live g)"
    using that ok(1,3) called by (auto simp: live_ok_def well_formed_def)
  ultimately show ?thesis
    using live(1) group_step.loop_stops [of g x eg p] group_step.serve_closes [of x g eg p] by blast
qed

subsection \<open>The group winds down\<close>

text \<open>
  C39: The servers stop.  A run of the goroutines of the relay or of the api is finite: at most one step
  for each goroutine, two for each shutdown, and the signal.  Nothing happens before the process is told
  to stop or a listener fails.  From then on a run can only come to its end with every goroutine
  returned, so \<open>g.Wait()\<close> returns, and then every server that was started has been shut down, in the
  order of the code.  The error it returns is that of the first goroutine that failed: a listener that
  fails takes the whole process down with its own error, and a shutdown that fails is not reported as
  success.
\<close>

theorem servers_wind_down:
  assumes "errgroup_contract eg" "p = relay_group \<or> p = api_group" "group_run eg p es g"
  shows "length es \<le> length (pg_start p) + 2 * length (pg_shutdowns p) + 1 \<and>
    (es \<noteq> [] \<longrightarrow> gr_ended g \<and> (hd es = Signalled \<or> (\<exists>x err. hd es = ServeFailed x err))) \<and>
    (es \<noteq> [] \<and> (\<forall>e g'. \<not> group_step eg p g e g') \<longrightarrow> gr_live g = []) \<and>
    (gr_live g = [] \<longrightarrow> shut_down es = pg_shutdowns p \<and>
       (\<forall>x. Serving x \<in> set (pg_start p) \<longrightarrow> x \<in> set (shut_down es))) \<and>
    gr_err g = first_some event_error es \<and>
    (\<forall>x err. gr_live g = [] \<and> ShutdownReturned x (Some err) \<in> set es \<longrightarrow> gr_err g \<noteq> None)"
proof -
  have wf: "well_formed p" using assms(2) relay_well_formed api_well_formed by blast
  note ok = run_ok [OF assms(3,1) wf]
  have "left (group_start p) = length (pg_start p) + 2 * length (pg_shutdowns p) + 1"
    by (simp add: left_def group_start_def)
  with ok have len: "length es \<le> length (pg_start p) + 2 * length (pg_shutdowns p) + 1" by linarith
  have ended: "gr_ended g \<and> (hd es = Signalled \<or> (\<exists>x err. hd es = ServeFailed x err))" if "es \<noteq> []"
    using ok that by (simp add: live_ok_def)
  have all: "gr_live g = []" if "es \<noteq> []" "\<forall>e g'. \<not> group_step eg p g e g'"
    using step_possible [of p es g eg] ok ended that wf by blast
  have down: "shut_down es = pg_shutdowns p" if "gr_live g = []"
    using ok that all_called(2) [of p es g] by simp
  have reported: "gr_err g \<noteq> None" if "gr_live g = []" "ShutdownReturned x (Some err) \<in> set es" for x err
  proof -
    from ok that have r: "Some err \<in> set (gr_results g)" "StopperReturned (pg_join p (gr_results g)) \<in> set es"
      "length (gr_results g) = length (pg_shutdowns p)"
      by (auto simp: stopper_ok_def dest: arg_cong [where f = length])
    with wf have "pg_join p (gr_results g) \<noteq> None" unfolding well_formed_def by blast
    then have "event_error (StopperReturned (pg_join p (gr_results g))) \<noteq> None" by simp
    with r(2) have "\<not> (\<forall>e \<in> set es. event_error e = None)" by metis
    then have "first_some event_error es \<noteq> None" unfolding first_some_None_iff .
    with ok show ?thesis by (simp add: error_ok_def)
  qed
  from len ended all down reported ok wf show ?thesis by (auto simp: well_formed_def error_ok_def)
qed

text \<open>The witness: the admin listener of the relay fails, and the relay winds down with that error.\<close>

definition first_error :: errgroup where
  "first_error result s =
     (case (result, s) of (Some err, (ended, None)) \<Rightarrow> (True, Some err) | _ \<Rightarrow> s)"

definition failing_run :: "group_event list" where
  "failing_run = [ServeFailed ''admin'' (Ext ''in use''), LoopReturned ''relay'', ShutdownCalled ''admin'',
     LoopReturned ''purge'', ShutdownReturned ''admin'' None, StopperReturned None]"

lemma servers_wind_down_witness:
  "\<exists>g. group_run first_error relay_group failing_run g \<and> gr_live g = [] \<and>
     gr_err g = Some (wrapf ''admin listener'' (Ext ''in use'')) \<and> shut_down failing_run = [''admin'']"
proof -
  have c: "errgroup_contract first_error" by (auto simp: errgroup_contract_def first_error_def split: option.split)
  note [simp] = group_start_def relay_group_def returns_def first_error_def listen_result_def ErrServerClosed_def
  have stop: "group_step first_error relay_group g (StopperReturned r) (returns first_error Stopper r g)"
    if "gr_ended g" "Stopper \<in> set (gr_live g)" "gr_busy g = None" "gr_open g = []" "r = pg_join relay_group (gr_results g)"
    for g r
    unfolding that(5) using that(1-4) by (rule group_step.stopper_returns)
  have "\<exists>g. group_run first_error relay_group ([] @ [ServeFailed ''admin'' (Ext ''in use'')] @ [LoopReturned ''relay''] @
      [ShutdownCalled ''admin''] @ [LoopReturned ''purge''] @ [ShutdownReturned ''admin'' None] @
      [StopperReturned None]) g \<and> gr_live g = []"
    unfolding append_assoc [symmetric]
    by (intro exI conjI group_run.more, (rule group_run.start group_step.serve_fails group_step.loop_stops
        group_step.calls_shutdown group_step.shutdown_returns stop; simp)+, simp)
  then obtain g where g: "group_run first_error relay_group failing_run g" "gr_live g = []"
    by (auto simp: failing_run_def)
  from servers_wind_down [OF c disjI1 [OF refl] g(1)] g show ?thesis
    by (auto simp: failing_run_def relay_group_def)
qed

end
