(* ===== verification/PgTest.thy ===== *)
theory PgTest
  imports Platform Migrations
begin

text \<open>
  The fixture of the integration tests on PostgreSQL, \<open>internal/platform/pgtest\<close>: one container per
  test binary with both databases, each migrated once, and emptied for every test.  The container, the
  drivers and \<open>goose\<close> are a record of operations on the world \<open>'w\<close>, with containers \<open>'c\<close>, database
  handles \<open>'d\<close>, pool configurations \<open>'k\<close> and pools \<open>'p\<close>.  \<open>t.Fatalf\<close> ends the test with its message,
  an \<open>Inl\<close>.
\<close>

subsection \<open>What the fixture calls\<close>

datatype pg_option = WithDatabase string | WithUsername string | WithPassword string | BasicWaitStrategies

record ('w, 'c, 'd, 'k, 'p, 'a) pg_deps =
  pgd_Run :: "string \<Rightarrow> pg_option list \<Rightarrow> ('w, gerr + 'c) act"
  pgd_Host :: "'c \<Rightarrow> ('w, gerr + string) act"
  pgd_MappedPort :: "'c \<Rightarrow> string \<Rightarrow> ('w, gerr + string) act"
  pgd_Open :: "string \<Rightarrow> ('w, gerr + 'd) act"
  pgd_ExecDB :: "'d \<Rightarrow> string \<Rightarrow> ('w, gerr option) act"
  pgd_CloseDB :: "'d \<Rightarrow> ('w, gerr option) act"
  pgd_goose :: "('w, 'd) goose"
  pgd_files :: "string \<Rightarrow> string list"
  pgd_pgxpool :: "('w, 'k, 'p) pgxpool"
  pgd_Exec :: "'p \<Rightarrow> string \<Rightarrow> 'a list \<Rightarrow> ('w, gerr option) act"
  pgd_QueryCount :: "'p \<Rightarrow> string \<Rightarrow> ('w, gerr + int) act"

definition pg_image :: string where "pg_image = ''postgres:18.6''"
definition poolMaxConns :: int where "poolMaxConns = 4"

record 'p database =
  db_dsn :: string
  db_pool :: 'p

subsection \<open>\<open>sync.OnceValues\<close>\<close>

text \<open>The first call runs the function, every later one answers what it returned, error or not.\<close>

definition once ::
    "('s \<Rightarrow> 'a option) \<Rightarrow> ('a \<Rightarrow> 's \<Rightarrow> 's) \<Rightarrow> ('s, 'a) act \<Rightarrow> ('s, 'a) act" where
  "once get put f s =
     (case get s of
        Some x \<Rightarrow> (x, s)
      | None \<Rightarrow> (let (x, s) = f s in (x, put x s)))"

text \<open>The package's variables beside the world.\<close>

record ('w, 'c, 'p) pg_tests =
  pt_instance :: "(gerr + 'c) option"
  pt_accounts :: "(gerr + 'p database) option"
  pt_notifications :: "(gerr + 'p database) option"
  pt_world :: 'w

definition in_world :: "('w, 'a) act \<Rightarrow> (('w, 'c, 'p) pg_tests, 'a) act" where
  "in_world f s = (let (x, w) = f (pt_world s) in (x, s\<lparr>pt_world := w\<rparr>))"

subsection \<open>The container and the databases\<close>

definition test_dsnFor ::
    "('w, 'c, 'd, 'k, 'p, 'a) pg_deps \<Rightarrow> 'c \<Rightarrow> string \<Rightarrow> ('w, gerr + string) act" where
  "test_dsnFor d ctr database w =
     (case pgd_Host d ctr w of
        (Inl err, w) \<Rightarrow> (Inl (wrapf ''pgtest: host'' err), w)
      | (Inr host, w) \<Rightarrow>
          (case pgd_MappedPort d ctr ''5432/tcp'' w of
             (Inl err, w) \<Rightarrow> (Inl (wrapf ''pgtest: mapped port'' err), w)
           | (Inr port, w) \<Rightarrow>
               (Inr (''postgres://oe:oe@'' @ host @ '':'' @ port @ ''/'' @ database @ ''?sslmode=disable''), w)))"

definition startInstance :: "('w, 'c, 'd, 'k, 'p, 'a) pg_deps \<Rightarrow> ('w, gerr + 'c) act" where
  "startInstance d w =
     (case pgd_Run d pg_image [WithDatabase ''oe_accounts'', WithUsername ''oe'', WithPassword ''oe'',
         BasicWaitStrategies] w of
        (Inl err, w) \<Rightarrow> (Inl (wrapf (''pgtest: start '' @ pg_image) err), w)
      | (Inr ctr, w) \<Rightarrow>
          (case test_dsnFor d ctr ''oe_accounts'' w of
             (Inl err, w) \<Rightarrow> (Inl err, w)
           | (Inr adminDSN, w) \<Rightarrow>
               (case pgd_Open d adminDSN w of
                  (Inl err, w) \<Rightarrow> (Inl (wrapf ''pgtest: open admin connection'' err), w)
                | (Inr admin, w) \<Rightarrow>
                    (case pgd_ExecDB d admin ''CREATE DATABASE oe_notifications'' w of
                       (Some err, w) \<Rightarrow>
                         (Inl (wrapf ''pgtest: create oe_notifications'' err), snd (pgd_CloseDB d admin w))
                     | (None, w) \<Rightarrow> (Inr ctr, snd (pgd_CloseDB d admin w))))))"

definition pg_instance ::
    "('w, 'c, 'd, 'k, 'p, 'a) pg_deps \<Rightarrow> (('w, 'c, 'p) pg_tests, gerr + 'c) act" where
  "pg_instance d = once pt_instance (\<lambda>x s. s\<lparr>pt_instance := Some x\<rparr>) (in_world (startInstance d))"

text \<open>
  \<open>open\<close> behind the container.  The migration's connection is closed whether the migration succeeded
  or not, and the migration's error comes first.
\<close>

definition open_database ::
    "('w, 'c, 'd, 'k, 'p, 'a) pg_deps \<Rightarrow> string \<Rightarrow> string \<Rightarrow> 'c \<Rightarrow> ('w, gerr + 'p database) act" where
  "open_database d c database ctr w =
     (case test_dsnFor d ctr database w of
        (Inl err, w) \<Rightarrow> (Inl err, w)
      | (Inr dsn, w) \<Rightarrow>
          (case pgd_Open d dsn w of
             (Inl err, w) \<Rightarrow> (Inl (wrapf (''pgtest: open '' @ database) err), w)
           | (Inr db, w) \<Rightarrow>
               (let (err, w) = Apply (pgd_goose d) (pgd_files d) db c w;
                    (closeErr, w) = pgd_CloseDB d db w
                in case err of
                     Some err \<Rightarrow> (Inl (wrapf (''pgtest: migrate '' @ database) err), w)
                   | None \<Rightarrow>
                       (case closeErr of
                          Some err \<Rightarrow> (Inl (wrapf ''pgtest: close migration connection'' err), w)
                        | None \<Rightarrow>
                            (case NewPool (pgd_pgxpool d) (DefaultPoolConfig dsn poolMaxConns) w of
                               (Inl err, w) \<Rightarrow> (Inl (wrapf (''pgtest: pool for '' @ database) err), w)
                             | (Inr pool, w) \<Rightarrow> (Inr \<lparr>db_dsn = dsn, db_pool = pool\<rparr>, w))))))"

definition pg_open ::
    "('w, 'c, 'd, 'k, 'p, 'a) pg_deps \<Rightarrow> string \<Rightarrow> string \<Rightarrow> (('w, 'c, 'p) pg_tests, gerr + 'p database) act" where
  "pg_open d c database s =
     (case pg_instance d s of
        (Inl err, s) \<Rightarrow> (Inl err, s)
      | (Inr ctr, s) \<Rightarrow> in_world (open_database d c database ctr) s)"

definition accountsDB ::
    "('w, 'c, 'd, 'k, 'p, 'a) pg_deps \<Rightarrow> (('w, 'c, 'p) pg_tests, gerr + 'p database) act" where
  "accountsDB d = once pt_accounts (\<lambda>x s. s\<lparr>pt_accounts := Some x\<rparr>) (pg_open d Accounts ''oe_accounts'')"

definition notificationsDB ::
    "('w, 'c, 'd, 'k, 'p, 'a) pg_deps \<Rightarrow> (('w, 'c, 'p) pg_tests, gerr + 'p database) act" where
  "notificationsDB d =
     once pt_notifications (\<lambda>x s. s\<lparr>pt_notifications := Some x\<rparr>) (pg_open d Notifications ''oe_notifications'')"

subsection \<open>What a test calls\<close>

fun comma_joined :: "string list \<Rightarrow> string" where
  "comma_joined [] = []"
| "comma_joined [x] = x"
| "comma_joined (x # y # ys) = x @ '', '' @ comma_joined (y # ys)"

definition Truncate ::
    "('w, 'c, 'd, 'k, 'p, 'a) pg_deps \<Rightarrow> 'p \<Rightarrow> string list \<Rightarrow> ('w, string + unit) act" where
  "Truncate d pool tables w =
     (if tables = [] then (Inr (), w)
      else (case pgd_Exec d pool (''TRUNCATE '' @ comma_joined tables @ '' RESTART IDENTITY'') [] w of
          (Some err, w) \<Rightarrow> (Inl (''pgtest: truncate: '' @ error_text err), w)
        | (None, w) \<Rightarrow> (Inr (), w)))"

definition TruncateAccounts :: "('w, 'c, 'd, 'k, 'p, 'a) pg_deps \<Rightarrow> 'p \<Rightarrow> ('w, string + unit) act" where
  "TruncateAccounts d pool = Truncate d pool [''accounts.outbox'', ''accounts.users'']"

definition test_Accounts ::
    "('w, 'c, 'd, 'k, 'p, 'a) pg_deps \<Rightarrow> (('w, 'c, 'p) pg_tests, string + string \<times> 'p) act" where
  "test_Accounts d s =
     (case accountsDB d s of
        (Inl err, s) \<Rightarrow> (Inl (''pgtest: '' @ error_text err), s)
      | (Inr db, s) \<Rightarrow>
          (case in_world (TruncateAccounts d (db_pool db)) s of
             (Inl fatal, s) \<Rightarrow> (Inl fatal, s)
           | (Inr _, s) \<Rightarrow> (Inr (db_dsn db, db_pool db), s)))"

definition test_Notifications ::
    "('w, 'c, 'd, 'k, 'p, 'a) pg_deps \<Rightarrow> (('w, 'c, 'p) pg_tests, string + string \<times> 'p) act" where
  "test_Notifications d s =
     (case notificationsDB d s of
        (Inl err, s) \<Rightarrow> (Inl (''pgtest: '' @ error_text err), s)
      | (Inr db, s) \<Rightarrow>
          (case in_world (Truncate d (db_pool db)
               [''notifications.outbox'', ''notifications.notifications'', ''notifications.inbox'']) s of
             (Inl fatal, s) \<Rightarrow> (Inl fatal, s)
           | (Inr _, s) \<Rightarrow> (Inr (db_dsn db, db_pool db), s)))"

definition CountAccounts :: "('w, 'c, 'd, 'k, 'p, 'a) pg_deps \<Rightarrow> 'p \<Rightarrow> ('w, string + int \<times> int) act" where
  "CountAccounts d pool w =
     (case pgd_QueryCount d pool ''SELECT count(*) FROM accounts.users'' w of
        (Inl err, w) \<Rightarrow> (Inl (''pgtest: count users: '' @ error_text err), w)
      | (Inr users, w) \<Rightarrow>
          (case pgd_QueryCount d pool ''SELECT count(*) FROM accounts.outbox'' w of
             (Inl err, w) \<Rightarrow> (Inl (''pgtest: count outbox: '' @ error_text err), w)
           | (Inr outbox, w) \<Rightarrow> (Inr (users, outbox), w)))"

definition MustExec ::
    "('w, 'c, 'd, 'k, 'p, 'a) pg_deps \<Rightarrow> 'p \<Rightarrow> string \<Rightarrow> 'a list \<Rightarrow> ('w, string + unit) act" where
  "MustExec d pool sql args w =
     (case pgd_Exec d pool sql args w of
        (Some err, w) \<Rightarrow> (Inl (''pgtest: exec '' @ fmt_q sql @ '': '' @ error_text err), w)
      | (None, w) \<Rightarrow> (Inr (), w))"

subsection \<open>One container, and no connection left open\<close>


text \<open>However often it is asked for, the container is started once; a start that failed is not tried again.\<close>

lemma instance_is_started_once:
  assumes "pg_instance d s0 = (x, s)"
  shows "pg_instance d s = (x, s)"
  using assms by (auto simp: pg_instance_def once_def split: option.splits prod.splits)

lemma accounts_are_opened_once:
  assumes "accountsDB d s0 = (x, s)"
  shows "accountsDB d s = (x, s)"
  using assms by (auto simp: accountsDB_def once_def split: option.splits prod.splits)

text \<open>
  \<open>opened\<close> counts the open database handles: opening one that succeeds adds one, closing takes one
  away, nothing else changes the count.  Then the start and the migration leave none behind.
\<close>

definition handle_accounting :: "('w, 'c, 'd, 'k, 'p, 'a) pg_deps \<Rightarrow> ('w \<Rightarrow> int) \<Rightarrow> bool" where
  "handle_accounting d opened \<longleftrightarrow>
     (\<forall>dsn w. opened (snd (pgd_Open d dsn w)) =
        (case fst (pgd_Open d dsn w) of Inl _ \<Rightarrow> opened w | Inr _ \<Rightarrow> opened w + 1)) \<and>
     (\<forall>db w. opened (snd (pgd_CloseDB d db w)) = opened w - 1) \<and>
     (\<forall>db sql w. opened (snd (pgd_ExecDB d db sql w)) = opened w) \<and>
     (\<forall>i os w. opened (snd (pgd_Run d i os w)) = opened w) \<and>
     (\<forall>c w. opened (snd (pgd_Host d c w)) = opened w) \<and>
     (\<forall>c p w. opened (snd (pgd_MappedPort d c p w)) = opened w) \<and>
     (\<forall>c db w. opened (snd (Apply (pgd_goose d) (pgd_files d) db c w)) = opened w) \<and>
     (\<forall>c w. opened (snd (NewPool (pgd_pgxpool d) c w)) = opened w)"

lemma handle_accountingD:
  assumes "handle_accounting d opened"
  shows "pgd_Open d dsn w = (Inl e, w') \<Longrightarrow> opened w' = opened w"
    "pgd_Open d dsn w = (Inr db, w') \<Longrightarrow> opened w' = opened w + 1"
    "opened (snd (pgd_CloseDB d db w)) = opened w - 1"
    "pgd_CloseDB d db w = (e', w') \<Longrightarrow> opened w' = opened w - 1"
    "pgd_ExecDB d db sql w = (e', w') \<Longrightarrow> opened w' = opened w"
    "pgd_Run d i os w = (c', w') \<Longrightarrow> opened w' = opened w"
    "pgd_Host d c w = (h, w') \<Longrightarrow> opened w' = opened w"
    "pgd_MappedPort d c p w = (h, w') \<Longrightarrow> opened w' = opened w"
    "Apply (pgd_goose d) (pgd_files d) db k w = (e', w') \<Longrightarrow> opened w' = opened w"
    "NewPool (pgd_pgxpool d) pc w = (po, w') \<Longrightarrow> opened w' = opened w"
  using assms unfolding handle_accounting_def by (metis fst_conv snd_conv sum.case)+

lemma dsnFor_count:
  assumes "handle_accounting d opened" "test_dsnFor d ctr database w = (x, w')"
  shows "opened w' = opened w"
  using assms(2) handle_accountingD(7,8) [OF assms(1)]
  by (fastforce simp: test_dsnFor_def split: prod.splits sum.splits)

lemma startInstance_count:
  assumes acc: "handle_accounting d opened" and run: "startInstance d w = (x, w')"
  shows "opened w' = opened w"
proof -
  note a = handle_accountingD [OF acc] and n = dsnFor_count [OF acc]
  obtain y w1 where y: "pgd_Run d pg_image [WithDatabase ''oe_accounts'', WithUsername ''oe'', WithPassword ''oe'',
    BasicWaitStrategies] w = (y, w1)" by (metis prod.exhaust)
  show ?thesis
  proof (cases y)
    case (Inl e)
    with run y a(6) [OF y] show ?thesis by (simp add: startInstance_def)
  next
    case ctr: (Inr ctr)
    obtain z w2 where z: "test_dsnFor d ctr ''oe_accounts'' w1 = (z, w2)" by (metis prod.exhaust)
    show ?thesis
    proof (cases z)
      case (Inl e)
      with run y ctr z a(6) [OF y] n [OF z] show ?thesis by (simp add: startInstance_def)
    next
      case dsn: (Inr dsn)
      obtain q w3 where q: "pgd_Open d dsn w2 = (q, w3)" by (metis prod.exhaust)
      show ?thesis
      proof (cases q)
        case (Inl e)
        with run y ctr z dsn q a(6) [OF y] n [OF z] a(1) [of dsn w2 e w3] show ?thesis by (simp add: startInstance_def)
      next
        case (Inr admin)
        obtain e w4 where e: "pgd_ExecDB d admin ''CREATE DATABASE oe_notifications'' w3 = (e, w4)" by (metis prod.exhaust)
        from run y ctr z dsn q Inr e have "w' = snd (pgd_CloseDB d admin w4)"
          by (cases e) (simp_all add: startInstance_def)
        with a(6) [OF y] n [OF z] a(2) [of dsn w2 admin w3] q Inr a(5) [OF e] a(3) show ?thesis by simp
      qed
    qed
  qed
qed

lemma open_database_count:
  assumes acc: "handle_accounting d opened" and run: "open_database d c database ctr w = (x, w')"
  shows "opened w' = opened w"
proof -
  note a = handle_accountingD [OF acc] and n = dsnFor_count [OF acc]
  obtain z w2 where z: "test_dsnFor d ctr database w = (z, w2)" by (metis prod.exhaust)
  show ?thesis
  proof (cases z)
    case (Inl e)
    with run z n [OF z] show ?thesis by (simp add: open_database_def)
  next
    case dsn: (Inr dsn)
    obtain q w3 where q: "pgd_Open d dsn w2 = (q, w3)" by (metis prod.exhaust)
    show ?thesis
    proof (cases q)
      case (Inl e)
      with run z dsn q n [OF z] a(1) [of dsn w2 e w3] show ?thesis by (simp add: open_database_def)
    next
      case (Inr db)
      obtain err w4 where u: "Apply (pgd_goose d) (pgd_files d) db c w3 = (err, w4)" by (metis prod.exhaust)
      obtain cerr w5 where k: "pgd_CloseDB d db w4 = (cerr, w5)" by (metis prod.exhaust)
      obtain p w6 where p: "NewPool (pgd_pgxpool d) (DefaultPoolConfig dsn poolMaxConns) w5 = (p, w6)" by (metis prod.exhaust)
      from run z dsn q Inr u k p have "w' = w5 \<or> w' = w6"
        by (cases err; cases cerr; cases p) (simp_all add: open_database_def)
      with n [OF z] a(2) [of dsn w2 db w3] q Inr a(9) [OF u] a(4) [OF k] a(10) [OF p] show ?thesis by auto
    qed
  qed
qed

text \<open>With no table to empty, nothing is executed.\<close>

lemma Truncate_nothing: "Truncate d pool [] w = (Inr (), w)"
  by (simp add: Truncate_def)

lemma Truncate_accounts:
  "TruncateAccounts d pool w =
     (case pgd_Exec d pool ''TRUNCATE accounts.outbox, accounts.users RESTART IDENTITY'' [] w of
        (Some err, w) \<Rightarrow> (Inl (''pgtest: truncate: '' @ error_text err), w)
      | (None, w) \<Rightarrow> (Inr (), w))"
  by (simp add: TruncateAccounts_def Truncate_def)

end
