(* ===== verification/KafkaTest.thy ===== *)
theory KafkaTest
  imports Platform PgTest
begin

text \<open>
  The fixture of the integration tests on Kafka, \<open>internal/platform/kafkatest\<close>: one broker per test
  binary, which learns its advertised address from a file a hook writes into the running container, a
  topic per test, and the reading back of a topic.  The containers, \<open>kgo\<close> and \<open>kadm\<close> are a record
  of operations on the world \<open>'w\<close>, with containers \<open>'t\<close>, admin clients \<open>'a\<close>, clients \<open>'c\<close> and records
  \<open>'r\<close>.
\<close>

subsection \<open>What the fixture calls\<close>

text \<open>
  The options of \<open>testcontainers.Run\<close>.  The hook runs once the container is running, before the wait
  for the log line.
\<close>

record kafka_request =
  kr_ExposedPorts :: "string list"
  kr_Env :: gomap
  kr_Entrypoint :: "string list"
  kr_Cmd :: "string list"
  kr_WaitForLog :: string
  kr_StartupTimeout :: duration

record ('w, 't, 'a, 'c, 'r) kafka_deps =
  ktd_Run :: "string \<Rightarrow> kafka_request \<Rightarrow> ('t \<Rightarrow> ('w, gerr option) act) \<Rightarrow> ('w, gerr + 't) act"
  ktd_Host :: "'t \<Rightarrow> ('w, gerr + string) act"
  ktd_MappedPort :: "'t \<Rightarrow> string \<Rightarrow> ('w, gerr + string) act"
  ktd_CopyToContainer :: "'t \<Rightarrow> string \<Rightarrow> string \<Rightarrow> int \<Rightarrow> ('w, gerr option) act"
  ktd_NewAdmin :: "string \<Rightarrow> ('w, gerr + 'a) act"
  ktd_CreateTopic :: "'a \<Rightarrow> int \<Rightarrow> int \<Rightarrow> string \<Rightarrow> ('w, gerr option \<times> gerr option) act"
  ktd_NewProducer :: "kgo_opt list \<Rightarrow> gerr + 'c"
  ktd_NewConsumer :: "string \<Rightarrow> string \<Rightarrow> ('w, gerr + 'c) act"
  ktd_PollRecords :: "'c \<Rightarrow> int \<Rightarrow> ('w, gerr option \<times> 'r list) act"
  ktd_Close :: "'c \<Rightarrow> 'w \<Rightarrow> 'w"
  ktd_Cleanup :: "('w \<Rightarrow> 'w) \<Rightarrow> 'w \<Rightarrow> 'w"

definition kafka_image :: string where "kafka_image = ''apache/kafka:4.3.1''"
definition advertisedListenersPath :: string where
  "advertisedListenersPath = ''/tmp/oe-advertised-listeners''"
definition readTimeout :: duration where "readTimeout = 15 * 1000000000"

record ('w, 'a) kafka_tests =
  kt_instance :: "(gerr + string) option"
  kt_adminer :: "(gerr + 'a) option"
  kt_world :: 'w

definition in_kafka :: "('w, 'x) act \<Rightarrow> (('w, 'a) kafka_tests, 'x) act" where
  "in_kafka f s = (let (x, w) = f (kt_world s) in (x, s\<lparr>kt_world := w\<rparr>))"

subsection \<open>The broker\<close>

definition brokerAddress :: "('w, 't, 'a, 'c, 'r) kafka_deps \<Rightarrow> 't \<Rightarrow> ('w, gerr + string) act" where
  "brokerAddress d container w =
     (case ktd_Host d container w of
        (Inl err, w) \<Rightarrow> (Inl (wrapf ''kafkatest: host'' err), w)
      | (Inr host, w) \<Rightarrow>
          (case ktd_MappedPort d container ''9092/tcp'' w of
             (Inl err, w) \<Rightarrow> (Inl (wrapf ''kafkatest: mapped port'' err), w)
           | (Inr port, w) \<Rightarrow> (Inr (host @ '':'' @ port), w)))"

definition advertiseMappedPort :: "('w, 't, 'a, 'c, 'r) kafka_deps \<Rightarrow> 't \<Rightarrow> ('w, gerr option) act" where
  "advertiseMappedPort d container w =
     (case brokerAddress d container w of
        (Inl err, w) \<Rightarrow> (Some err, w)
      | (Inr address, w) \<Rightarrow>
          (let line = ''export KAFKA_ADVERTISED_LISTENERS=PLAINTEXT://'' @ address @
                 '',BROKER://localhost:9094'' @ [CHR 0x0A]
           in case ktd_CopyToContainer d container line advertisedListenersPath 493 w of
                (Some err, w) \<Rightarrow> (Some (wrapf (''kafkatest: advertise '' @ address) err), w)
              | (None, w) \<Rightarrow> (None, w)))"

definition broker_request :: kafka_request where
  "broker_request =
     \<lparr>kr_ExposedPorts = [''9092/tcp''],
      kr_Env =
        [(''KAFKA_NODE_ID'', ''1''),
         (''KAFKA_PROCESS_ROLES'', ''broker,controller''),
         (''KAFKA_LISTENERS'', ''PLAINTEXT://0.0.0.0:9092,BROKER://0.0.0.0:9094,CONTROLLER://0.0.0.0:9093''),
         (''KAFKA_LISTENER_SECURITY_PROTOCOL_MAP'', ''PLAINTEXT:PLAINTEXT,BROKER:PLAINTEXT,CONTROLLER:PLAINTEXT''),
         (''KAFKA_INTER_BROKER_LISTENER_NAME'', ''BROKER''),
         (''KAFKA_CONTROLLER_LISTENER_NAMES'', ''CONTROLLER''),
         (''KAFKA_CONTROLLER_QUORUM_VOTERS'', ''1@localhost:9093''),
         (''KAFKA_OFFSETS_TOPIC_REPLICATION_FACTOR'', ''1''),
         (''KAFKA_TRANSACTION_STATE_LOG_REPLICATION_FACTOR'', ''1''),
         (''KAFKA_TRANSACTION_STATE_LOG_MIN_ISR'', ''1''),
         (''KAFKA_AUTO_CREATE_TOPICS_ENABLE'', ''false''),
         (''KAFKA_GROUP_INITIAL_REBALANCE_DELAY_MS'', ''0'')],
      kr_Entrypoint = [''sh''],
      kr_Cmd = [''-c'', ''while [ ! -f '' @ advertisedListenersPath @ '' ]; do sleep 0.1; done; '' @
         ''. '' @ advertisedListenersPath @ ''; exec /etc/kafka/docker/run''],
      kr_WaitForLog = ''Kafka Server started'', kr_StartupTimeout = 90 * 1000000000\<rparr>"

definition start_broker :: "('w, 't, 'a, 'c, 'r) kafka_deps \<Rightarrow> ('w, gerr + string) act" where
  "start_broker d w =
     (case ktd_Run d kafka_image broker_request (advertiseMappedPort d) w of
        (Inl err, w) \<Rightarrow> (Inl (wrapf (''kafkatest: start '' @ kafka_image) err), w)
      | (Inr container, w) \<Rightarrow> brokerAddress d container w)"

definition kafka_instance ::
    "('w, 't, 'a, 'c, 'r) kafka_deps \<Rightarrow> (('w, 'a) kafka_tests, gerr + string) act" where
  "kafka_instance d = once kt_instance (\<lambda>x s. s\<lparr>kt_instance := Some x\<rparr>) (in_kafka (start_broker d))"

definition adminer :: "('w, 't, 'a, 'c, 'r) kafka_deps \<Rightarrow> (('w, 'a) kafka_tests, gerr + 'a) act" where
  "adminer d = once kt_adminer (\<lambda>x s. s\<lparr>kt_adminer := Some x\<rparr>)
     (\<lambda>s. case kafka_instance d s of
        (Inl err, s) \<Rightarrow> (Inl err, s)
      | (Inr broker, s) \<Rightarrow>
          (case in_kafka (ktd_NewAdmin d broker) s of
             (Inl err, s) \<Rightarrow> (Inl (wrapf ''kafkatest: admin client'' err), s)
           | (Inr client, s) \<Rightarrow> (Inr client, s)))"

definition Broker :: "('w, 't, 'a, 'c, 'r) kafka_deps \<Rightarrow> (('w, 'a) kafka_tests, string + string) act" where
  "Broker d s =
     (case kafka_instance d s of
        (Inl err, s) \<Rightarrow> (Inl (''kafkatest: '' @ error_text err), s)
      | (Inr broker, s) \<Rightarrow> (Inr broker, s))"

text \<open>The producer is the one of production; the test closes it when it ends.\<close>

definition Producer :: "('w, 't, 'a, 'c, 'r) kafka_deps \<Rightarrow> (('w, 'a) kafka_tests, string + 'c) act" where
  "Producer d s =
     (case Broker d s of
        (Inl fatal, s) \<Rightarrow> (Inl fatal, s)
      | (Inr broker, s) \<Rightarrow>
          (case NewProducer (ktd_NewProducer d) (DefaultProducerConfig [broker]) of
             Inl err \<Rightarrow> (Inl (''kafkatest: producer: '' @ error_text err), s)
           | Inr client \<Rightarrow> (Inr client, snd (in_kafka (\<lambda>w. ((), ktd_Cleanup d (ktd_Close d client) w)) s))))"

subsection \<open>Topics\<close>

definition topic_char :: "char \<Rightarrow> bool" where
  "topic_char r \<longleftrightarrow> r = CHR ''.'' \<or> r = CHR ''_'' \<or> r = CHR ''-'' \<or>
     CHR ''a'' \<le> r \<and> r \<le> CHR ''z'' \<or> CHR ''A'' \<le> r \<and> r \<le> CHR ''Z'' \<or> CHR ''0'' \<le> r \<and> r \<le> CHR ''9''"

text \<open>\<open>strings.Map\<close> goes rune by rune; a byte that is not UTF-8 is one rune.\<close>

function topic_runes :: "string \<Rightarrow> string" where
  "topic_runes s =
     (case s of
        [] \<Rightarrow> []
      | c # cs \<Rightarrow>
          (if ascii c then (if topic_char c then c else CHR ''-'') # topic_runes cs
           else CHR ''-'' # topic_runes (drop (rune_size s) s)))"
  by pat_completeness auto
termination
  by (relation "measure length") (auto simp: rune_size_pos)

declare topic_runes.simps [simp del]

definition topicName :: "string \<Rightarrow> string" where
  "topicName name = ''test.'' @ topic_runes name"

definition Topic ::
    "('w, 't, 'a, 'c, 'r) kafka_deps \<Rightarrow> string \<Rightarrow> int \<Rightarrow> (('w, 'a) kafka_tests, string + string) act" where
  "Topic d test partitions s =
     (let name = topicName test
      in case adminer d s of
           (Inl err, s) \<Rightarrow> (Inl (''kafkatest: '' @ error_text err), s)
         | (Inr admin, s) \<Rightarrow>
             (case in_kafka (ktd_CreateTopic d admin partitions 1 name) s of
                ((Some err, _), s) \<Rightarrow> (Inl (''kafkatest: create topic '' @ name @ '': '' @ error_text err), s)
              | ((None, Some err), s) \<Rightarrow> (Inl (''kafkatest: create topic '' @ name @ '': '' @ error_text err), s)
              | ((None, None), s) \<Rightarrow> (Inr name, s)))"

subsection \<open>Reading a topic back\<close>

text \<open>The loop may wait for ever on a client that returns neither records nor an error.\<close>

partial_function (option) records_loop ::
    "(int \<Rightarrow> ('w, gerr option \<times> 'r list) act) \<Rightarrow> string \<Rightarrow> int \<Rightarrow> 'r list \<Rightarrow> 'w \<Rightarrow> ((string + 'r list) \<times> 'w) option" where
  "records_loop poll topic want got w =
     (if int (length got) < want then
        (case poll (want - int (length got)) w of
           ((Some err, _), w) \<Rightarrow>
             Some (Inl (''kafkatest: read '' @ topic @ '': got '' @ Itoa (int (length got)) @ '' of '' @ Itoa want @
               '' records: '' @ error_text err), w)
         | ((None, fetched), w) \<Rightarrow> records_loop poll topic want (got @ fetched) w)
      else Some (Inr got, w))"

definition Records ::
    "('w, 't, 'a, 'c, 'r) kafka_deps \<Rightarrow> string \<Rightarrow> int \<Rightarrow> ('w, 'a) kafka_tests \<Rightarrow>
     ((string + 'r list) \<times> ('w, 'a) kafka_tests) option" where
  "Records d topic want s =
     (case Broker d s of
        (Inl fatal, s) \<Rightarrow> Some (Inl fatal, s)
      | (Inr broker, s) \<Rightarrow>
          (case in_kafka (ktd_NewConsumer d broker topic) s of
             (Inl err, s) \<Rightarrow> Some (Inl (''kafkatest: consumer: '' @ error_text err), s)
           | (Inr client, s) \<Rightarrow>
               map_option (\<lambda>(x, w). (x, s\<lparr>kt_world := ktd_Close d client w\<rparr>))
                 (records_loop (ktd_PollRecords d client) topic want [] (kt_world s))))"

subsection \<open>What the fixture promises\<close>

text \<open>Every topic name is one Kafka accepts, and a legal test name is kept.\<close>

lemma topicName_legal: "list_all topic_char (topicName name)"
proof -
  have "list_all topic_char (topic_runes s)" for s
  proof (induction s rule: topic_runes.induct)
    case (1 s)
    have "topic_char (CHR ''-'')" by (simp add: topic_char_def)
    with 1 show ?case by (subst topic_runes.simps) (auto split: list.split)
  qed
  moreover have "list_all topic_char ''test.''" by code_simp
  ultimately show ?thesis by (simp add: topicName_def)
qed

lemma topic_char_ascii: "topic_char c \<Longrightarrow> ascii c"
proof -
  have z: "byte (CHR ''z'') < 128" "byte (CHR ''Z'') < 128" "byte (CHR ''9'') < 128" by code_simp+
  assume "topic_char c"
  then show "ascii c" using z
    by (auto simp: topic_char_def ascii_def less_eq_char_def intro: le_less_trans)
qed

lemma topicName_keeps: "list_all topic_char name \<Longrightarrow> topicName name = ''test.'' @ name"
proof -
  have "list_all topic_char s \<Longrightarrow> topic_runes s = s" for s
    by (induction s) (auto simp: topic_runes.simps [of "_ # _"] topic_runes.simps [of "[]"] topic_char_ascii)
  then show "list_all topic_char name \<Longrightarrow> topicName name = ''test.'' @ name" by (simp add: topicName_def)
qed

text \<open>
  What the documentation says of \<open>PollRecords\<close>: it answers with an error, which the end of the context
  is, or with at least one record, and at most as many as asked for.  Then reading back ends, and a
  test gets exactly the number of records it wants, in the order of the polls.
\<close>

definition polls_well :: "(int \<Rightarrow> ('w, gerr option \<times> 'r list) act) \<Rightarrow> bool" where
  "polls_well poll \<longleftrightarrow> (\<forall>n w w' rs. 0 < n \<longrightarrow> poll n w = ((None, rs), w') \<longrightarrow> rs \<noteq> [] \<and> int (length rs) \<le> n)"

lemma records_loop_ends:
  assumes poll: "polls_well poll" and le: "int (length got) \<le> max want 0"
  shows "\<exists>x w'. records_loop poll topic want got w = Some (x, w') \<and>
    (\<forall>rs. x = Inr rs \<longrightarrow> prefix got rs \<and> int (length rs) = max want 0)"
  using le
proof (induction "nat (want - int (length got))" arbitrary: got w rule: less_induct)
  case less
  show ?case
  proof (cases "int (length got) < want")
    case True
    obtain err rs v where p: "poll (want - int (length got)) w = ((err, rs), v)" by (metis prod.exhaust)
    show ?thesis
    proof (cases err)
      case (Some e)
      with True p show ?thesis by (simp add: records_loop.simps [of poll topic want got])
    next
      case None
      with poll [unfolded polls_well_def, rule_format, of "want - int (length got)" w rs v] p True
      have rs: "rs \<noteq> []" "int (length rs) \<le> want - int (length got)" by simp_all
      then have "nat (want - int (length (got @ rs))) < nat (want - int (length got))"
        "int (length (got @ rs)) \<le> max want 0" using True by (cases rs; simp)+
      from less(1) [OF this, of v] obtain x w' where ih: "records_loop poll topic want (got @ rs) v = Some (x, w')"
        "\<forall>ts. x = Inr ts \<longrightarrow> prefix (got @ rs) ts \<and> int (length ts) = max want 0" by blast
      moreover have "records_loop poll topic want got w = records_loop poll topic want (got @ rs) v"
        using True p None by (simp add: records_loop.simps [of poll topic want got])
      ultimately show ?thesis by (auto intro: append_prefixD)
    qed
  next
    case False
    with less.prems show ?thesis by (auto simp: records_loop.simps [of poll topic want got])
  qed
qed

lemma Records_ends:
  assumes "\<And>c. polls_well (ktd_PollRecords d c)"
  shows "\<exists>x s'. Records d topic want s = Some (x, s') \<and> (\<forall>rs. x = Inr rs \<longrightarrow> int (length rs) = max want 0)"
proof -
  obtain b s1 where b: "Broker d s = (b, s1)" by (metis prod.exhaust)
  show ?thesis
  proof (cases b)
    case (Inl e)
    with b show ?thesis by (simp add: Records_def)
  next
    case broker: (Inr broker)
    obtain c s2 where c: "in_kafka (ktd_NewConsumer d broker topic) s1 = (c, s2)" by (metis prod.exhaust)
    show ?thesis
    proof (cases c)
      case (Inl e)
      with b broker c show ?thesis by (simp add: Records_def)
    next
      case (Inr client)
      from records_loop_ends [OF assms, of "[]" want client topic "kt_world s2"] obtain x w' where
        "records_loop (ktd_PollRecords d client) topic want [] (kt_world s2) = Some (x, w')"
        "\<forall>rs. x = Inr rs \<longrightarrow> prefix [] rs \<and> int (length rs) = max want 0" by auto
      with b broker c Inr show ?thesis by (simp add: Records_def)
    qed
  qed
qed

text \<open>The broker is started once, however often its address is asked for.\<close>

lemma broker_is_started_once:
  assumes "kafka_instance d s0 = (x, s)"
  shows "kafka_instance d s = (x, s)"
  using assms by (auto simp: kafka_instance_def once_def split: option.splits prod.splits)

end
