(* ===== verification/Spec2Isabelle.thy ===== *)
theory Spec2Isabelle
  imports RelayProperties HttpProperties Drain Wiring System SecondRelay PassEnds ServiceLiveness Ordering EndToEnd Group KafkaTest
begin

text \<open>
  A verification of \<^emph>\<open>outboxexpress\<close>, a Go implementation of the transactional outbox: \<open>POST /users\<close>
  writes a user and its event in one PostgreSQL transaction, and a relay process publishes the
  stored events to Kafka.

  \<^bold>\<open>Parts of the program and how they interact.\<close>  The write path goes from the HTTP handler through
  the use case \<open>RegisterUser\<close> to the unit of work, which saves the aggregate, drains its events from
  the tracker, turns them into CloudEvents and appends them to the table \<open>accounts.outbox\<close>; behind
  the commit it sends a notification.  The relay loop waits for that notification or for its timer,
  and then runs one pass: in one transaction it claims the due rows in id order, publishes each, and
  marks it published, rescheduled (a transient failure ends the pass) or failed (a permanent one).
  A purge worker deletes published rows behind a retention period.  Two servers and a migration
  command wire these parts from the environment.

  \<^bold>\<open>The theories\<close>, with the packages under \<open>src/\<close> they model.

  \<^item> The language and its library.  \<open>Prelude\<close>: types, collections of facts, \<open>int64\<close> wrap-around
    (\<open>i64\<close>) and truncating division.  \<open>GoErrors\<close>: error values with \<open>errors.Is\<close>, \<open>errors.Join\<close> and
    \<open>fmt.Errorf\<close>.  \<open>GoText\<close>: UTF-8, \<open>strings\<close>, \<open>%q\<close>.  \<open>GoTime\<close>: RFC 3339.  \<open>GoParse\<close>: \<open>strconv\<close>,
    \<open>time.ParseDuration\<close>, the levels of \<open>slog\<close>.  \<open>Float64\<close>: binary64 addition, multiplication and
    conversion as rounded rationals.  \<open>Logging\<close>: log lines as values.
  \<^item> The domain and the messages.  \<open>Domain\<close> (\<open>accounts/domain\<close>): email, display name, the aggregate
    \<open>User\<close> and its event recorder.  \<open>Messaging\<close> (\<open>platform/messaging\<close>) and \<open>Envelope\<close>
    (\<open>application/envelope.go\<close>): the CloudEvents factory.
  \<^item> The ports.  \<open>Outbox\<close> (\<open>application/outbox.go\<close>, \<open>publishing.go\<close>, \<open>topics.go\<close>): the interfaces as
    function types over a state, the routing table.
  \<^item> The use cases.  \<open>PublishBatch\<close> (\<open>application/publish_pending_batch.go\<close>): the pass over any ports,
    in the locale of their contract.  \<open>Purge\<close> (\<open>application/purge_published.go\<close>).
    \<open>Backoff\<close> (\<open>platform/backoff\<close>).
  \<^item> The adapters.  \<open>Database\<close>: the world they share, the tables \<open>accounts.users\<close> and
    \<open>accounts.outbox\<close>, an open transaction with its row locks, statement failures, a commit whose
    reply is lost, the broker's log and the script of the environment.  \<open>RelayOutbox\<close>
    (\<open>infrastructure/postgres/outbox_relay.go\<close>, \<open>publish_uow.go\<close>, \<open>WithTx\<close>), \<open>KafkaPublisher\<close>
    (\<open>infrastructure/kafka\<close>), \<open>WritePath\<close> (\<open>uow.go\<close>, \<open>tracker.go\<close>, \<open>user_repo.go\<close>,
    \<open>outbox_repo.go\<close>, \<open>wakeup/notify.go\<close>, \<open>application/register_user.go\<close>), \<open>Listener\<close>
    (\<open>wakeup/listen.go\<close>).
  \<^item> The composition.  \<open>Relay\<close>: the adapters satisfy the contract of the pass (the interpretation of
    its locale).  \<open>RelayPass\<close>, \<open>Delivery\<close>, \<open>RelayProperties\<close>: a whole pass from the claim to the
    commit.  \<open>WriteProperties\<close>: a whole registration.  \<open>RelayLoop\<close> and \<open>Drain\<close>
    (\<open>presentation/worker/relay.go\<close>), \<open>PurgeWorker\<close> (\<open>purger.go\<close>), \<open>RelayRun\<close>: the loop with the
    pass and the listener in one world.  \<open>HttpApi\<close> and \<open>HttpProperties\<close>
    (\<open>presentation/http\<close>).  \<open>SampleWorld\<close>: the concrete world the theorems are applied to.
  \<^item> The system.  \<open>System\<close>: registrations, passes and purges in any order as a step relation, and the
    invariant that no event is lost.  \<open>Progress\<close>: while the server and the broker answer, passes drain
    the backlog in the order of the ids.  \<open>Ordering\<close>: a row that waits for its retry is overtaken by later
    rows of its aggregate.  \<open>EndToEnd\<close>: from the command of a registration to the record in the topic.
  \<^item> Several relays.  \<open>PassMachine\<close>: the transaction of a pass as a machine of single statements, equal
    to the pass when it runs alone.  \<open>PassEnds\<close>: it ends whatever happens between its statements.
    \<open>Cluster\<close>: sessions with open transactions over one table, each
    step one statement of one session, a registration, a purge or a kill.  \<open>Interleaving\<close>: every
    step as an abstract move, and the invariant of a session.  \<open>SessionMoves\<close> and \<open>SecondRelay\<close>: the
    moves keep it, and what holds of every interleaving.
  \<^item> Requests and relays.  \<open>WriteMachine\<close>: a registration as a machine of single statements, equal to
    \<open>RegisterUser.Execute\<close> when it runs alone.  \<open>Writers\<close>: clients with open transactions beside the
    relays of a \<open>Cluster\<close>, with the waiting of an insert for a key of another transaction, and the
    invariant of a client.  \<open>WriterMoves\<close>: a step of a client stays inside its transaction or commits a
    user with its event.  \<open>Service\<close>: the keys of the tables and of the open transactions stay apart.
    \<open>ServiceSafety\<close>: what holds of every interleaving.  \<open>ServiceLiveness\<close>: no request waits for ever.
  \<^item> The processes.  \<open>Config\<close> and \<open>ConfigProperties\<close> (\<open>platform/config\<close>), \<open>Platform\<close>
    (\<open>platform/postgres\<close>, \<open>platform/kafka\<close>), \<open>Migrations\<close> (\<open>migrations/embed.go\<close>,
    \<open>cmd/migrate\<close>), \<open>Admin\<close> (\<open>platform/admin\<close>), \<open>Processes\<close>, \<open>Wiring\<close> and \<open>Group\<close> (\<open>cmd/api\<close>,
    \<open>cmd/relay\<close>): start-up, wiring, and the goroutines of the servers as a step relation.
  \<^item> The fixtures of the integration tests.  \<open>PgTest\<close> (\<open>platform/pgtest\<close>) and \<open>KafkaTest\<close>
    (\<open>platform/kafkatest\<close>): containers started once, no database handle left open, legal topic names,
    and exactly the records a test asks for.

  \<^bold>\<open>How state and effects correspond.\<close>  A method that has effects is a function from a state to a
  result and a state, \<open>act\<close>.  A use case is generic in its state and gets its ports as fields of a
  record, as the structs do; the adapters run on the record \<open>world\<close>.  Every interaction with the
  server or the broker takes the next answer of a script (\<open>w_tick\<close> counts them), and the
  theorems quantify over the script, so that any statement may fail at any point.  A transaction
  is visible in the tables only at its commit.  Errors are values; a nil error is \<open>None\<close>.

  \<^bold>\<open>What the lemmas show.\<close>  The contract of the pass (the locales of \<open>PublishBatch\<close>) gives what
  a pass does to any outbox that keeps its laws; the interpretation in \<open>Relay\<close> carries it to the
  program.  On it rest the theorems on a pass: every published row is in the broker, an
  error-free pass refines an abstract one, a failed pass changes nothing unless its commit took
  effect, only permanent errors park, records are appended in id order.  The write path: both
  tables are written or neither, whatever fails.  The loops: locales for a worker that runs until
  it is stopped, interpreted for the relay and for the purge worker; the range and the ladder of
  the idle wait; the drain grace as an invariant of a step relation.  The configuration: what
  an accepted one guarantees, that a bad variable is always named, and that an accepted one
  is enough for what it is wired to.  The processes: every way out closes the pool, and once told to
  stop, or once a listener failed, the goroutines wind down, every server shut down, with the first error.  The system: safety (no event is lost, in any interleaving of whole
  operations), liveness (a backlog drains) and their composition (a registration reaches the topic
  with the data of its command).  Several relays: their claims are disjoint, and an event is in
  the topic more than once only behind a failure that put it at risk.  Requests beside relays: unique
  addresses and ids, true answers, and one event for every user, whatever the interleaving; no
  deadlock between their inserts, and an answer behind eight steps of each request.

  \<^bold>\<open>Loops and bounds.\<close>  Loops over data are structural recursion.  The purge loop, the loops of
  the two workers and the reading of a topic in \<open>KafkaTest\<close> may run for ever, and are partial functions
  of \<open>option\<close>; that the purge returns is proved for positive batch sizes, that the workers return for
  a context that ends, that the reading returns for a client that answers.
  No definition uses fuel.  Durations are \<open>int\<close> with the wrap-around of \<open>int64\<close> written out
  wherever the code computes one.

  \<^bold>\<open>Not modelled.\<close>  The construction of the JSON log handler, and the installation of the signal handler (a
  signal is a step of \<open>Group\<close>), a panic (the rollback that \<open>WithTx\<close> defers for it), and the headers
  \<open>net/http\<close> adds to a response on its own.  In \<open>Processes\<close> the goroutines are one parameter, \<open>serve\<close>; \<open>Group\<close> has their
  order, the loops are modelled one by one.  Third-party code is a parameter or a field of a record,
  with what is relied on as a named hypothesis: pgx and pgxpool, franz-go, goose, \<open>errgroup\<close>, testcontainers; so are
  \<open>net/mail\<close>, the decoder of \<open>encoding/json\<close> and the Unicode case tables.  In \<open>Cluster\<close> a registration
  and a page of the purge are one step, at their commit: the first only adds rows no relay sees
  before, the second only takes rows no relay has claimed.  \<open>Writers\<close> takes the registration apart
  and drops this simplification; the purge is one statement.  Of the server's unique indexes it has
  what the code relies on: an insert waits for an open transaction with its key and fails behind its
  commit.
\<close>

end
